(* ===== verification/Prelude.thy ===== *)
theory Prelude
  imports Main "HOL-Library.Word"
begin

text \<open>
  Shared vocabulary of the development: machine integers and big-endian byte strings,
  IP and socket addresses, the outcomes of Rust code (\<open>Result\<close>, panic, a blocked
  \<open>await\<close>), the bounded FIFO behind \<open>tokio::sync::mpsc\<close>, and the small
  statement language in which the message handlers of the program are written down.
\<close>

section \<open>Machine integers and bytes\<close>

type_synonym u8 = "8 word"
type_synonym u16 = "16 word"
type_synonym u32 = "32 word"
type_synonym u64 = "64 word"
type_synonym bytes = "u8 list"

named_theorems machine_simps "fixed-width arithmetic of the model"
named_theorems flow_simps "evaluation of handler statements"

text \<open>
  Big-endian byte strings: \<open>be_nat\<close> is the number a byte string denotes, \<open>to_be n w\<close>
  the \<open>n\<close> least significant bytes of \<open>w\<close>, most significant first
  (\<open>to_be_bytes\<close>, \<open>octets\<close>), \<open>from_be\<close> its inverse (\<open>from_be_bytes\<close>,
  \<open>Ipv4Addr::from\<close>).
\<close>

definition be_nat :: "bytes \<Rightarrow> nat" where
  "be_nat bs = foldl (\<lambda>a b. a * 256 + unat b) 0 bs"

definition from_be :: "bytes \<Rightarrow> 'a::len word" where
  "from_be bs = word_of_nat (be_nat bs)"

primrec to_be :: "nat \<Rightarrow> 'a::len word \<Rightarrow> bytes" where
  "to_be 0 w = []"
| "to_be (Suc n) w = word_of_nat (unat w div 256 ^ n) # to_be n w"

lemma length_to_be [simp]: "length (to_be n w) = n"
  by (induction n) auto

lemma be_nat_acc: "foldl (\<lambda>a (b::u8). a * 256 + unat b) x bs = x * 256 ^ length bs + be_nat bs"
proof (induction bs arbitrary: x)
  case Nil
  then show ?case by (simp add: be_nat_def)
next
  case (Cons b bs)
  show ?case
    using Cons[of "x * 256 + unat b"] Cons[of "unat b"]
    by (simp add: be_nat_def algebra_simps)
qed

lemma be_nat_Nil [simp]: "be_nat [] = 0"
  by (simp add: be_nat_def)

lemma be_nat_Cons: "be_nat (b # bs) = unat b * 256 ^ length bs + be_nat bs"
  using be_nat_acc[of "unat b" bs] by (simp add: be_nat_def)

lemma unat_byte: "unat (word_of_nat x :: u8) = x mod 256"
  by (simp add: unat_of_nat)

lemma be_nat_to_be: "be_nat (to_be n w) = unat w mod 256 ^ n"
proof (induction n)
  case 0
  then show ?case by simp
next
  case (Suc n)
  have "unat w mod 256 ^ Suc n = 256 ^ n * (unat w div 256 ^ n mod 256) + unat w mod 256 ^ n"
    using mod_mult2_eq[of "unat w" "256 ^ n" 256] by (simp add: mult.commute)
  with Suc show ?case
    by (simp add: be_nat_Cons unat_byte mult.commute)
qed

lemma be_nat_bound: "be_nat bs < 256 ^ length bs"
proof (induction bs)
  case Nil
  then show ?case by simp
next
  case (Cons b bs)
  have "Suc (unat b) \<le> 256" using unsigned_less[of b, where ?'a = nat] by simp
  then have "Suc (unat b) * 256 ^ length bs \<le> 256 ^ length (b # bs)"
    unfolding length_Cons power_Suc by (rule mult_le_mono1)
  moreover have "be_nat (b # bs) < Suc (unat b) * 256 ^ length bs"
    using Cons by (simp add: be_nat_Cons)
  ultimately show ?case by (rule order_less_le_trans [rotated])
qed

lemma from_be_to_be:
  assumes "LENGTH('a::len) = 8 * n"
  shows "from_be (to_be n w) = (w :: 'a word)"
proof -
  have "(256::nat) ^ n = 2 ^ LENGTH('a)"
    using power_mult[of "2::nat" 8 n] assms by simp
  then have "unat w < 256 ^ n" using unsigned_less[of w, where ?'a = nat] by simp
  then show ?thesis by (simp add: from_be_def be_nat_to_be)
qed

lemma from_be_to_be_word [machine_simps]:
  "from_be (to_be 2 w2) = (w2 :: u16)"
  "from_be (to_be 4 w4) = (w4 :: u32)"
  "from_be (to_be 8 w8) = (w8 :: u64)"
  "from_be (to_be 16 w16) = (w16 :: 128 word)"
  by (rule from_be_to_be; simp)+

section \<open>Addresses\<close>

text \<open>\<open>std::net::IpAddr\<close> and \<open>SocketAddr\<close>.\<close>

datatype IpAddr = V4 "32 word" | V6 "128 word"

type_synonym SocketAddr = "IpAddr \<times> u16"

fun same_family :: "IpAddr \<Rightarrow> IpAddr \<Rightarrow> bool" where
  "same_family (V4 _) (V4 _) = True"
| "same_family (V6 _) (V6 _) = True"
| "same_family _ _ = False"

lemma same_family_sym: "same_family a b = same_family b a"
  by (cases a; cases b) auto

section \<open>Outcomes\<close>

text \<open>A Rust expression of type \<open>Result<T, E>\<close> yields \<open>Ok\<close>, \<open>Err\<close>, or panics.\<close>

datatype ('e, 'a) outcome = Ok 'a | Err 'e | Panic

fun map_ok :: "('a \<Rightarrow> 'b) \<Rightarrow> ('e, 'a) outcome \<Rightarrow> ('e, 'b) outcome" where
  "map_ok f (Ok x) = Ok (f x)"
| "map_ok f (Err e) = Err e"
| "map_ok f Panic = Panic"

section \<open>Bounded channels\<close>

text \<open>
  \<open>tokio::sync::mpsc::channel(n)\<close>: a FIFO of at most \<open>n\<close> messages. \<open>send\<close> fails
  once the receiver is gone, otherwise it waits while the buffer is full; \<open>recv\<close> takes
  the oldest message.
\<close>

record 'a chan =
  ch_queue :: "'a list"
  ch_cap :: nat
  ch_closed :: bool

datatype 'a send_result = Sent "'a chan" | SendClosed | SendFull

definition new_chan :: "nat \<Rightarrow> 'a chan" where
  "new_chan n = \<lparr>ch_queue = [], ch_cap = n, ch_closed = False\<rparr>"

definition chan_send :: "'a \<Rightarrow> 'a chan \<Rightarrow> 'a send_result" where
  "chan_send x c =
     (if ch_closed c then SendClosed
      else if length (ch_queue c) < ch_cap c then Sent (c\<lparr>ch_queue := ch_queue c @ [x]\<rparr>)
      else SendFull)"

definition chan_recv :: "'a chan \<Rightarrow> ('a \<times> 'a chan) option" where
  "chan_recv c = (case ch_queue c of [] \<Rightarrow> None | x # xs \<Rightarrow> Some (x, c\<lparr>ch_queue := xs\<rparr>))"

text \<open>\<open>room n c\<close>: the channel is open and takes \<open>n\<close> more messages without waiting.\<close>

definition room :: "nat \<Rightarrow> 'a chan \<Rightarrow> bool" where
  "room n c \<longleftrightarrow> \<not> ch_closed c \<and> length (ch_queue c) + n \<le> ch_cap c"

lemma chan_send_room [flow_simps]:
  "room (Suc n) c \<Longrightarrow> chan_send x c = Sent (c\<lparr>ch_queue := ch_queue c @ [x]\<rparr>)"
  by (simp add: chan_send_def room_def)

lemma room_after_send [flow_simps]: "room n (c\<lparr>ch_queue := ch_queue c @ [x]\<rparr>) = room (Suc n) c"
  by (simp add: room_def)

lemma room_mono: "room n c \<Longrightarrow> m \<le> n \<Longrightarrow> room m c"
  by (simp add: room_def)

section \<open>Handler statements\<close>

text \<open>
  A handler is a sequence of statements over a state. A statement completes
  (\<open>Done\<close>), returns early with an error (the \<open>?\<close> operator), panics, or waits
  forever on a full channel that only its own task drains (\<open>Blocked\<close>). The effects
  made before the interruption stay, as they do in the code.
\<close>

datatype 'e flow = Done | Failed 'e | Panicked | Blocked

type_synonym ('e, 's) stmt = "'s \<Rightarrow> 'e flow \<times> 's"

fun exec :: "('e, 's) stmt list \<Rightarrow> ('e, 's) stmt" where
  "exec [] s = (Done, s)"
| "exec (m # ms) s =
     (case m s of (Done, s') \<Rightarrow> exec ms s' | (r, s') \<Rightarrow> (r, s'))"

lemma exec_append:
  "exec (ms @ ns) s = (case exec ms s of (Done, s') \<Rightarrow> exec ns s' | (r, s') \<Rightarrow> (r, s'))"
proof (induction ms arbitrary: s)
  case Nil
  then show ?case by simp
next
  case (Cons m ms)
  show ?case
    by (cases "m s"; cases "fst (m s)") (auto simp: Cons)
qed

text \<open>A statement that depends on what it reads from the state.\<close>

definition with_state :: "('s \<Rightarrow> ('e, 's) stmt) \<Rightarrow> ('e, 's) stmt" where
  "with_state m s = m s s"

text \<open>
  Invariants of statements: \<open>keeps pan P m\<close> says that \<open>m\<close> preserves \<open>P\<close> however it
  ends, and that it panics only if \<open>pan\<close>. A statement list keeps what each of its
  statements keeps.
\<close>

definition keeps :: "bool \<Rightarrow> ('s \<Rightarrow> bool) \<Rightarrow> ('e, 's) stmt \<Rightarrow> bool" where
  "keeps pan P m \<longleftrightarrow> (\<forall>s. P s \<longrightarrow> (fst (m s) = Panicked \<longrightarrow> pan) \<and> P (snd (m s)))"

named_theorems keeps_intros "invariant rules of statements"

lemma keepsI:
  "(\<And>s. P s \<Longrightarrow> P (snd (m s))) \<Longrightarrow> (\<And>s. P s \<Longrightarrow> fst (m s) = Panicked \<Longrightarrow> pan) \<Longrightarrow> keeps pan P m"
  by (simp add: keeps_def)

lemma keepsD: "keeps pan P m \<Longrightarrow> P s \<Longrightarrow> P (snd (m s))"
  and keeps_no_panic: "keeps False P m \<Longrightarrow> P s \<Longrightarrow> fst (m s) \<noteq> Panicked"
  by (simp_all add: keeps_def)

lemma keeps_exec_Nil [keeps_intros]: "keeps pan P (exec [])"
  by (simp add: keeps_def)

lemma keeps_exec_Cons [keeps_intros]:
  assumes m: "keeps pan P m" and ms: "keeps pan P (exec ms)"
  shows "keeps pan P (exec (m # ms))"
  unfolding keeps_def
proof (intro allI impI)
  fix s assume "P s"
  with m have "P (snd (m s))" and "fst (m s) = Panicked \<longrightarrow> pan" by (auto simp: keeps_def)
  with ms show "(fst (exec (m # ms) s) = Panicked \<longrightarrow> pan) \<and> P (snd (exec (m # ms) s))"
    by (cases "m s"; cases "fst (m s)") (auto simp: keeps_def)
qed

lemma keeps_exec: "(\<And>m. m \<in> set ms \<Longrightarrow> keeps pan P m) \<Longrightarrow> keeps pan P (exec ms)"
  by (induction ms) (auto intro: keeps_intros)

lemma keeps_with_state [keeps_intros]:
  "(\<And>s0. P s0 \<Longrightarrow> keeps pan P (m s0)) \<Longrightarrow> keeps pan P (with_state m)"
  by (simp add: keeps_def with_state_def)

lemma keeps_if [keeps_intros]:
  "(b \<Longrightarrow> keeps pan P m) \<Longrightarrow> (\<not> b \<Longrightarrow> keeps pan P n) \<Longrightarrow> keeps pan P (if b then m else n)"
  by simp

end
