(* ===== verification/Packet.thy ===== *)
theory Packet
  imports Prelude
begin

text \<open>
  \<open>src/src/packet.rs\<close>: parsing of the IP packets read from the TUN device and
  construction of the packets written back to it. The crate \<open>etherparse\<close> is not part
  of the repository: the record \<open>etherparse\<close> holds the functions of that crate the code
  calls, every definition takes it as an argument, and the locale \<open>etherparse_laws\<close>
  states what the crate documents about them. The theory \<open>Wire\<close> interprets the
  locale on the RFC wire formats.
\<close>

section \<open>The interface of the etherparse crate\<close>

text \<open>What the code reads from the four header slices.\<close>

record Ipv4HeaderSlice =
  ip4_source :: bytes
  ip4_destination :: bytes
  ip4_protocol :: u8
  ip4_slice_len :: nat
  ip4_total_len :: u16

record Ipv6HeaderSlice =
  ip6_source :: bytes
  ip6_destination :: bytes
  ip6_next_header :: u8
  ip6_payload_length :: u16

record TcpHeaderSlice =
  th_source_port :: u16
  th_destination_port :: u16
  th_sequence_number :: u32
  th_acknowledgment_number :: u32
  th_syn :: bool
  th_ack :: bool
  th_fin :: bool
  th_rst :: bool
  th_psh :: bool
  th_window_size :: u16
  th_slice_len :: nat

record UdpHeaderSlice =
  uh_source_port :: u16
  uh_destination_port :: u16

text \<open>
  The calls made on \<open>PacketBuilder\<close>: \<open>ipv4(src, dst, ttl)\<close> or \<open>ipv6(...)\<close>, then
  \<open>tcp(...)\<close> with the flag setters, or \<open>udp(...)\<close>. \<open>ack(n)\<close> sets the flag and the
  number, so it is an option.
\<close>

datatype ip_step = BuilderIpv4 bytes bytes u8 | BuilderIpv6 bytes bytes u8

record tcp_step =
  ts_ip :: ip_step
  ts_source_port :: u16
  ts_destination_port :: u16
  ts_sequence_number :: u32
  ts_window_size :: u16
  ts_syn :: bool
  ts_ack :: "u32 option"
  ts_fin :: bool
  ts_rst :: bool
  ts_psh :: bool

record udp_step =
  us_ip :: ip_step
  us_source_port :: u16
  us_destination_port :: u16

record etherparse =
  ipv4_from_slice :: "bytes \<Rightarrow> string + Ipv4HeaderSlice"
  ipv6_from_slice :: "bytes \<Rightarrow> string + Ipv6HeaderSlice"
  ipv6_exts_from_slice :: "u8 \<Rightarrow> bytes \<Rightarrow> string + (u8 \<times> bytes)"
  tcp_from_slice :: "bytes \<Rightarrow> string + TcpHeaderSlice"
  udp_from_slice :: "bytes \<Rightarrow> string + UdpHeaderSlice"
  tcp_write :: "tcp_step \<Rightarrow> bytes \<Rightarrow> string + bytes"
  udp_write :: "udp_step \<Rightarrow> bytes \<Rightarrow> string + bytes"

abbreviation ip_number_tcp :: u8 where "ip_number_tcp \<equiv> 6"
abbreviation ip_number_udp :: u8 where "ip_number_udp \<equiv> 17"

section \<open>Parsed packets\<close>

record TcpFlags =
  syn :: bool
  ack :: bool
  fin :: bool
  rst :: bool
  psh :: bool

definition no_flags :: TcpFlags where
  "no_flags = \<lparr>syn = False, ack = False, fin = False, rst = False, psh = False\<rparr>"

record TcpPacketInfo =
  tcp_src_ip :: IpAddr
  tcp_dst_ip :: IpAddr
  tcp_src_port :: u16
  tcp_dst_port :: u16
  tcp_seq :: u32
  tcp_ack :: u32
  tcp_flags :: TcpFlags
  tcp_window :: u16
  tcp_payload :: bytes

record UdpPacketInfo =
  udp_src_ip :: IpAddr
  udp_dst_ip :: IpAddr
  udp_src_port :: u16
  udp_dst_port :: u16
  udp_payload :: bytes

datatype ParsedPacket = Tcp TcpPacketInfo | Udp UdpPacketInfo | Other u8

datatype packet_error =
    EmptyPacket
  | UnknownIpVersion u8
  | TooShortIpv4
  | TooShortIpv6
  | TooShortTcp
  | TooShortUdp
  | EtherparseError string

text \<open>
  \<open>&data[a..b]\<close>: Rust panics when \<open>a > b\<close> or \<open>b > data.len()\<close>.
\<close>

definition byte_slice :: "bytes \<Rightarrow> nat \<Rightarrow> nat \<Rightarrow> bytes option" where
  "byte_slice data a b =
     (if a \<le> b \<and> b \<le> length data then Some (take (b - a) (drop a data)) else None)"

definition parse_transport ::
  "etherparse \<Rightarrow> u8 \<Rightarrow> IpAddr \<Rightarrow> IpAddr \<Rightarrow> bytes \<Rightarrow> (packet_error, ParsedPacket) outcome"
where
  "parse_transport ep protocol src dst ip_payload =
     (if protocol = ip_number_tcp then
        (if length ip_payload < 20 then Err TooShortTcp
         else case tcp_from_slice ep ip_payload of
           Inl e \<Rightarrow> Err (EtherparseError e)
         | Inr h \<Rightarrow>
             (case byte_slice ip_payload (th_slice_len h) (length ip_payload) of
                None \<Rightarrow> Panic
              | Some payload \<Rightarrow>
                  Ok (Tcp \<lparr>tcp_src_ip = src, tcp_dst_ip = dst,
                           tcp_src_port = th_source_port h,
                           tcp_dst_port = th_destination_port h,
                           tcp_seq = th_sequence_number h,
                           tcp_ack = th_acknowledgment_number h,
                           tcp_flags = \<lparr>syn = th_syn h, ack = th_ack h, fin = th_fin h,
                                        rst = th_rst h, psh = th_psh h\<rparr>,
                           tcp_window = th_window_size h,
                           tcp_payload = payload\<rparr>)))
      else if protocol = ip_number_udp then
        (if length ip_payload < 8 then Err TooShortUdp
         else case udp_from_slice ep ip_payload of
           Inl e \<Rightarrow> Err (EtherparseError e)
         | Inr h \<Rightarrow>
             Ok (Udp \<lparr>udp_src_ip = src, udp_dst_ip = dst,
                      udp_src_port = uh_source_port h,
                      udp_dst_port = uh_destination_port h,
                      udp_payload = drop 8 ip_payload\<rparr>))
      else Ok (Other protocol))"

definition parse_ipv4_packet :: "etherparse \<Rightarrow> bytes \<Rightarrow> (packet_error, ParsedPacket) outcome"
where
  "parse_ipv4_packet ep data =
     (if length data < 20 then Err TooShortIpv4
      else case ipv4_from_slice ep data of
        Inl e \<Rightarrow> Err (EtherparseError e)
      | Inr h \<Rightarrow>
          (let src_ip = V4 (from_be (ip4_source h));
               dst_ip = V4 (from_be (ip4_destination h));
               payload_start = ip4_slice_len h;
               payload_end = min (unat (ip4_total_len h)) (length data)
           in case byte_slice data payload_start payload_end of
                None \<Rightarrow> Panic
              | Some ip_payload \<Rightarrow>
                  parse_transport ep (ip4_protocol h) src_ip dst_ip ip_payload))"

text \<open>\<open>Ipv6Header::LEN\<close> is 40.\<close>

definition parse_ipv6_packet :: "etherparse \<Rightarrow> bytes \<Rightarrow> (packet_error, ParsedPacket) outcome"
where
  "parse_ipv6_packet ep data =
     (if length data < 40 then Err TooShortIpv6
      else case ipv6_from_slice ep data of
        Inl e \<Rightarrow> Err (EtherparseError e)
      | Inr h \<Rightarrow>
          (let src_ip = V6 (from_be (ip6_source h));
               dst_ip = V6 (from_be (ip6_destination h))
           in case byte_slice data 40 (min (length data) (40 + unat (ip6_payload_length h))) of
                None \<Rightarrow> Panic
              | Some remaining \<Rightarrow>
                  (case ipv6_exts_from_slice ep (ip6_next_header h) remaining of
                     Inl e \<Rightarrow> Err (EtherparseError e)
                   | Inr (protocol, transport_payload) \<Rightarrow>
                       parse_transport ep protocol src_ip dst_ip transport_payload)))"

definition parse_ip_packet :: "etherparse \<Rightarrow> bytes \<Rightarrow> (packet_error, ParsedPacket) outcome"
where
  "parse_ip_packet ep data =
     (case data of
        [] \<Rightarrow> Err EmptyPacket
      | b # _ \<Rightarrow>
          (let version = and (drop_bit 4 b) 0xF
           in if version = 4 then parse_ipv4_packet ep data
              else if version = 6 then parse_ipv6_packet ep data
              else Err (UnknownIpVersion version)))"

section \<open>Built packets\<close>

record TcpPacket =
  tp_src_ip :: IpAddr
  tp_dst_ip :: IpAddr
  tp_src_port :: u16
  tp_dst_port :: u16
  tp_seq :: u32
  tp_ack :: u32
  tp_flags :: TcpFlags
  tp_window :: u16
  tp_payload :: bytes

record UdpPacket =
  up_src_ip :: IpAddr
  up_dst_ip :: IpAddr
  up_src_port :: u16
  up_dst_port :: u16
  up_payload :: bytes

text \<open>The \<open>match (self.src_ip, self.dst_ip)\<close> of both builders; \<open>None\<close> is its panic arm.\<close>

fun ip_builder :: "IpAddr \<Rightarrow> IpAddr \<Rightarrow> ip_step option" where
  "ip_builder (V4 src) (V4 dst) = Some (BuilderIpv4 (to_be 4 src) (to_be 4 dst) 64)"
| "ip_builder (V6 src) (V6 dst) = Some (BuilderIpv6 (to_be 16 src) (to_be 16 dst) 64)"
| "ip_builder _ _ = None"

definition tcp_builder :: "TcpPacket \<Rightarrow> ip_step \<Rightarrow> tcp_step" where
  "tcp_builder p ip =
     \<lparr>ts_ip = ip, ts_source_port = tp_src_port p, ts_destination_port = tp_dst_port p,
      ts_sequence_number = tp_seq p, ts_window_size = tp_window p,
      ts_syn = syn (tp_flags p),
      ts_ack = (if ack (tp_flags p) then Some (tp_ack p) else None),
      ts_fin = fin (tp_flags p), ts_rst = rst (tp_flags p), ts_psh = psh (tp_flags p)\<rparr>"

definition tcp_build :: "etherparse \<Rightarrow> TcpPacket \<Rightarrow> (packet_error, bytes) outcome" where
  "tcp_build ep p =
     (case ip_builder (tp_src_ip p) (tp_dst_ip p) of
        None \<Rightarrow> Panic
      | Some ip \<Rightarrow>
          (case tcp_write ep (tcp_builder p ip) (tp_payload p) of
             Inl _ \<Rightarrow> Panic
           | Inr result \<Rightarrow> Ok result))"

definition udp_build :: "etherparse \<Rightarrow> UdpPacket \<Rightarrow> (packet_error, bytes) outcome" where
  "udp_build ep p =
     (case ip_builder (up_src_ip p) (up_dst_ip p) of
        None \<Rightarrow> Panic
      | Some ip \<Rightarrow>
          (case udp_write ep \<lparr>us_ip = ip, us_source_port = up_src_port p,
                              us_destination_port = up_dst_port p\<rparr> (up_payload p) of
             Inl _ \<Rightarrow> Panic
           | Inr result \<Rightarrow> Ok result))"

section \<open>What the code relies on in etherparse\<close>

text \<open>The TCP header a finished builder describes: an unset \<open>ack\<close> writes number 0.\<close>

definition tcp_header_of :: "tcp_step \<Rightarrow> TcpHeaderSlice" where
  "tcp_header_of b =
     \<lparr>th_source_port = ts_source_port b, th_destination_port = ts_destination_port b,
      th_sequence_number = ts_sequence_number b,
      th_acknowledgment_number = (case ts_ack b of None \<Rightarrow> 0 | Some n \<Rightarrow> n),
      th_syn = ts_syn b, th_ack = (ts_ack b \<noteq> None), th_fin = ts_fin b,
      th_rst = ts_rst b, th_psh = ts_psh b,
      th_window_size = ts_window_size b, th_slice_len = 20\<rparr>"

definition udp_header_of :: "udp_step \<Rightarrow> UdpHeaderSlice" where
  "udp_header_of b =
     \<lparr>uh_source_port = us_source_port b, uh_destination_port = us_destination_port b\<rparr>"

text \<open>
  \<open>ip_header_ok ep ip proto len ih\<close>: \<open>ih\<close> is a header that reads back as the
  builder step \<open>ip\<close> around \<open>len\<close> bytes of transport protocol \<open>proto\<close>.
\<close>

fun ip_header_ok :: "etherparse \<Rightarrow> ip_step \<Rightarrow> u8 \<Rightarrow> nat \<Rightarrow> bytes \<Rightarrow> bool" where
  "ip_header_ok ep (BuilderIpv4 s d ttl) proto len ih \<longleftrightarrow>
     length ih = 20 \<and> and (drop_bit 4 (hd ih)) 0xF = 4 \<and>
     (\<forall>rest. ipv4_from_slice ep (ih @ rest) = Inr
        \<lparr>ip4_source = s, ip4_destination = d, ip4_protocol = proto,
         ip4_slice_len = 20, ip4_total_len = word_of_nat (20 + len)\<rparr>)"
| "ip_header_ok ep (BuilderIpv6 s d ttl) proto len ih \<longleftrightarrow>
     length ih = 40 \<and> and (drop_bit 4 (hd ih)) 0xF = 6 \<and>
     (\<forall>rest. ipv6_from_slice ep (ih @ rest) = Inr
        \<lparr>ip6_source = s, ip6_destination = d, ip6_next_header = proto,
         ip6_payload_length = word_of_nat len\<rparr>)"

text \<open>Address widths of a step, and the room its length field leaves for the transport part.\<close>

fun ip_step_wf :: "ip_step \<Rightarrow> bool" where
  "ip_step_wf (BuilderIpv4 s d ttl) \<longleftrightarrow> length s = 4 \<and> length d = 4"
| "ip_step_wf (BuilderIpv6 s d ttl) \<longleftrightarrow> length s = 16 \<and> length d = 16"

fun ip_room :: "ip_step \<Rightarrow> nat" where
  "ip_room (BuilderIpv4 s d ttl) = 65515"
| "ip_room (BuilderIpv6 s d ttl) = 65535"

text \<open>
  The documented behaviour: header slices lie inside the bytes they were read from;
  walking the IPv6 extension headers returns part of its input, all of it when the next
  header is already a transport protocol; a builder writes its headers, which read back
  field by field, followed by the payload, or fails when a length field would overflow.
\<close>

locale etherparse_laws =
  fixes ep :: etherparse
  assumes ipv4_slice_bounds:
      "ipv4_from_slice ep d = Inr h4 \<Longrightarrow> 20 \<le> ip4_slice_len h4 \<and> ip4_slice_len h4 \<le> length d"
    and tcp_slice_bounds:
      "tcp_from_slice ep d = Inr ht \<Longrightarrow> 20 \<le> th_slice_len ht \<and> th_slice_len ht \<le> length d"
    and exts_shrink: "ipv6_exts_from_slice ep n d = Inr (q, r) \<Longrightarrow> length r \<le> length d"
    and exts_transport:
      "n = ip_number_tcp \<or> n = ip_number_udp \<Longrightarrow> ipv6_exts_from_slice ep n d = Inr (n, d)"
    and tcp_write_ok:
      "ip_step_wf (ts_ip b) \<Longrightarrow> 20 + length p \<le> ip_room (ts_ip b) \<Longrightarrow>
       \<exists>ih th. tcp_write ep b p = Inr (ih @ th @ p) \<and> length th = 20 \<and>
         ip_header_ok ep (ts_ip b) ip_number_tcp (20 + length p) ih \<and>
         (\<forall>rest. tcp_from_slice ep (th @ rest) = Inr (tcp_header_of b))"
    and tcp_write_too_big:
      "ip_room (ts_ip b) < 20 + length p \<Longrightarrow> \<exists>e. tcp_write ep b p = Inl e"
    and udp_write_ok:
      "ip_step_wf (us_ip u) \<Longrightarrow> 8 + length p \<le> ip_room (us_ip u) \<Longrightarrow>
       \<exists>ih uh. udp_write ep u p = Inr (ih @ uh @ p) \<and> length uh = 8 \<and>
         ip_header_ok ep (us_ip u) ip_number_udp (8 + length p) ih \<and>
         (\<forall>rest. udp_from_slice ep (uh @ rest) = Inr (udp_header_of u))"
    and udp_write_too_big:
      "ip_room (us_ip u) < 8 + length p \<Longrightarrow> \<exists>e. udp_write ep u p = Inl e"

section \<open>Parsing: families, panics, payload bounds\<close>

text \<open>The packet a parser result carries, as (source, destination) addresses.\<close>

fun packet_ips :: "ParsedPacket \<Rightarrow> (IpAddr \<times> IpAddr) option" where
  "packet_ips (Tcp t) = Some (tcp_src_ip t, tcp_dst_ip t)"
| "packet_ips (Udp u) = Some (udp_src_ip u, udp_dst_ip u)"
| "packet_ips (Other _) = None"

lemma parse_transport_ips:
  "parse_transport ep q s d data = Ok pkt \<Longrightarrow> packet_ips pkt = Some (s', d') \<Longrightarrow> s' = s \<and> d' = d"
  by (auto simp: parse_transport_def split: if_splits sum.splits option.splits)

lemma parse_ipv4_OkE:
  assumes "parse_ipv4_packet ep data = Ok pkt"
  obtains h r where "ipv4_from_slice ep data = Inr h"
    "byte_slice data (ip4_slice_len h) (min (unat (ip4_total_len h)) (length data)) = Some r"
    "parse_transport ep (ip4_protocol h) (V4 (from_be (ip4_source h)))
       (V4 (from_be (ip4_destination h))) r = Ok pkt"
  using assms
  by (simp add: parse_ipv4_packet_def Let_def split: if_splits sum.splits option.splits)

lemma parse_ipv6_OkE:
  assumes "parse_ipv6_packet ep data = Ok pkt"
  obtains h m q r where "ipv6_from_slice ep data = Inr h"
    "byte_slice data 40 (min (length data) (40 + unat (ip6_payload_length h))) = Some m"
    "ipv6_exts_from_slice ep (ip6_next_header h) m = Inr (q, r)"
    "parse_transport ep q (V6 (from_be (ip6_source h))) (V6 (from_be (ip6_destination h))) r = Ok pkt"
  using assms
  by (simp add: parse_ipv6_packet_def Let_def split: if_splits sum.splits option.splits prod.splits)

lemma parse_ip_packet_OkE:
  assumes "parse_ip_packet ep data = Ok pkt"
  obtains "parse_ipv4_packet ep data = Ok pkt" | "parse_ipv6_packet ep data = Ok pkt"
  using assms by (auto simp: parse_ip_packet_def Let_def split: list.splits if_splits)

lemma parse_ip_packet_family:
  assumes "parse_ip_packet ep data = Ok pkt" and "packet_ips pkt = Some (s, d)"
  shows "same_family s d"
  using assms(1)
proof (cases rule: parse_ip_packet_OkE)
  case 1
  then show ?thesis using assms(2) by (auto elim!: parse_ipv4_OkE dest!: parse_transport_ips)
next
  case 2
  then show ?thesis using assms(2) by (auto elim!: parse_ipv6_OkE dest!: parse_transport_ips)
qed

lemma length_slice: "byte_slice data a b = Some r \<Longrightarrow> length r = b - a"
  by (auto simp: byte_slice_def split: if_splits)

context etherparse_laws
begin

lemma parse_transport_no_panic: "parse_transport ep q s d data \<noteq> Panic"
  using tcp_slice_bounds[of data]
  by (auto simp: parse_transport_def byte_slice_def split: sum.splits)

lemma parse_ipv4_panic_iff:
  "parse_ipv4_packet ep data = Panic \<longleftrightarrow>
     20 \<le> length data \<and>
     (\<exists>h. ipv4_from_slice ep data = Inr h \<and> unat (ip4_total_len h) < ip4_slice_len h)"
  using ipv4_slice_bounds[of data] parse_transport_no_panic
  by (auto simp: parse_ipv4_packet_def byte_slice_def Let_def split: sum.splits)

lemma parse_ipv6_no_panic: "parse_ipv6_packet ep data \<noteq> Panic"
  using parse_transport_no_panic
  by (auto simp: parse_ipv6_packet_def byte_slice_def Let_def split: sum.splits)

lemma parse_transport_payload:
  "parse_transport ep q s d data = Ok (Tcp t) \<Longrightarrow> length (tcp_payload t) + 20 \<le> length data"
  using tcp_slice_bounds[of data]
  by (auto simp: parse_transport_def byte_slice_def split: if_splits sum.splits)

lemma parse_ip_packet_payload:
  assumes "parse_ip_packet ep data = Ok (Tcp t)"
  shows "length (tcp_payload t) + 20 \<le> 65535"
proof -
  have transport: "length (tcp_payload t) + 20 \<le> 65535"
    if "parse_transport ep q s d r = Ok (Tcp t)" "length r \<le> 65535" for q s d r
    using parse_transport_payload[OF that(1)] that(2) by simp
  have u16: "unat (w :: u16) \<le> 65535" for w
    using unsigned_less[of w, where ?'a = nat] by simp
  from assms show ?thesis
  proof (cases rule: parse_ip_packet_OkE)
    case 1
    then show ?thesis
    proof (cases rule: parse_ipv4_OkE)
      case (1 h r)
      have "length r \<le> 65535"
        using length_slice[OF 1(2)] u16[of "ip4_total_len h"] by simp
      with 1(3) show ?thesis by (rule transport)
    qed
  next
    case 2
    then show ?thesis
    proof (cases rule: parse_ipv6_OkE)
      case (1 h m q r)
      have "length r \<le> 65535"
        using exts_shrink[OF 1(3)] length_slice[OF 1(2)] u16[of "ip6_payload_length h"] by simp
      with 1(4) show ?thesis by (rule transport)
    qed
  qed
qed

end

section \<open>Building, and parsing what was built\<close>

text \<open>
  The information a built packet carries: the acknowledgment number is written only when
  the \<open>ack\<close> flag is set.
\<close>

definition tcp_info_of :: "TcpPacket \<Rightarrow> TcpPacketInfo" where
  "tcp_info_of p =
     \<lparr>tcp_src_ip = tp_src_ip p, tcp_dst_ip = tp_dst_ip p, tcp_src_port = tp_src_port p,
      tcp_dst_port = tp_dst_port p, tcp_seq = tp_seq p,
      tcp_ack = (if ack (tp_flags p) then tp_ack p else 0), tcp_flags = tp_flags p,
      tcp_window = tp_window p, tcp_payload = tp_payload p\<rparr>"

definition udp_info_of :: "UdpPacket \<Rightarrow> UdpPacketInfo" where
  "udp_info_of p =
     \<lparr>udp_src_ip = up_src_ip p, udp_dst_ip = up_dst_ip p, udp_src_port = up_src_port p,
      udp_dst_port = up_dst_port p, udp_payload = up_payload p\<rparr>"

text \<open>The transport bytes that fit a packet towards an address of this family.\<close>

fun family_room :: "IpAddr \<Rightarrow> nat" where
  "family_room (V4 _) = 65515"
| "family_room (V6 _) = 65535"

lemma ip_builder_wf: "ip_builder s d = Some ip \<Longrightarrow> ip_step_wf ip \<and> ip_room ip = family_room s"
  by (cases "(s, d)" rule: ip_builder.cases) auto

lemma ip_builder_None: "ip_builder s d = None \<longleftrightarrow> \<not> same_family s d"
  by (cases "(s, d)" rule: ip_builder.cases) auto

lemma byte_slice_mid:
  "a = length xs \<Longrightarrow> b = length xs + length ys \<Longrightarrow> byte_slice (xs @ ys @ zs) a b = Some ys"
  by (simp add: byte_slice_def)

lemma unat_u16: "n \<le> 65535 \<Longrightarrow> unat (word_of_nat n :: u16) = n"
  by (simp add: unat_of_nat)

text \<open>A well-formed header in front of a transport part hands that part to \<open>parse_transport\<close>.\<close>

context etherparse_laws
begin

lemma parse_header:
  assumes "ip_builder s d = Some ip" and "ip_header_ok ep ip proto (length r) ih"
    and "proto = ip_number_tcp \<or> proto = ip_number_udp" and "length r \<le> family_room s"
  shows "parse_ip_packet ep (ih @ r) = parse_transport ep proto s d r"
proof -
  obtain b bs where ih: "ih = b # bs"
    using assms(1,2) by (cases ih; cases ip) auto
  show ?thesis
  proof (cases "(s, d)" rule: ip_builder.cases)
    case (1 src dst)
    then have ip: "ip = BuilderIpv4 (to_be 4 src) (to_be 4 dst) 64" using assms(1) by simp
    have len: "length ih = 20" and version: "and (drop_bit 4 b) 0xF = 4"
      and hdr: "ipv4_from_slice ep (ih @ r) = Inr
        \<lparr>ip4_source = to_be 4 src, ip4_destination = to_be 4 dst, ip4_protocol = proto,
         ip4_slice_len = 20, ip4_total_len = word_of_nat (20 + length r)\<rparr>"
      using assms(2) ih unfolding ip by auto
    have "unat (word_of_nat (20 + length r) :: u16) = 20 + length r"
      using assms(4) 1 by (intro unat_u16) simp
    then have "byte_slice (ih @ r) 20 (min (unat (word_of_nat (20 + length r) :: u16)) (length (ih @ r))) = Some r"
      using len byte_slice_mid[of 20 ih _ r "[]"] by simp
    with 1 ih version hdr len show ?thesis
      by (simp add: parse_ip_packet_def parse_ipv4_packet_def from_be_to_be_word)
  next
    case (2 src dst)
    then have ip: "ip = BuilderIpv6 (to_be 16 src) (to_be 16 dst) 64" using assms(1) by simp
    have len: "length ih = 40" and version: "and (drop_bit 4 b) 0xF = 6"
      and hdr: "ipv6_from_slice ep (ih @ r) = Inr
        \<lparr>ip6_source = to_be 16 src, ip6_destination = to_be 16 dst, ip6_next_header = proto,
         ip6_payload_length = word_of_nat (length r)\<rparr>"
      using assms(2) ih unfolding ip by auto
    have "unat (word_of_nat (length r) :: u16) = length r"
      using assms(4) 2 by (intro unat_u16) simp
    then have "byte_slice (ih @ r) 40 (min (length (ih @ r)) (40 + unat (word_of_nat (length r) :: u16))) = Some r"
      using len byte_slice_mid[of 40 ih _ r "[]"] by simp
    with 2 ih version hdr len exts_transport[OF assms(3)] show ?thesis
      by (simp add: parse_ip_packet_def parse_ipv6_packet_def from_be_to_be_word)
  qed (use assms(1) in auto)
qed

lemma tcp_build_Ok:
  assumes "same_family (tp_src_ip p) (tp_dst_ip p)"
    and "20 + length (tp_payload p) \<le> family_room (tp_src_ip p)"
  shows "\<exists>pkt. tcp_build ep p = Ok pkt \<and> parse_ip_packet ep pkt = Ok (Tcp (tcp_info_of p))"
proof -
  obtain ip where ip: "ip_builder (tp_src_ip p) (tp_dst_ip p) = Some ip"
    using assms(1) ip_builder_None by (metis option.exhaust)
  let ?b = "tcp_builder p ip"
  have "ip_step_wf (ts_ip ?b)" "20 + length (tp_payload p) \<le> ip_room (ts_ip ?b)"
    using ip_builder_wf[OF ip] assms(2) by (auto simp: tcp_builder_def)
  then obtain ih th where w: "tcp_write ep ?b (tp_payload p) = Inr (ih @ th @ tp_payload p)"
    and th: "length th = 20" "\<And>rest. tcp_from_slice ep (th @ rest) = Inr (tcp_header_of ?b)"
    and ih: "ip_header_ok ep ip ip_number_tcp (length (th @ tp_payload p)) ih"
    using tcp_write_ok[of ?b "tp_payload p"] by (auto simp: tcp_builder_def)
  have "parse_ip_packet ep (ih @ th @ tp_payload p) =
          parse_transport ep ip_number_tcp (tp_src_ip p) (tp_dst_ip p) (th @ tp_payload p)"
    by (rule parse_header[OF ip ih]) (use th assms in simp_all)
  also have "\<dots> = Ok (Tcp (tcp_info_of p))"
    using th byte_slice_mid[of 20 th _ "tp_payload p" "[]"]
    by (simp add: parse_transport_def tcp_info_of_def tcp_header_of_def tcp_builder_def)
  finally show ?thesis using ip w by (simp add: tcp_build_def)
qed

lemma udp_build_Ok:
  assumes "same_family (up_src_ip p) (up_dst_ip p)"
    and "8 + length (up_payload p) \<le> family_room (up_src_ip p)"
  shows "\<exists>pkt. udp_build ep p = Ok pkt \<and> parse_ip_packet ep pkt = Ok (Udp (udp_info_of p))"
proof -
  obtain ip where ip: "ip_builder (up_src_ip p) (up_dst_ip p) = Some ip"
    using assms(1) ip_builder_None by (metis option.exhaust)
  let ?b = "\<lparr>us_ip = ip, us_source_port = up_src_port p, us_destination_port = up_dst_port p\<rparr>"
  have "ip_step_wf (us_ip ?b)" "8 + length (up_payload p) \<le> ip_room (us_ip ?b)"
    using ip_builder_wf[OF ip] assms(2) by auto
  then obtain ih uh where w: "udp_write ep ?b (up_payload p) = Inr (ih @ uh @ up_payload p)"
    and uh: "length uh = 8" "\<And>rest. udp_from_slice ep (uh @ rest) = Inr (udp_header_of ?b)"
    and ih: "ip_header_ok ep ip ip_number_udp (length (uh @ up_payload p)) ih"
    using udp_write_ok[of ?b "up_payload p"] by auto
  have "parse_ip_packet ep (ih @ uh @ up_payload p) =
          parse_transport ep ip_number_udp (up_src_ip p) (up_dst_ip p) (uh @ up_payload p)"
    by (rule parse_header[OF ip ih]) (use uh assms in simp_all)
  also have "\<dots> = Ok (Udp (udp_info_of p))"
    using uh by (simp add: parse_transport_def udp_info_of_def udp_header_of_def)
  finally show ?thesis using ip w by (simp add: udp_build_def)
qed

text \<open>The two \<open>panic!\<close>/\<open>expect\<close> sites of the builders, exactly.\<close>

lemma tcp_build_Panic_iff:
  "tcp_build ep p = Panic \<longleftrightarrow>
     \<not> same_family (tp_src_ip p) (tp_dst_ip p) \<or>
     family_room (tp_src_ip p) < 20 + length (tp_payload p)"
proof (cases "ip_builder (tp_src_ip p) (tp_dst_ip p)")
  case None
  moreover from None have "\<not> same_family (tp_src_ip p) (tp_dst_ip p)"
    by (rule ip_builder_None[THEN iffD1])
  ultimately show ?thesis by (simp add: tcp_build_def)
next
  case (Some ip)
  then have same: "same_family (tp_src_ip p) (tp_dst_ip p)"
    using ip_builder_None by (metis option.distinct(1))
  show ?thesis
  proof (cases "20 + length (tp_payload p) \<le> family_room (tp_src_ip p)")
    case True
    with tcp_build_Ok[OF same] same show ?thesis by auto
  next
    case False
    then have "\<exists>e. tcp_write ep (tcp_builder p ip) (tp_payload p) = Inl e"
      using ip_builder_wf[OF Some] by (intro tcp_write_too_big) (simp add: tcp_builder_def)
    with Some False show ?thesis by (auto simp: tcp_build_def)
  qed
qed

lemma udp_build_Panic_iff:
  "udp_build ep p = Panic \<longleftrightarrow>
     \<not> same_family (up_src_ip p) (up_dst_ip p) \<or>
     family_room (up_src_ip p) < 8 + length (up_payload p)"
proof (cases "ip_builder (up_src_ip p) (up_dst_ip p)")
  case None
  moreover from None have "\<not> same_family (up_src_ip p) (up_dst_ip p)"
    by (rule ip_builder_None[THEN iffD1])
  ultimately show ?thesis by (simp add: udp_build_def)
next
  case (Some ip)
  then have same: "same_family (up_src_ip p) (up_dst_ip p)"
    using ip_builder_None by (metis option.distinct(1))
  show ?thesis
  proof (cases "8 + length (up_payload p) \<le> family_room (up_src_ip p)")
    case True
    with udp_build_Ok[OF same] same show ?thesis by auto
  next
    case False
    then have "\<exists>e. udp_write ep \<lparr>us_ip = ip, us_source_port = up_src_port p,
        us_destination_port = up_dst_port p\<rparr> (up_payload p) = Inl e"
      using ip_builder_wf[OF Some] by (intro udp_write_too_big) simp
    with Some False show ?thesis by (auto simp: udp_build_def)
  qed
qed

text \<open>So whatever a builder returns is parsed back.\<close>

lemma tcp_built: "tcp_build ep p = Ok pkt \<Longrightarrow> parse_ip_packet ep pkt = Ok (Tcp (tcp_info_of p))"
  using tcp_build_Panic_iff[of p] tcp_build_Ok[of p] by fastforce

lemma udp_built: "udp_build ep p = Ok pkt \<Longrightarrow> parse_ip_packet ep pkt = Ok (Udp (udp_info_of p))"
  using udp_build_Panic_iff[of p] udp_build_Ok[of p] by fastforce

end

end
