(* ===== verification/Wire.thy ===== *)
theory Wire
  imports Packet
begin

text \<open>
  The wire formats of RFC 791 (IPv4), RFC 8200 (IPv6 and its extension headers), RFC 9293
  (TCP) and RFC 768 (UDP) as an instance of the \<open>etherparse\<close> interface of
  \<open>Packet\<close>: every law the code relies on holds of them, checksums included in what is
  written, so the packet theorems have a concrete model. Nothing here models a file under
  \<open>src/\<close>.
\<close>

section \<open>Checksums\<close>

text \<open>The Internet checksum (RFC 1071) over big-endian 16-bit words, padded with a zero byte.\<close>

fun word_sum :: "bytes \<Rightarrow> nat" where
  "word_sum [] = 0"
| "word_sum [a] = unat a * 256"
| "word_sum (a # b # r) = unat a * 256 + unat b + word_sum r"

definition inet_checksum :: "bytes \<Rightarrow> u16" where
  "inet_checksum bs =
     (let s = word_sum bs in word_of_nat (65535 - (if s = 0 then 0 else (s - 1) mod 65535 + 1)))"

section \<open>Writing\<close>

definition rfc_ipv4_header :: "bytes \<Rightarrow> bytes \<Rightarrow> u8 \<Rightarrow> u8 \<Rightarrow> nat \<Rightarrow> bytes" where
  "rfc_ipv4_header s d ttl proto len =
     (let front = [0x45, 0] @ to_be 2 (word_of_nat (20 + len) :: u16) @ [0, 0, 0x40, 0, ttl, proto]
      in front @ to_be 2 (inet_checksum (front @ [0, 0] @ s @ d)) @ s @ d)"

definition rfc_ipv6_header :: "bytes \<Rightarrow> bytes \<Rightarrow> u8 \<Rightarrow> u8 \<Rightarrow> nat \<Rightarrow> bytes" where
  "rfc_ipv6_header s d ttl proto len =
     [0x60, 0, 0, 0] @ to_be 2 (word_of_nat len :: u16) @ [proto, ttl] @ s @ d"

fun rfc_ip_header :: "ip_step \<Rightarrow> u8 \<Rightarrow> nat \<Rightarrow> bytes" where
  "rfc_ip_header (BuilderIpv4 s d ttl) proto len = rfc_ipv4_header s d ttl proto len"
| "rfc_ip_header (BuilderIpv6 s d ttl) proto len = rfc_ipv6_header s d ttl proto len"

fun rfc_pseudo_header :: "ip_step \<Rightarrow> u8 \<Rightarrow> nat \<Rightarrow> bytes" where
  "rfc_pseudo_header (BuilderIpv4 s d _) proto len =
     s @ d @ [0, proto] @ to_be 2 (word_of_nat len :: u16)"
| "rfc_pseudo_header (BuilderIpv6 s d _) proto len =
     s @ d @ to_be 4 (word_of_nat len :: u32) @ [0, 0, 0, proto]"

definition rfc_flag_byte :: "bool \<Rightarrow> bool \<Rightarrow> bool \<Rightarrow> bool \<Rightarrow> bool \<Rightarrow> u8" where
  "rfc_flag_byte a p r s f =
     (if a then 16 else 0) + (if p then 8 else 0) + (if r then 4 else 0)
     + (if s then 2 else 0) + (if f then 1 else 0)"

definition rfc_tcp_header :: "tcp_step \<Rightarrow> u16 \<Rightarrow> bytes" where
  "rfc_tcp_header b checksum =
     to_be 2 (ts_source_port b) @ to_be 2 (ts_destination_port b)
     @ to_be 4 (ts_sequence_number b) @ to_be 4 (case ts_ack b of None \<Rightarrow> 0 | Some n \<Rightarrow> n)
     @ [0x50, rfc_flag_byte (ts_ack b \<noteq> None) (ts_psh b) (ts_rst b) (ts_syn b) (ts_fin b)]
     @ to_be 2 (ts_window_size b) @ to_be 2 checksum @ [0, 0]"

definition rfc_udp_header :: "udp_step \<Rightarrow> nat \<Rightarrow> u16 \<Rightarrow> bytes" where
  "rfc_udp_header u len checksum =
     to_be 2 (us_source_port u) @ to_be 2 (us_destination_port u)
     @ to_be 2 (word_of_nat (8 + len) :: u16) @ to_be 2 checksum"

definition rfc_tcp_write :: "tcp_step \<Rightarrow> bytes \<Rightarrow> string + bytes" where
  "rfc_tcp_write b p =
     (let len = 20 + length p
      in if ip_room (ts_ip b) < len then Inl ''payload too long''
         else Inr (rfc_ip_header (ts_ip b) ip_number_tcp len
           @ rfc_tcp_header b (inet_checksum
               (rfc_pseudo_header (ts_ip b) ip_number_tcp len @ rfc_tcp_header b 0 @ p))
           @ p))"

definition rfc_udp_write :: "udp_step \<Rightarrow> bytes \<Rightarrow> string + bytes" where
  "rfc_udp_write u p =
     (let len = 8 + length p
      in if ip_room (us_ip u) < len then Inl ''payload too long''
         else Inr (rfc_ip_header (us_ip u) ip_number_udp len
           @ rfc_udp_header u (length p) (inet_checksum
               (rfc_pseudo_header (us_ip u) ip_number_udp len @ rfc_udp_header u (length p) 0 @ p))
           @ p))"

section \<open>Reading\<close>

definition u16_at :: "bytes \<Rightarrow> nat \<Rightarrow> u16" where
  "u16_at bs i = from_be (take 2 (drop i bs))"

definition u32_at :: "bytes \<Rightarrow> nat \<Rightarrow> u32" where
  "u32_at bs i = from_be (take 4 (drop i bs))"

definition rfc_ipv4_from_slice :: "bytes \<Rightarrow> string + Ipv4HeaderSlice" where
  "rfc_ipv4_from_slice bs =
     (if length bs < 20 then Inl ''slice too short''
      else if drop_bit 4 (bs ! 0) \<noteq> 4 then Inl ''unexpected version''
      else let hlen = 4 * unat (and (bs ! 0) 0xF)
           in if hlen < 20 then Inl ''header length smaller than header''
              else if length bs < hlen then Inl ''slice too short''
              else Inr \<lparr>ip4_source = take 4 (drop 12 bs), ip4_destination = take 4 (drop 16 bs),
                        ip4_protocol = bs ! 9, ip4_slice_len = hlen,
                        ip4_total_len = u16_at bs 2\<rparr>)"

definition rfc_ipv6_from_slice :: "bytes \<Rightarrow> string + Ipv6HeaderSlice" where
  "rfc_ipv6_from_slice bs =
     (if length bs < 40 then Inl ''slice too short''
      else if drop_bit 4 (bs ! 0) \<noteq> 6 then Inl ''unexpected version''
      else Inr \<lparr>ip6_source = take 16 (drop 8 bs), ip6_destination = take 16 (drop 24 bs),
                ip6_next_header = bs ! 6, ip6_payload_length = u16_at bs 4\<rparr>)"

text \<open>The length of the extension header \<open>n\<close> at the front of \<open>bs\<close>; \<open>None\<close> for a transport protocol.\<close>

definition rfc_ext_len :: "u8 \<Rightarrow> bytes \<Rightarrow> nat option" where
  "rfc_ext_len n bs =
     (if n = 0 \<or> n = 43 \<or> n = 60 then Some (8 * (unat (bs ! 1) + 1))
      else if n = 44 then Some 8
      else if n = 51 then Some (4 * (unat (bs ! 1) + 2))
      else None)"

lemma rfc_ext_len_pos: "rfc_ext_len n bs = Some k \<Longrightarrow> 0 < k"
  by (auto simp: rfc_ext_len_def split: if_splits)

function rfc_exts :: "u8 \<Rightarrow> bytes \<Rightarrow> string + (u8 \<times> bytes)" where
  "rfc_exts n bs =
     (case rfc_ext_len n bs of
        None \<Rightarrow> Inr (n, bs)
      | Some k \<Rightarrow>
          (if length bs < 2 \<or> length bs < k then Inl ''slice too short''
           else rfc_exts (bs ! 0) (drop k bs)))"
  by pat_completeness auto
termination
  by (relation "measure (length \<circ> snd)") (auto dest: rfc_ext_len_pos)

declare rfc_exts.simps [simp del]

definition rfc_tcp_from_slice :: "bytes \<Rightarrow> string + TcpHeaderSlice" where
  "rfc_tcp_from_slice bs =
     (if length bs < 20 then Inl ''slice too short''
      else let hlen = 4 * unat (drop_bit 4 (bs ! 12)); flags = bs ! 13
           in if hlen < 20 then Inl ''data offset too small''
              else if length bs < hlen then Inl ''slice too short''
              else Inr \<lparr>th_source_port = u16_at bs 0, th_destination_port = u16_at bs 2,
                        th_sequence_number = u32_at bs 4, th_acknowledgment_number = u32_at bs 8,
                        th_syn = bit flags 1, th_ack = bit flags 4, th_fin = bit flags 0,
                        th_rst = bit flags 2, th_psh = bit flags 3,
                        th_window_size = u16_at bs 14, th_slice_len = hlen\<rparr>)"

definition rfc_udp_from_slice :: "bytes \<Rightarrow> string + UdpHeaderSlice" where
  "rfc_udp_from_slice bs =
     (if length bs < 8 then Inl ''slice too short''
      else Inr \<lparr>uh_source_port = u16_at bs 0, uh_destination_port = u16_at bs 2\<rparr>)"

definition rfc_etherparse :: etherparse where
  "rfc_etherparse =
     \<lparr>ipv4_from_slice = rfc_ipv4_from_slice, ipv6_from_slice = rfc_ipv6_from_slice,
      ipv6_exts_from_slice = rfc_exts, tcp_from_slice = rfc_tcp_from_slice,
      udp_from_slice = rfc_udp_from_slice, tcp_write = rfc_tcp_write, udp_write = rfc_udp_write\<rparr>"

lemma rfc_etherparse_sel [simp]:
  "ipv4_from_slice rfc_etherparse = rfc_ipv4_from_slice"
  "ipv6_from_slice rfc_etherparse = rfc_ipv6_from_slice"
  "ipv6_exts_from_slice rfc_etherparse = rfc_exts"
  "tcp_from_slice rfc_etherparse = rfc_tcp_from_slice"
  "udp_from_slice rfc_etherparse = rfc_udp_from_slice"
  "tcp_write rfc_etherparse = rfc_tcp_write"
  "udp_write rfc_etherparse = rfc_udp_write"
  by (simp_all add: rfc_etherparse_def)

section \<open>The laws\<close>

lemma rfc_flag_bits:
  "bit (rfc_flag_byte a p r s f) 4 = a" "bit (rfc_flag_byte a p r s f) 3 = p"
  "bit (rfc_flag_byte a p r s f) 2 = r" "bit (rfc_flag_byte a p r s f) (Suc 0) = s"
  "bit (rfc_flag_byte a p r s f) 0 = f"
  by (cases a; cases p; cases r; cases s; cases f; simp add: rfc_flag_byte_def bit_numeral_rec)+

lemma rfc_tcp_header_reads:
  "rfc_tcp_from_slice (rfc_tcp_header b c @ rest) = Inr (tcp_header_of b)"
  by (simp add: rfc_tcp_from_slice_def rfc_tcp_header_def tcp_header_of_def u16_at_def u32_at_def
      from_be_to_be_word rfc_flag_bits nth_append)

lemma length_rfc_tcp_header: "length (rfc_tcp_header b c) = 20"
  by (simp add: rfc_tcp_header_def)

lemma rfc_udp_header_reads:
  "rfc_udp_from_slice (rfc_udp_header u n c @ rest) = Inr (udp_header_of u)"
  by (simp add: rfc_udp_from_slice_def rfc_udp_header_def udp_header_of_def u16_at_def
      from_be_to_be_word)

lemma length_rfc_udp_header: "length (rfc_udp_header u n c) = 8"
  by (simp add: rfc_udp_header_def)

lemma rfc_ipv4_header_reads:
  assumes "length s = 4" "length d = 4"
  shows "rfc_ipv4_from_slice (rfc_ipv4_header s d ttl proto len @ rest) = Inr
    \<lparr>ip4_source = s, ip4_destination = d, ip4_protocol = proto, ip4_slice_len = 20,
     ip4_total_len = word_of_nat (20 + len)\<rparr>"
  using assms
  by (simp add: rfc_ipv4_from_slice_def rfc_ipv4_header_def Let_def u16_at_def
      from_be_to_be_word nth_append)

lemma rfc_ipv6_header_reads:
  assumes "length s = 16" "length d = 16"
  shows "rfc_ipv6_from_slice (rfc_ipv6_header s d ttl proto len @ rest) = Inr
    \<lparr>ip6_source = s, ip6_destination = d, ip6_next_header = proto,
     ip6_payload_length = word_of_nat len\<rparr>"
  using assms
  by (simp add: rfc_ipv6_from_slice_def rfc_ipv6_header_def Let_def u16_at_def
      from_be_to_be_word nth_append)

lemma rfc_ip_header_ok:
  "ip_step_wf ip \<Longrightarrow> ip_header_ok rfc_etherparse ip proto len (rfc_ip_header ip proto len)"
  by (cases ip)
     (auto simp: rfc_ipv4_header_reads rfc_ipv6_header_reads,
      auto simp: rfc_ipv4_header_def rfc_ipv6_header_def Let_def)

lemma rfc_exts_shrink: "rfc_exts n bs = Inr (q, r) \<Longrightarrow> length r \<le> length bs"
proof (induction n bs rule: rfc_exts.induct)
  case (1 n bs)
  show ?case
  proof (cases "rfc_ext_len n bs")
    case None
    with 1 show ?thesis by (simp add: rfc_exts.simps[of n bs])
  next
    case (Some k)
    with "1.prems" have short: "\<not> (length bs < 2 \<or> length bs < k)"
      and rec: "rfc_exts (bs ! 0) (drop k bs) = Inr (q, r)"
      by (auto simp: rfc_exts.simps[of n bs] split: if_splits)
    from "1.IH"[OF Some short rec] show ?thesis by simp
  qed
qed

lemma rfc_exts_transport: "n = 6 \<or> n = 17 \<Longrightarrow> rfc_exts n bs = Inr (n, bs)"
  by (subst rfc_exts.simps) (auto simp: rfc_ext_len_def)

lemma rfc_tcp_write_ok:
  assumes "ip_step_wf (ts_ip b)" "20 + length p \<le> ip_room (ts_ip b)"
  shows "\<exists>ih th. rfc_tcp_write b p = Inr (ih @ th @ p) \<and> length th = 20 \<and>
    ip_header_ok rfc_etherparse (ts_ip b) ip_number_tcp (20 + length p) ih \<and>
    (\<forall>rest. rfc_tcp_from_slice (th @ rest) = Inr (tcp_header_of b))"
proof (intro exI conjI)
  show "rfc_tcp_write b p = Inr (rfc_ip_header (ts_ip b) ip_number_tcp (20 + length p)
    @ rfc_tcp_header b (inet_checksum
    (rfc_pseudo_header (ts_ip b) ip_number_tcp (20 + length p) @ rfc_tcp_header b 0 @ p)) @ p)"
    using assms(2) by (simp add: rfc_tcp_write_def Let_def)
qed (use assms rfc_ip_header_ok in \<open>simp_all add: length_rfc_tcp_header rfc_tcp_header_reads\<close>)

lemma rfc_udp_write_ok:
  assumes "ip_step_wf (us_ip u)" "8 + length p \<le> ip_room (us_ip u)"
  shows "\<exists>ih uh. rfc_udp_write u p = Inr (ih @ uh @ p) \<and> length uh = 8 \<and>
    ip_header_ok rfc_etherparse (us_ip u) ip_number_udp (8 + length p) ih \<and>
    (\<forall>rest. rfc_udp_from_slice (uh @ rest) = Inr (udp_header_of u))"
proof (intro exI conjI)
  show "rfc_udp_write u p = Inr (rfc_ip_header (us_ip u) ip_number_udp (8 + length p)
    @ rfc_udp_header u (length p) (inet_checksum
    (rfc_pseudo_header (us_ip u) ip_number_udp (8 + length p) @ rfc_udp_header u (length p) 0 @ p)) @ p)"
    using assms(2) by (simp add: rfc_udp_write_def Let_def)
qed (use assms rfc_ip_header_ok in \<open>simp_all add: length_rfc_udp_header rfc_udp_header_reads\<close>)

interpretation rfc: etherparse_laws rfc_etherparse
proof (unfold_locales, goal_cases)
  case (1 d h)
  then show ?case by (auto simp: rfc_ipv4_from_slice_def Let_def split: if_splits)
next
  case (2 d h)
  then show ?case by (auto simp: rfc_tcp_from_slice_def Let_def split: if_splits)
next
  case (3 n d q r)
  then show ?case by (simp add: rfc_exts_shrink)
next
  case (4 n d)
  then show ?case by (simp add: rfc_exts_transport)
next
  case (5 b p)
  then show ?case using rfc_tcp_write_ok by simp
next
  case (6 b p)
  then show ?case by (simp add: rfc_tcp_write_def Let_def)
next
  case (7 u p)
  then show ?case using rfc_udp_write_ok by simp
next
  case (8 u p)
  then show ?case by (simp add: rfc_udp_write_def Let_def)
qed

section \<open>Properties of the packet layer\<close>

text \<open>
  C16: A TCP packet between addresses of one family whose payload fits the length field of
  its IP header is built without a panic, and \<open>parse_ip_packet\<close> reads back exactly its
  addresses, ports, sequence number, flags, window and payload (and the acknowledgment
  number if the ACK flag is set, 0 otherwise), over IPv4 and IPv6.
\<close>

theorem tcp_packet_roundtrip:
  assumes "etherparse_laws ep" and "same_family (tp_src_ip p) (tp_dst_ip p)"
    and "20 + length (tp_payload p) \<le> family_room (tp_src_ip p)"
  shows "\<exists>pkt. tcp_build ep p = Ok pkt \<and> parse_ip_packet ep pkt = Ok (Tcp (tcp_info_of p))"
  using assms by (rule etherparse_laws.tcp_build_Ok)

theorem tcp_packet_roundtrip_witness:
  "\<exists>pkt. tcp_build rfc_etherparse
      \<lparr>tp_src_ip = V6 0xfd000000000000000000000000000001, tp_dst_ip = V6 0x20010db8000000000000000000000001,
       tp_src_port = 443, tp_dst_port = 12345, tp_seq = 1001, tp_ack = 5001,
       tp_flags = no_flags\<lparr>ack := True, psh := True\<rparr>, tp_window = 65535, tp_payload = [1, 2, 3]\<rparr> = Ok pkt \<and>
    parse_ip_packet rfc_etherparse pkt = Ok (Tcp
      \<lparr>tcp_src_ip = V6 0xfd000000000000000000000000000001, tcp_dst_ip = V6 0x20010db8000000000000000000000001,
       tcp_src_port = 443, tcp_dst_port = 12345, tcp_seq = 1001, tcp_ack = 5001,
       tcp_flags = no_flags\<lparr>ack := True, psh := True\<rparr>, tcp_window = 65535, tcp_payload = [1, 2, 3]\<rparr>)"
  using tcp_packet_roundtrip[OF rfc.etherparse_laws_axioms, of
      "\<lparr>tp_src_ip = V6 0xfd000000000000000000000000000001, tp_dst_ip = V6 0x20010db8000000000000000000000001,
        tp_src_port = 443, tp_dst_port = 12345, tp_seq = 1001, tp_ack = 5001,
        tp_flags = no_flags\<lparr>ack := True, psh := True\<rparr>, tp_window = 65535, tp_payload = [1, 2, 3]\<rparr>"]
  by (simp add: tcp_info_of_def)

text \<open>
  The same for UDP: the datagram that \<open>UdpPacket::build\<close> writes is parsed back with its
  addresses, ports and payload.
\<close>

theorem udp_packet_roundtrip:
  assumes "etherparse_laws ep" and "same_family (up_src_ip p) (up_dst_ip p)"
    and "8 + length (up_payload p) \<le> family_room (up_src_ip p)"
  shows "\<exists>pkt. udp_build ep p = Ok pkt \<and> parse_ip_packet ep pkt = Ok (Udp (udp_info_of p))"
  using assms by (rule etherparse_laws.udp_build_Ok)

theorem udp_packet_roundtrip_witness:
  "\<exists>pkt. udp_build rfc_etherparse
      \<lparr>up_src_ip = V4 0x08080808, up_dst_ip = V4 0x0A000001, up_src_port = 53, up_dst_port = 54321,
       up_payload = [7, 8]\<rparr> = Ok pkt \<and>
    parse_ip_packet rfc_etherparse pkt = Ok (Udp
      \<lparr>udp_src_ip = V4 0x08080808, udp_dst_ip = V4 0x0A000001, udp_src_port = 53,
       udp_dst_port = 54321, udp_payload = [7, 8]\<rparr>)"
  using udp_packet_roundtrip[OF rfc.etherparse_laws_axioms, of
      "\<lparr>up_src_ip = V4 0x08080808, up_dst_ip = V4 0x0A000001, up_src_port = 53, up_dst_port = 54321,
        up_payload = [7, 8]\<rparr>"]
  by (simp add: udp_info_of_def)

text \<open>
  C40: The packet builders panic exactly when the two addresses are of different families or
  the payload exceeds the length field of the IP header: 65495 TCP or 65507 UDP payload
  bytes over IPv4, 65515 or 65527 over IPv6.
\<close>

theorem builders_panic_iff:
  assumes "etherparse_laws ep"
  shows "(tcp_build ep p = Panic \<longleftrightarrow>
      \<not> same_family (tp_src_ip p) (tp_dst_ip p) \<or>
      (case tp_src_ip p of V4 _ \<Rightarrow> 65495 | V6 _ \<Rightarrow> 65515) < length (tp_payload p)) \<and>
    (udp_build ep u = Panic \<longleftrightarrow>
      \<not> same_family (up_src_ip u) (up_dst_ip u) \<or>
      (case up_src_ip u of V4 _ \<Rightarrow> 65507 | V6 _ \<Rightarrow> 65527) < length (up_payload u))"
  using etherparse_laws.tcp_build_Panic_iff[OF assms, of p]
    etherparse_laws.udp_build_Panic_iff[OF assms, of u]
  by (cases "tp_src_ip p"; cases "up_src_ip u") auto

theorem builders_panic_iff_witness:
  "tcp_build rfc_etherparse
     \<lparr>tp_src_ip = V4 1, tp_dst_ip = V6 1, tp_src_port = 1, tp_dst_port = 2, tp_seq = 0, tp_ack = 0,
      tp_flags = no_flags, tp_window = 0, tp_payload = []\<rparr> = Panic \<and>
   udp_build rfc_etherparse
     \<lparr>up_src_ip = V4 1, up_dst_ip = V4 2, up_src_port = 1, up_dst_port = 2,
      up_payload = replicate 65508 0\<rparr> = Panic"
  using builders_panic_iff[OF rfc.etherparse_laws_axioms, of
      "\<lparr>tp_src_ip = V4 1, tp_dst_ip = V6 1, tp_src_port = 1, tp_dst_port = 2, tp_seq = 0, tp_ack = 0,
        tp_flags = no_flags, tp_window = 0, tp_payload = []\<rparr>"
      "\<lparr>up_src_ip = V4 1, up_dst_ip = V4 2, up_src_port = 1, up_dst_port = 2,
        up_payload = replicate 65508 0\<rparr>"]
  by simp

text \<open>
  C36: Parsing a captured packet panics in exactly one situation: an IPv4 packet whose header
  is accepted but whose total length is smaller than that header, where
  \<open>&data[payload_start..payload_end]\<close> has its end before its start. Every other malformed
  input is an error value.
\<close>

theorem parse_panics_iff:
  assumes "etherparse_laws ep"
  shows "parse_ip_packet ep data = Panic \<longleftrightarrow>
    20 \<le> length data \<and> and (drop_bit 4 (data ! 0)) 0xF = 4 \<and>
    (\<exists>h. ipv4_from_slice ep data = Inr h \<and> unat (ip4_total_len h) < ip4_slice_len h)"
proof (cases data)
  case Nil
  then show ?thesis by (simp add: parse_ip_packet_def)
next
  case (Cons b bs)
  then show ?thesis
    using etherparse_laws.parse_ipv4_panic_iff[OF assms, of data]
      etherparse_laws.parse_ipv6_no_panic[OF assms, of data]
    by (auto simp: parse_ip_packet_def Let_def)
qed

theorem parse_panics_iff_witness:
  "parse_ip_packet rfc_etherparse (0x45 # replicate 19 0) = Panic"
proof -
  have "rfc_ipv4_from_slice (0x45 # replicate 19 0) = Inr
    \<lparr>ip4_source = [0, 0, 0, 0], ip4_destination = [0, 0, 0, 0], ip4_protocol = 0, ip4_slice_len = 20,
     ip4_total_len = 0\<rparr>"
    by code_simp
  then show ?thesis
    using parse_panics_iff[OF rfc.etherparse_laws_axioms, of "0x45 # replicate 19 0"] by simp
qed

end
