(* ===== verification/Protocol.thy ===== *)
theory Protocol
  imports Prelude
begin

text \<open>
  \<open>src/src/protocol.rs\<close>: the messages between host and remote, and their framing on a
  byte stream (an 8-byte big-endian length, then the serialised message). The serialiser
  (\<open>postcard\<close>) is a parameter: \<open>to_allocvec\<close> and \<open>from_bytes\<close> are arguments, and
  the locale \<open>message_codec\<close> states the one law the program relies on. The theory
  \<open>Postcard\<close> interprets it on the wire format.
\<close>

section \<open>Messages\<close>

datatype HostMessage =
    TcpConnect (hm_id: u32) (hm_dst_ip: IpAddr) (hm_dst_port: u16)
  | TcpData (hm_id: u32) (hm_data: bytes)
  | TcpClose (hm_id: u32)
  | UdpDatagram (hm_src_port: u16) (hm_dst_ip: IpAddr) (hm_dst_port: u16) (hm_data: bytes)
  | DnsQuery (hm_id: u32) (hm_server: IpAddr) (hm_data: bytes)
  | Shutdown

datatype RemoteMessage =
    TcpConnected u32
  | TcpData u32 bytes
  | TcpClosed u32
  | TcpError u32 string
  | UdpResponse u16 IpAddr u16 bytes
  | DnsResponse u32 bytes
  | Ready
  | Error string

text \<open>The identifier of the connection a message belongs to.\<close>

fun message_id :: "RemoteMessage \<Rightarrow> u32 option" where
  "message_id (TcpConnected i) = Some i"
| "message_id (RemoteMessage.TcpData i data) = Some i"
| "message_id (TcpClosed i) = Some i"
| "message_id (TcpError i e) = Some i"
| "message_id _ = None"

section \<open>Byte streams\<close>

datatype io_error = UnexpectedEof | OtherIo string

text \<open>
  A reader: the bytes still to come, and how the stream ends after them (\<open>None\<close> is end
  of file). \<open>read_exact\<close> fills its buffer or fails, with \<open>UnexpectedEof\<close> at end of
  file; the bytes read before the failure are gone.
\<close>

record reader =
  rd_bytes :: bytes
  rd_end :: "io_error option"

definition read_exact :: "nat \<Rightarrow> reader \<Rightarrow> (io_error + bytes) \<times> reader" where
  "read_exact n r =
     (if n \<le> length (rd_bytes r)
      then (Inr (take n (rd_bytes r)), r\<lparr>rd_bytes := drop n (rd_bytes r)\<rparr>)
      else (Inl (case rd_end r of None \<Rightarrow> UnexpectedEof | Some e \<Rightarrow> e), r\<lparr>rd_bytes := []\<rparr>))"

text \<open>
  A writer: what has been written, how many more bytes the sink accepts before it fails
  (\<open>None\<close>: it does not fail), and whether a flush fails.
\<close>

record writer =
  wr_out :: bytes
  wr_accepts :: "nat option"
  wr_error :: io_error
  wr_flush_fails :: bool

definition write_all :: "bytes \<Rightarrow> writer \<Rightarrow> (io_error + unit) \<times> writer" where
  "write_all bs w =
     (case wr_accepts w of
        None \<Rightarrow> (Inr (), w\<lparr>wr_out := wr_out w @ bs\<rparr>)
      | Some n \<Rightarrow>
          (if length bs \<le> n
           then (Inr (), w\<lparr>wr_out := wr_out w @ bs, wr_accepts := Some (n - length bs)\<rparr>)
           else (Inl (wr_error w), w\<lparr>wr_out := wr_out w @ take n bs, wr_accepts := Some 0\<rparr>)))"

definition flush :: "writer \<Rightarrow> (io_error + unit) \<times> writer" where
  "flush w = (if wr_flush_fails w then (Inl (wr_error w), w) else (Inr (), w))"

section \<open>Framing\<close>

datatype protocol_error = Io io_error | MessageTooLarge u64 | PostcardError string

abbreviation max_message :: nat where "max_message \<equiv> 16 * 1024 * 1024"

text \<open>
  \<open>usize::try_from(len)\<close> cannot fail after the limit check: 16 MiB fits the \<open>usize\<close> of
  every platform the program builds for.
\<close>

definition read_message ::
  "(bytes \<Rightarrow> string + 'm) \<Rightarrow> reader \<Rightarrow> (protocol_error + 'm option) \<times> reader"
where
  "read_message from_bytes r =
     (case read_exact 8 r of
        (Inl e, r1) \<Rightarrow> (if e = UnexpectedEof then (Inr None, r1) else (Inl (Io e), r1))
      | (Inr len_buf, r1) \<Rightarrow>
          (let len = (from_be len_buf :: u64)
           in if max_message < unat len then (Inl (MessageTooLarge len), r1)
              else case read_exact (unat len) r1 of
                (Inl e, r2) \<Rightarrow> (Inl (Io e), r2)
              | (Inr buf, r2) \<Rightarrow>
                  (case from_bytes buf of
                     Inl e \<Rightarrow> (Inl (PostcardError e), r2)
                   | Inr msg \<Rightarrow> (Inr (Some msg), r2))))"

definition write_message ::
  "('m \<Rightarrow> string + bytes) \<Rightarrow> 'm \<Rightarrow> writer \<Rightarrow> (protocol_error + unit) \<times> writer"
where
  "write_message to_allocvec msg w =
     (case to_allocvec msg of
        Inl e \<Rightarrow> (Inl (PostcardError e), w)
      | Inr data \<Rightarrow>
          (let len = (word_of_nat (length data) :: u64)
           in case write_all (to_be 8 len) w of
                (Inl e, w1) \<Rightarrow> (Inl (Io e), w1)
              | (Inr _, w1) \<Rightarrow>
                  (case write_all data w1 of
                     (Inl e, w2) \<Rightarrow> (Inl (Io e), w2)
                   | (Inr _, w2) \<Rightarrow>
                       (case flush w2 of
                          (Inl e, w3) \<Rightarrow> (Inl (Io e), w3)
                        | (Inr _, w3) \<Rightarrow> (Inr (), w3)))))"

lemma read_exact_shrinks:
  "read_exact n r = (Inr bs, r') \<Longrightarrow> length (rd_bytes r) = n + length (rd_bytes r')"
  by (auto simp: read_exact_def split: if_splits)

lemma read_message_shrinks:
  "read_message from_bytes r = (Inr (Some m), r') \<Longrightarrow> length (rd_bytes r') < length (rd_bytes r)"
  by (auto simp: read_message_def Let_def dest!: read_exact_shrinks
      split: prod.splits sum.splits if_splits)

text \<open>
  The reader task of the host (and of the remote while it runs): every result of
  \<open>read_message\<close> is passed on, and the first \<open>Ok(None)\<close> or error ends the loop.
\<close>

function read_loop :: "(bytes \<Rightarrow> string + 'm) \<Rightarrow> reader \<Rightarrow> (protocol_error + 'm option) list"
where
  "read_loop from_bytes r =
     (case read_message from_bytes r of
        (Inr (Some m), r') \<Rightarrow> Inr (Some m) # read_loop from_bytes r'
      | (result, _) \<Rightarrow> [result])"
  by pat_completeness auto
termination
  by (relation "measure (\<lambda>(_, r). length (rd_bytes r))") (auto dest: read_message_shrinks[OF sym])

declare read_loop.simps [simp del]

section \<open>What the program relies on in the serialiser\<close>

text \<open>The bytes \<open>write_message\<close> puts on the stream for a serialised message.\<close>

definition frame :: "bytes \<Rightarrow> bytes" where
  "frame data = to_be 8 (word_of_nat (length data) :: u64) @ data"

lemma unat_u64: "n < 2 ^ 64 \<Longrightarrow> unat (word_of_nat n :: u64) = n"
  by (simp add: unat_of_nat)

text \<open>Reading from a stream that starts with a frame.\<close>

lemma read_message_frame:
  assumes "rd_bytes r = frame data @ rest" and "length data \<le> max_message"
  shows "read_message from_bytes r =
    ((case from_bytes data of Inl e \<Rightarrow> Inl (PostcardError e) | Inr m \<Rightarrow> Inr (Some m)),
     r\<lparr>rd_bytes := rest\<rparr>)"
  using assms unat_u64[of "length data"]
  by (simp add: read_message_def read_exact_def frame_def Let_def from_be_to_be_word split: sum.splits)

lemma read_message_frame_too_large:
  assumes "rd_bytes r = frame data @ rest" and "max_message < length data" "length data < 2 ^ 64"
  shows "fst (read_message from_bytes r) = Inl (MessageTooLarge (word_of_nat (length data)))"
  using assms unat_u64[of "length data"]
  by (simp add: read_message_def read_exact_def frame_def Let_def from_be_to_be_word)

text \<open>A stream that ends inside a frame: in its length, or in its body.\<close>

lemma read_message_cut_prefix:
  assumes "length (rd_bytes r) < 8" and "rd_end r = None"
  shows "fst (read_message from_bytes r) = Inr None"
  using assms by (simp add: read_message_def read_exact_def)

lemma read_message_cut_body:
  assumes "rd_bytes r = take n (frame data)" "8 \<le> n" "n < length (frame data)"
    and "length data \<le> max_message" and "rd_end r = None"
  shows "fst (read_message from_bytes r) = Inl (Io UnexpectedEof)"
proof -
  have "\<not> length data \<le> n - 8" using assms(2,3) by (simp add: frame_def)
  with assms unat_u64[of "length data"] show ?thesis
    by (simp add: read_message_def read_exact_def frame_def Let_def from_be_to_be_word min_def)
qed

lemma write_message_out:
  "write_message to_allocvec m w = (Inr (), w') \<Longrightarrow>
   \<exists>data. to_allocvec m = Inr data \<and> wr_out w' = wr_out w @ frame data"
  by (auto simp: write_message_def write_all_def flush_def frame_def Let_def
      split: sum.splits option.splits if_splits prod.splits)

text \<open>A sequence of successful \<open>write_message\<close> calls on one writer, as both loops make them.\<close>

inductive wrote :: "('m \<Rightarrow> string + bytes) \<Rightarrow> writer \<Rightarrow> 'm list \<Rightarrow> writer \<Rightarrow> bool"
  for to_allocvec
where
  wrote_Nil: "wrote to_allocvec w [] w"
| wrote_snoc: "wrote to_allocvec w ms w1 \<Longrightarrow> write_message to_allocvec m w1 = (Inr (), w2) \<Longrightarrow>
     wrote to_allocvec w (ms @ [m]) w2"

text \<open>\<open>encodes ms ds\<close>: the messages serialise, in order, to \<open>ds\<close>.\<close>

definition encodes :: "('m \<Rightarrow> string + bytes) \<Rightarrow> 'm list \<Rightarrow> bytes list \<Rightarrow> bool" where
  "encodes to_allocvec ms ds \<longleftrightarrow> list_all2 (\<lambda>m d. to_allocvec m = Inr d) ms ds"

lemma wrote_frames:
  "wrote to_allocvec w ms w' \<Longrightarrow>
   \<exists>ds. encodes to_allocvec ms ds \<and> wr_out w' = wr_out w @ concat (map frame ds)"
proof (induction rule: wrote.induct)
  case (wrote_Nil w)
  then show ?case by (intro exI[of _ "[]"]) (simp add: encodes_def)
next
  case (wrote_snoc w ms w1 m w2)
  then obtain ds d where "encodes to_allocvec ms ds" "wr_out w1 = wr_out w @ concat (map frame ds)"
    "to_allocvec m = Inr d" "wr_out w2 = wr_out w1 @ frame d"
    by (blast dest: write_message_out)
  then show ?case
    by (intro exI[of _ "ds @ [d]"]) (simp add: encodes_def list_all2_appendI)
qed

text \<open>The bytes of a message sequence on the stream.\<close>

definition frame_of :: "('m \<Rightarrow> string + bytes) \<Rightarrow> 'm \<Rightarrow> bytes" where
  "frame_of to_allocvec m = (case to_allocvec m of Inl e \<Rightarrow> [] | Inr data \<Rightarrow> frame data)"

definition stream :: "('m \<Rightarrow> string + bytes) \<Rightarrow> 'm list \<Rightarrow> bytes" where
  "stream to_allocvec ms = concat (map (frame_of to_allocvec) ms)"

lemma encodes_stream: "encodes to_allocvec ms ds \<Longrightarrow> concat (map frame ds) = stream to_allocvec ms"
proof (induction ms arbitrary: ds)
  case Nil
  then show ?case by (simp add: encodes_def stream_def)
next
  case (Cons m ms)
  then obtain d ds' where "ds = d # ds'" "to_allocvec m = Inr d" "encodes to_allocvec ms ds'"
    by (auto simp: encodes_def list_all2_Cons1)
  with Cons.IH[of ds'] show ?case by (simp add: stream_def frame_of_def)
qed

lemma wrote_stream:
  assumes "wrote to_allocvec w ms w'"
  shows "wr_out w' = wr_out w @ stream to_allocvec ms"
  using wrote_frames[OF assms] encodes_stream by metis

text \<open>Every message of the sequence serialises to at most 16 MiB.\<close>

definition all_fit :: "('m \<Rightarrow> string + bytes) \<Rightarrow> 'm list \<Rightarrow> bool" where
  "all_fit to_allocvec ms \<longleftrightarrow> (\<forall>m\<in>set ms. \<exists>d. to_allocvec m = Inr d \<and> length d \<le> max_message)"

lemma all_fit_encodes:
  "all_fit to_allocvec ms \<Longrightarrow> \<exists>ds. encodes to_allocvec ms ds \<and> (\<forall>d\<in>set ds. length d \<le> max_message)"
proof (induction ms)
  case Nil
  then show ?case by (intro exI[of _ "[]"]) (simp add: encodes_def)
next
  case (Cons m ms)
  then obtain d ds where "to_allocvec m = Inr d" "length d \<le> max_message"
    "encodes to_allocvec ms ds" "\<forall>d\<in>set ds. length d \<le> max_message"
    by (auto simp: all_fit_def)
  then show ?case by (intro exI[of _ "d # ds"]) (simp add: encodes_def)
qed

locale message_codec =
  fixes to_allocvec :: "'m \<Rightarrow> string + bytes"
    and from_bytes :: "bytes \<Rightarrow> string + 'm"
  assumes codec: "to_allocvec m = Inr data \<Longrightarrow> from_bytes data = Inr m"
begin

text \<open>
  A stream cut anywhere: the messages whose frames are complete arrive, in order and
  unaltered, then the loop ends; nothing is delivered from an incomplete frame.
\<close>

lemma read_loop_prefix:
  assumes "encodes to_allocvec ms ds" and "\<And>d. d \<in> set ds \<Longrightarrow> length d \<le> max_message"
    and "rd_bytes r = take n (concat (map frame ds))" and "rd_end r = None"
  shows "\<exists>k last. k \<le> length ms \<and> read_loop from_bytes r = map (Inr \<circ> Some) (take k ms) @ [last] \<and>
    last \<in> {Inr None, Inl (Io UnexpectedEof)} \<and>
    length (concat (map frame (take k ds))) \<le> n \<and>
    (k < length ms \<longrightarrow> n < length (concat (map frame (take (Suc k) ds)))) \<and>
    (k = length ms \<longrightarrow> last = Inr None)"
  using assms
proof (induction ms arbitrary: ds n r)
  case Nil
  then have "read_loop from_bytes r = [Inr None]"
    by (simp add: encodes_def read_loop.simps[of from_bytes r] read_message_def read_exact_def)
  then show ?case using Nil by (intro exI[of _ 0]) (simp add: encodes_def)
next
  case (Cons m ms)
  then obtain d ds' where ds: "ds = d # ds'" and d: "to_allocvec m = Inr d"
    and ds': "encodes to_allocvec ms ds'" and len: "length d \<le> max_message"
    by (auto simp: encodes_def list_all2_Cons1)
  show ?case
  proof (cases "length (frame d) \<le> n")
    case True
    let ?n = "n - length (frame d)" and ?r = "r\<lparr>rd_bytes := take (n - length (frame d)) (concat (map frame ds'))\<rparr>"
    have "rd_bytes r = frame d @ take ?n (concat (map frame ds'))"
      using Cons.prems(3) True by (simp add: ds)
    from read_message_frame[OF this len, of from_bytes] codec[OF d]
    have step: "read_loop from_bytes r = Inr (Some m) # read_loop from_bytes ?r"
      by (simp add: read_loop.simps[of from_bytes r])
    have p2: "\<And>d. d \<in> set ds' \<Longrightarrow> length d \<le> max_message"
      and p3: "rd_bytes ?r = take ?n (concat (map frame ds'))" and p4: "rd_end ?r = None"
      using Cons.prems(2,4) by (simp_all add: ds)
    obtain k last where "k \<le> length ms" "last \<in> {Inr None, Inl (Io UnexpectedEof)}"
      "read_loop from_bytes ?r = map (Inr \<circ> Some) (take k ms) @ [last]"
      "length (concat (map frame (take k ds'))) \<le> ?n"
      "k < length ms \<longrightarrow> ?n < length (concat (map frame (take (Suc k) ds')))"
      "k = length ms \<longrightarrow> last = Inr None"
      using Cons.IH[OF ds' p2 p3 p4] by blast
    with True step show ?thesis
      by (intro exI[of _ "Suc k"] exI[of _ last]) (auto simp: ds)
  next
    case False
    then have r: "rd_bytes r = take n (frame d)" using Cons.prems(3) by (simp add: ds)
    have "fst (read_message from_bytes r) \<in> {Inr None, Inl (Io UnexpectedEof)}"
      using read_message_cut_prefix[of r from_bytes] read_message_cut_body[OF r _ _ len] False r Cons.prems(4)
      by (cases "n < 8") auto
    then obtain last where "read_loop from_bytes r = [last]" "last \<in> {Inr None, Inl (Io UnexpectedEof)}"
      by (cases "read_message from_bytes r") (auto simp: read_loop.simps[of from_bytes r])
    with False show ?thesis by (intro exI[of _ 0] exI[of _ last]) (auto simp: ds)
  qed
qed

text \<open>The same over the stream of a message sequence; cut nowhere, all of it arrives.\<close>

lemma read_loop_stream_prefix:
  assumes "all_fit to_allocvec ms"
    and "rd_bytes r = take n (stream to_allocvec ms)" and "rd_end r = None"
  shows "\<exists>k last. k \<le> length ms \<and> read_loop from_bytes r = map (Inr \<circ> Some) (take k ms) @ [last] \<and>
    last \<in> {Inr None, Inl (Io UnexpectedEof)} \<and>
    length (stream to_allocvec (take k ms)) \<le> n \<and>
    (k < length ms \<longrightarrow> n < length (stream to_allocvec (take (Suc k) ms))) \<and>
    (k = length ms \<longrightarrow> last = Inr None)"
proof -
  obtain ds where ds: "encodes to_allocvec ms ds" "\<forall>d\<in>set ds. length d \<le> max_message"
    using all_fit_encodes[OF assms(1)] by blast
  have "encodes to_allocvec (take k ms) (take k ds)" for k
    using ds(1) by (simp add: encodes_def list_all2_takeI)
  then have "concat (map frame (take k ds)) = stream to_allocvec (take k ms)" for k
    by (rule encodes_stream)
  with read_loop_prefix[OF ds(1), of r n] ds assms(2,3) encodes_stream[OF ds(1)] show ?thesis
    by simp
qed

lemma read_loop_stream:
  assumes "all_fit to_allocvec ms" and "rd_bytes r = stream to_allocvec ms" and "rd_end r = None"
  shows "read_loop from_bytes r = map (Inr \<circ> Some) ms @ [Inr None]"
proof -
  have "rd_bytes r = take (length (stream to_allocvec ms)) (stream to_allocvec ms)"
    using assms(2) by simp
  from read_loop_stream_prefix[OF assms(1) this assms(3)]
  obtain k last where k: "k \<le> length ms" "read_loop from_bytes r = map (Inr \<circ> Some) (take k ms) @ [last]"
    "k < length ms \<longrightarrow> length (stream to_allocvec ms) < length (stream to_allocvec (take (Suc k) ms))"
    "k = length ms \<longrightarrow> last = Inr None"
    by blast
  have "length (stream to_allocvec (take j ms)) \<le> length (stream to_allocvec ms)" for j
    using append_take_drop_id[of j ms]
    by (metis concat_append length_append le_add1 map_append stream_def)
  with k(1,3) have "k = length ms" by (metis le_neq_implies_less not_le)
  with k show ?thesis by simp
qed

end

section \<open>Oversized messages\<close>

text \<open>Writing has no size limit; reading does: an oversized message ends the connection.\<close>

lemma oversized_message:
  assumes "to_allocvec m = Inr data" and "max_message < length data" "length data < 2 ^ 64"
    and "wr_accepts w = None" "\<not> wr_flush_fails w"
    and "rd_bytes r = drop (length (wr_out w)) (wr_out (snd (write_message to_allocvec m w)))"
  shows "fst (write_message to_allocvec m w) = Inr () \<and>
    fst (read_message from_bytes r) = Inl (MessageTooLarge (word_of_nat (length data)))"
proof -
  have w: "write_message to_allocvec m w = (Inr (), w\<lparr>wr_out := wr_out w @ frame data\<rparr>)"
    using assms(1,4,5) by (simp add: write_message_def write_all_def flush_def frame_def Let_def)
  have "rd_bytes r = frame data @ []" using assms(6) by (simp add: w)
  from read_message_frame_too_large[OF this assms(2,3)] w show ?thesis by simp
qed

end
