(* ===== verification/Postcard.thy ===== *)
theory Postcard
  imports Protocol
begin

text \<open>
  The postcard wire format of the two message types, as its specification fixes it: enum
  variants by their index in declaration order, \<open>u16\<close>, \<open>u32\<close> and lengths as LEB128
  varints, byte vectors and strings with a length in front, an \<open>IpAddr\<close> as a variant
  index and its octets. It is the instance on which \<open>message_codec\<close> is interpreted;
  strings are read byte for byte, without the UTF-8 check. Nothing here models a file under
  \<open>src/\<close> but the order of the variants of \<open>protocol.rs\<close>.
\<close>

section \<open>Varints\<close>

fun enc_varint :: "nat \<Rightarrow> bytes" where
  "enc_varint n =
     (if n < 128 then [word_of_nat n] else word_of_nat (n mod 128 + 128) # enc_varint (n div 128))"

fun dec_varint :: "nat \<Rightarrow> bytes \<Rightarrow> (nat \<times> bytes) option" where
  "dec_varint 0 bs = None"
| "dec_varint (Suc k) [] = None"
| "dec_varint (Suc k) (b # bs) =
     (if unat b < 128 then Some (unat b, bs)
      else case dec_varint k bs of
        None \<Rightarrow> None
      | Some (n, r) \<Rightarrow> Some (unat b - 128 + 128 * n, r))"

declare enc_varint.simps [simp del]

lemma dec_enc_varint:
  "n < 128 ^ k \<Longrightarrow> 0 < k \<Longrightarrow> dec_varint k (enc_varint n @ r) = Some (n, r)"
proof (induction n arbitrary: k rule: enc_varint.induct)
  case (1 n)
  obtain k' where k: "k = Suc k'" using "1.prems" by (cases k) auto
  show ?case
  proof (cases "n < 128")
    case True
    then show ?thesis by (simp add: k enc_varint.simps[of n] unat_byte)
  next
    case False
    then have "n div 128 < 128 ^ k'" "0 < k'"
      using "1.prems" unfolding k by (cases k'; simp add: less_mult_imp_div_less mult.commute)+
    with "1.IH"[OF False] have "dec_varint k' (enc_varint (n div 128) @ r) = Some (n div 128, r)"
      by simp
    moreover have "(n mod 128 + 128) mod 256 = n mod 128 + 128" by simp
    ultimately show ?thesis
      using False by (simp add: k enc_varint.simps[of n] unat_byte del: of_nat_add)
  qed
qed

lemma length_enc_varint: "n < 128 ^ k \<Longrightarrow> 0 < k \<Longrightarrow> length (enc_varint n) \<le> k"
proof (induction n arbitrary: k rule: enc_varint.induct)
  case (1 n)
  obtain k' where k: "k = Suc k'" using "1.prems" by (cases k) auto
  show ?case
  proof (cases "n < 128")
    case True
    then show ?thesis by (simp add: k enc_varint.simps[of n])
  next
    case False
    then have "n div 128 < 128 ^ k'" "0 < k'"
      using "1.prems" unfolding k by (cases k'; simp add: less_mult_imp_div_less mult.commute)+
    with "1.IH"[OF False] False show ?thesis by (simp add: k enc_varint.simps[of n])
  qed
qed

section \<open>Parsers\<close>

type_synonym 'a parser = "bytes \<Rightarrow> ('a \<times> bytes) option"

definition pbind :: "'a parser \<Rightarrow> ('a \<Rightarrow> 'b parser) \<Rightarrow> 'b parser" where
  "pbind p f bs = (case p bs of None \<Rightarrow> None | Some (x, r) \<Rightarrow> f x r)"

definition pret :: "'a \<Rightarrow> 'a parser" where
  "pret x bs = Some (x, bs)"

definition pfail :: "'a parser" where
  "pfail bs = None"

definition p_uint :: "nat \<Rightarrow> 'a::len word parser" where
  "p_uint k = pbind (dec_varint k)
     (\<lambda>n. if n < 2 ^ LENGTH('a) then pret (word_of_nat n) else pfail)"

definition p_take :: "nat \<Rightarrow> bytes parser" where
  "p_take n bs = (if n \<le> length bs then Some (take n bs, drop n bs) else None)"

definition p_bytes :: "bytes parser" where
  "p_bytes = pbind (dec_varint 10) p_take"

definition p_ip :: "IpAddr parser" where
  "p_ip = pbind (dec_varint 5)
     (\<lambda>v. if v = 0 then pbind (p_take 4) (\<lambda>b. pret (V4 (from_be b)))
          else if v = 1 then pbind (p_take 16) (\<lambda>b. pret (V6 (from_be b)))
          else pfail)"

section \<open>Encoders and their round trips\<close>

definition e_uint :: "'a::len word \<Rightarrow> bytes" where
  "e_uint w = enc_varint (unat w)"

definition e_bytes :: "bytes \<Rightarrow> bytes" where
  "e_bytes bs = enc_varint (length bs) @ bs"

fun e_ip :: "IpAddr \<Rightarrow> bytes" where
  "e_ip (V4 a) = enc_varint 0 @ to_be 4 a"
| "e_ip (V6 a) = enc_varint 1 @ to_be 16 a"

named_theorems codec_simps "round trips of the wire format"

lemma pret_simp [codec_simps]: "pret x bs = Some (x, bs)"
  by (simp add: pret_def)

lemma dec_enc_variant [codec_simps]:
  "n < 128 \<Longrightarrow> dec_varint 5 (enc_varint n @ r) = Some (n, r)"
  by (rule dec_enc_varint) simp_all

lemma p_e_u16 [codec_simps]: "p_uint 3 (e_uint (w :: u16) @ r) = Some (w, r)"
  and p_e_u32 [codec_simps]: "p_uint 5 (e_uint (v :: u32) @ r) = Some (v, r)"
  using unsigned_less[of w, where ?'a = nat] unsigned_less[of v, where ?'a = nat]
  by (simp_all add: p_uint_def e_uint_def pbind_def dec_enc_varint codec_simps)

lemma p_e_bytes [codec_simps]:
  "length bs < 2 ^ 64 \<Longrightarrow> p_bytes (e_bytes bs @ r) = Some (bs, r)"
  by (simp add: p_bytes_def e_bytes_def pbind_def p_take_def dec_enc_varint)

lemma p_e_ip [codec_simps]: "p_ip (e_ip a @ r) = Some (a, r)"
  by (cases a) (simp_all add: p_ip_def pbind_def p_take_def codec_simps from_be_to_be_word)

section \<open>Host messages\<close>

text \<open>A Rust \<open>Vec\<close> is never longer than \<open>isize::MAX\<close>; the encoders refuse what cannot exist.\<close>

fun enc_host :: "HostMessage \<Rightarrow> bytes" where
  "enc_host (TcpConnect i d p) = enc_varint 0 @ e_uint i @ e_ip d @ e_uint p"
| "enc_host (HostMessage.TcpData i b) = enc_varint 1 @ e_uint i @ e_bytes b"
| "enc_host (TcpClose i) = enc_varint 2 @ e_uint i"
| "enc_host (UdpDatagram s d p b) = enc_varint 3 @ e_uint s @ e_ip d @ e_uint p @ e_bytes b"
| "enc_host (DnsQuery i d b) = enc_varint 4 @ e_uint i @ e_ip d @ e_bytes b"
| "enc_host Shutdown = enc_varint 5"

fun host_data_len :: "HostMessage \<Rightarrow> nat" where
  "host_data_len (HostMessage.TcpData i b) = length b"
| "host_data_len (UdpDatagram s d p b) = length b"
| "host_data_len (DnsQuery i d b) = length b"
| "host_data_len _ = 0"

definition host_to_allocvec :: "HostMessage \<Rightarrow> string + bytes" where
  "host_to_allocvec m = (if host_data_len m < 2 ^ 63 then Inr (enc_host m) else Inl ''capacity overflow'')"

definition p_host :: "HostMessage parser" where
  "p_host = pbind (dec_varint 5) (\<lambda>v.
     if v = 0 then pbind (p_uint 5) (\<lambda>i. pbind p_ip (\<lambda>d. pbind (p_uint 3) (\<lambda>p. pret (TcpConnect i d p))))
     else if v = 1 then pbind (p_uint 5) (\<lambda>i. pbind p_bytes (\<lambda>b. pret (HostMessage.TcpData i b)))
     else if v = 2 then pbind (p_uint 5) (\<lambda>i. pret (TcpClose i))
     else if v = 3 then pbind (p_uint 3) (\<lambda>s. pbind p_ip (\<lambda>d. pbind (p_uint 3)
       (\<lambda>p. pbind p_bytes (\<lambda>b. pret (UdpDatagram s d p b)))))
     else if v = 4 then pbind (p_uint 5) (\<lambda>i. pbind p_ip (\<lambda>d. pbind p_bytes (\<lambda>b. pret (DnsQuery i d b))))
     else if v = 5 then pret Shutdown
     else pfail)"

definition host_from_bytes :: "bytes \<Rightarrow> string + HostMessage" where
  "host_from_bytes bs =
     (case p_host bs of None \<Rightarrow> Inl ''deserialize'' | Some (m, _) \<Rightarrow> Inr m)"

lemma p_enc_host: "host_data_len m < 2 ^ 63 \<Longrightarrow> p_host (enc_host m @ r) = Some (m, r)"
  by (cases m) (simp_all add: p_host_def pbind_def codec_simps)

interpretation host_codec: message_codec host_to_allocvec host_from_bytes
proof
  fix m data assume "host_to_allocvec m = Inr data"
  then show "host_from_bytes data = Inr m"
    using p_enc_host[of m "[]"] by (simp add: host_to_allocvec_def host_from_bytes_def split: if_splits)
qed

section \<open>Remote messages\<close>

definition e_string :: "string \<Rightarrow> bytes" where
  "e_string s = e_bytes (map (\<lambda>c. word_of_nat (of_char c)) s)"

definition p_string :: "string parser" where
  "p_string = pbind p_bytes (\<lambda>b. pret (map (\<lambda>x. char_of (unat x)) b))"

lemma p_e_string [codec_simps]:
  "length s < 2 ^ 64 \<Longrightarrow> p_string (e_string s @ r) = Some (s, r)"
proof -
  assume "length s < 2 ^ 64"
  moreover have "char_of (unat (word_of_nat (of_char c) :: u8)) = c" for c
    by (simp add: unat_byte)
  ultimately show ?thesis by (simp add: p_string_def e_string_def pbind_def codec_simps comp_def)
qed

fun enc_remote :: "RemoteMessage \<Rightarrow> bytes" where
  "enc_remote (TcpConnected i) = enc_varint 0 @ e_uint i"
| "enc_remote (RemoteMessage.TcpData i b) = enc_varint 1 @ e_uint i @ e_bytes b"
| "enc_remote (TcpClosed i) = enc_varint 2 @ e_uint i"
| "enc_remote (TcpError i s) = enc_varint 3 @ e_uint i @ e_string s"
| "enc_remote (UdpResponse p a q b) = enc_varint 4 @ e_uint p @ e_ip a @ e_uint q @ e_bytes b"
| "enc_remote (DnsResponse i b) = enc_varint 5 @ e_uint i @ e_bytes b"
| "enc_remote Ready = enc_varint 6"
| "enc_remote (Error s) = enc_varint 7 @ e_string s"

fun remote_data_len :: "RemoteMessage \<Rightarrow> nat" where
  "remote_data_len (RemoteMessage.TcpData i b) = length b"
| "remote_data_len (TcpError i s) = length s"
| "remote_data_len (UdpResponse p a q b) = length b"
| "remote_data_len (DnsResponse i b) = length b"
| "remote_data_len (Error s) = length s"
| "remote_data_len _ = 0"

definition remote_to_allocvec :: "RemoteMessage \<Rightarrow> string + bytes" where
  "remote_to_allocvec m =
     (if remote_data_len m < 2 ^ 63 then Inr (enc_remote m) else Inl ''capacity overflow'')"

definition p_remote :: "RemoteMessage parser" where
  "p_remote = pbind (dec_varint 5) (\<lambda>v.
     if v = 0 then pbind (p_uint 5) (\<lambda>i. pret (TcpConnected i))
     else if v = 1 then pbind (p_uint 5) (\<lambda>i. pbind p_bytes (\<lambda>b. pret (RemoteMessage.TcpData i b)))
     else if v = 2 then pbind (p_uint 5) (\<lambda>i. pret (TcpClosed i))
     else if v = 3 then pbind (p_uint 5) (\<lambda>i. pbind p_string (\<lambda>s. pret (TcpError i s)))
     else if v = 4 then pbind (p_uint 3) (\<lambda>p. pbind p_ip (\<lambda>a. pbind (p_uint 3)
       (\<lambda>q. pbind p_bytes (\<lambda>b. pret (UdpResponse p a q b)))))
     else if v = 5 then pbind (p_uint 5) (\<lambda>i. pbind p_bytes (\<lambda>b. pret (DnsResponse i b)))
     else if v = 6 then pret Ready
     else if v = 7 then pbind p_string (\<lambda>s. pret (Error s))
     else pfail)"

definition remote_from_bytes :: "bytes \<Rightarrow> string + RemoteMessage" where
  "remote_from_bytes bs =
     (case p_remote bs of None \<Rightarrow> Inl ''deserialize'' | Some (m, _) \<Rightarrow> Inr m)"

lemma p_enc_remote: "remote_data_len m < 2 ^ 63 \<Longrightarrow> p_remote (enc_remote m @ r) = Some (m, r)"
  by (cases m) (simp_all add: p_remote_def pbind_def codec_simps)

interpretation remote_codec: message_codec remote_to_allocvec remote_from_bytes
proof
  fix m data assume "remote_to_allocvec m = Inr data"
  then show "remote_from_bytes data = Inr m"
    using p_enc_remote[of m "[]"]
    by (simp add: remote_to_allocvec_def remote_from_bytes_def split: if_splits)
qed

section \<open>Properties of the message protocol\<close>

text \<open>
  C24: Whatever prefix of a written message stream reaches the other side before it ends, the
  reader task passes on exactly the messages whose frames are complete, in order and
  unaltered, then one end-of-stream result: \<open>Ok(None)\<close> or an \<open>UnexpectedEof\<close> error. With
  the whole stream all messages arrive and the end is \<open>Ok(None)\<close>.
\<close>

theorem stream_prefix_delivered:
  assumes "message_codec to_allocvec from_bytes" and "wrote to_allocvec w ms w'"
    and "all_fit to_allocvec ms"
    and "rd_bytes r = take n (drop (length (wr_out w)) (wr_out w'))" and "rd_end r = None"
  shows "\<exists>k last. k \<le> length ms \<and> read_loop from_bytes r = map (Inr \<circ> Some) (take k ms) @ [last] \<and>
    last \<in> {Inr None, Inl (Io UnexpectedEof)} \<and>
    length (stream to_allocvec (take k ms)) \<le> n \<and>
    (k < length ms \<longrightarrow> n < length (stream to_allocvec (take (Suc k) ms))) \<and>
    (k = length ms \<longrightarrow> last = Inr None)"
  by (rule message_codec.read_loop_stream_prefix[OF assms(1,3) _ assms(5)])
     (simp add: assms(4) wrote_stream[OF assms(2)])

theorem stream_prefix_delivered_witness:
  "\<exists>k last. k \<le> length [TcpClose 7, Shutdown] \<and>
    read_loop host_from_bytes \<lparr>rd_bytes = take 12 (stream host_to_allocvec [TcpClose 7, Shutdown]), rd_end = None\<rparr>
      = map (Inr \<circ> Some) (take k [TcpClose 7, Shutdown]) @ [last] \<and>
    last \<in> {Inr None, Inl (Io UnexpectedEof)} \<and>
    length (stream host_to_allocvec (take k [TcpClose 7, Shutdown])) \<le> 12 \<and>
    (k < length [TcpClose 7, Shutdown] \<longrightarrow>
      12 < length (stream host_to_allocvec (take (Suc k) [TcpClose 7, Shutdown]))) \<and>
    (k = length [TcpClose 7, Shutdown] \<longrightarrow> last = Inr None)"
proof -
  let ?w = "\<lambda>bs. \<lparr>wr_out = bs, wr_accepts = None, wr_error = UnexpectedEof, wr_flush_fails = False\<rparr>"
  let ?ms = "[TcpClose 7, Shutdown]"
  have enc: "host_to_allocvec (TcpClose 7) = Inr [2, 7]" "host_to_allocvec Shutdown = Inr [5]"
    by (simp_all add: host_to_allocvec_def enc_varint.simps e_uint_def)
  have "wrote host_to_allocvec (?w []) ([] @ [TcpClose 7]) (?w (frame [2, 7]))"
    by (intro wrote_snoc[OF wrote_Nil])
       (simp add: write_message_def enc write_all_def flush_def frame_def)
  then have "wrote host_to_allocvec (?w []) (([] @ [TcpClose 7]) @ [Shutdown]) (?w (frame [2, 7] @ frame [5]))"
    by (rule wrote_snoc) (simp add: write_message_def enc write_all_def flush_def frame_def)
  then have wrote: "wrote host_to_allocvec (?w []) ?ms (?w (frame [2, 7] @ frame [5]))" by simp
  have fit: "all_fit host_to_allocvec ?ms" by (simp add: all_fit_def enc)
  have str: "stream host_to_allocvec ?ms = frame [2, 7] @ frame [5]"
    by (simp add: stream_def frame_of_def enc)
  show ?thesis
    by (rule stream_prefix_delivered[OF host_codec.message_codec_axioms wrote fit])
       (simp_all only: str reader.simps writer.simps list.size(3) drop_0)
qed

text \<open>
  \<open>write_message\<close> has no size limit but \<open>read_message\<close> refuses more than 16 MiB: a
  message that serialises to more is written without an error and kills the connection of
  the reader.
\<close>

theorem oversized_written_not_read:
  assumes "to_allocvec m = Inr data" and "max_message < length data" "length data < 2 ^ 64"
    and "wr_accepts w = None" "\<not> wr_flush_fails w"
    and "rd_bytes r = drop (length (wr_out w)) (wr_out (snd (write_message to_allocvec m w)))"
  shows "fst (write_message to_allocvec m w) = Inr () \<and>
    fst (read_message from_bytes r) = Inl (MessageTooLarge (word_of_nat (length data)))"
  using assms by (rule oversized_message)

theorem oversized_written_not_read_witness:
  "\<exists>m w r. fst (write_message host_to_allocvec m w) = Inr () \<and>
    rd_bytes r = wr_out (snd (write_message host_to_allocvec m w)) \<and>
    (\<exists>n. fst (read_message host_from_bytes r) = Inl (MessageTooLarge n))"
proof -
  let ?m = "HostMessage.TcpData 1 (replicate 16777216 0)"
  let ?w = "\<lparr>wr_out = [], wr_accepts = None, wr_error = UnexpectedEof, wr_flush_fails = False\<rparr>"
  let ?r = "\<lparr>rd_bytes = wr_out (snd (write_message host_to_allocvec ?m ?w)), rd_end = None\<rparr>"
  have enc: "host_to_allocvec ?m = Inr (enc_host ?m)" by (simp add: host_to_allocvec_def)
  have len: "length (enc_host ?m) = 16777222"
    by (simp add: e_bytes_def e_uint_def enc_varint.simps)
  show ?thesis
    using oversized_written_not_read[of host_to_allocvec ?m "enc_host ?m" ?w ?r host_from_bytes] enc len
    by (intro exI[of _ ?m] exI[of _ ?w] exI[of _ ?r])
       (auto simp del: enc_host.simps)
qed

end
