(* ===== verification/Nat_Table.thy ===== *)
theory Nat_Table
  imports Prelude
begin

text \<open>
  \<open>src/src/host/nat.rs\<close>: the connection tracking of the host. The concurrent maps of
  the \<open>NatTable\<close> are maps, its atomic counter is a word that wraps, and an
  \<open>Instant\<close> is a number of nanoseconds on the monotonic clock, passed to the one
  operation that reads it. The locale \<open>id_allocator\<close> is the contract of the identifier
  counters of the program; \<open>NatTable\<close> provides it here and the DNS forwarder in
  \<open>Dns\<close>.
\<close>

section \<open>Identifier allocation\<close>

text \<open>
  \<open>ids_within base n nxt own\<close>: after \<open>n\<close> allocations from \<open>base\<close>, the counter is at
  \<open>nxt\<close> and every identifier that has an owner is one of the \<open>n\<close> handed out.
\<close>

definition ids_within :: "u32 \<Rightarrow> nat \<Rightarrow> u32 \<Rightarrow> (u32 \<rightharpoonup> 'o) \<Rightarrow> bool" where
  "ids_within base n nxt own \<longleftrightarrow>
     nxt = base + word_of_nat n \<and> (\<forall>i o'. own i = Some o' \<longrightarrow> unat (i - base) < n)"

lemma ids_within_fresh:
  assumes "ids_within base n nxt own" and "n < 2 ^ 32"
  shows "own nxt = None"
proof (rule ccontr)
  assume "own nxt \<noteq> None"
  with assms(1) have "unat (nxt - base) < n" and "nxt = base + word_of_nat n"
    by (auto simp: ids_within_def)
  then have "unat (word_of_nat n :: u32) < n" by simp
  with assms(2) show False by (simp add: unat_of_nat)
qed

lemma ids_within_alloc:
  assumes "ids_within base n nxt own" and "n < 2 ^ 32"
  shows "ids_within base (Suc n) (nxt + 1) (own(nxt \<mapsto> x))"
proof -
  have nxt: "nxt = base + word_of_nat n" and old: "own i = Some o' \<Longrightarrow> unat (i - base) < n" for i o'
    using assms(1) by (auto simp: ids_within_def)
  have "unat (nxt - base) = n" using assms(2) by (simp add: nxt unat_of_nat)
  then show ?thesis
    unfolding ids_within_def by (auto simp: nxt dest: old intro: less_SucI)
qed

lemma ids_within_sub:
  "ids_within base n nxt own \<Longrightarrow> own' \<subseteq>\<^sub>m own \<Longrightarrow> ids_within base n nxt own'"
  by (auto simp: ids_within_def map_le_def domI) (metis domI)

text \<open>
  The contract of a counter that hands out identifiers (\<open>fetch_add(1)\<close>) and records their
  owner in a map: the client's facts about a run of allocations follow once for all.
\<close>

locale id_allocator =
  fixes counter :: "'s \<Rightarrow> u32"
    and owners :: "'s \<Rightarrow> (u32 \<rightharpoonup> 'o)"
    and alloc :: "'a \<Rightarrow> 's \<Rightarrow> u32 \<times> 's"
    and owner_of :: "'a \<Rightarrow> 'o"
  assumes alloc_id: "fst (alloc a s) = counter s"
    and alloc_counter: "counter (snd (alloc a s)) = counter s + 1"
    and alloc_owners: "owners (snd (alloc a s)) = (owners s)(counter s \<mapsto> owner_of a)"
begin

fun alloc_all :: "'a list \<Rightarrow> 's \<Rightarrow> u32 list \<times> 's" where
  "alloc_all [] s = ([], s)"
| "alloc_all (a # as) s =
     (let (i, s1) = alloc a s; (is, s2) = alloc_all as s1 in (i # is, s2))"

lemma alloc_within:
  "ids_within base n (counter s) (owners s) \<Longrightarrow> n < 2 ^ 32 \<Longrightarrow>
   ids_within base (Suc n) (counter (snd (alloc a s))) (owners (snd (alloc a s)))"
  by (simp add: alloc_counter alloc_owners ids_within_alloc)

lemma alloc_all_ids:
  "fst (alloc_all as s) = map (\<lambda>i. counter s + word_of_nat i) [0..<length as]"
proof (induction as arbitrary: s)
  case Nil
  then show ?case by simp
next
  case (Cons a as)
  have "map (\<lambda>i. counter s + word_of_nat i) [0..<length (a # as)]
      = counter s # map (\<lambda>i. counter s + 1 + word_of_nat i) [0..<length as]"
    by (simp add: upt_conv_Cons map_Suc_upt[symmetric] comp_def algebra_simps del: upt_Suc)
  with Cons[of "snd (alloc a s)"] show ?case
    by (simp add: Let_def split_beta alloc_id alloc_counter)
qed

text \<open>Distinct identifiers up to the width of the counter, and not beyond.\<close>

lemma alloc_all_distinct: "distinct (fst (alloc_all as s)) \<longleftrightarrow> length as \<le> 2 ^ 32"
proof
  assume "length as \<le> 2 ^ 32"
  then show "distinct (fst (alloc_all as s))"
    by (auto simp: alloc_all_ids distinct_map inj_on_def word_of_nat_eq_iff take_bit_eq_mod)
next
  assume dist: "distinct (fst (alloc_all as s))"
  have "card (set (fst (alloc_all as s))) \<le> card (UNIV :: u32 set)"
    by (rule card_mono) auto
  moreover have "card (set (fst (alloc_all as s))) = length as"
    using distinct_card[OF dist] by (simp add: alloc_all_ids)
  ultimately show "length as \<le> 2 ^ 32" by (simp add: card_word)
qed

end

section \<open>The table\<close>

type_synonym TcpKey = "IpAddr \<times> u16 \<times> IpAddr \<times> u16"

datatype ConnectionState = SynSent | Established | FinWait | CloseWait | LastAck

record TcpConnection =
  conn_id :: u32
  conn_state :: ConnectionState
  conn_seq :: u32
  conn_ack :: u32

type_synonym Instant = nat

record UdpMapping =
  map_src_ip :: IpAddr
  last_activity :: Instant

type_synonym UdpKey3 = "u16 \<times> IpAddr \<times> u16"

record NatTable =
  tcp_by_key :: "TcpKey \<rightharpoonup> TcpConnection"
  tcp_by_id :: "u32 \<rightharpoonup> TcpKey"
  udp_mappings :: "UdpKey3 \<rightharpoonup> UdpMapping"
  next_id :: u32

definition nat_new :: NatTable where
  "nat_new = \<lparr>tcp_by_key = Map.empty, tcp_by_id = Map.empty,
              udp_mappings = Map.empty, next_id = 1\<rparr>"

definition create_tcp_connection :: "TcpKey \<times> u32 \<Rightarrow> NatTable \<Rightarrow> u32 \<times> NatTable" where
  "create_tcp_connection = (\<lambda>(key, client_isn) t.
     let i = next_id t;
         conn = \<lparr>conn_id = i, conn_state = SynSent, conn_seq = 1000, conn_ack = client_isn + 1\<rparr>
     in (i, t\<lparr>next_id := next_id t + 1,
              tcp_by_key := (tcp_by_key t)(key \<mapsto> conn),
              tcp_by_id := (tcp_by_id t)(i \<mapsto> key)\<rparr>))"

definition get_tcp_connection_id :: "TcpKey \<Rightarrow> NatTable \<Rightarrow> u32 option" where
  "get_tcp_connection_id key t = map_option conn_id (tcp_by_key t key)"

definition get_tcp_connection_key :: "u32 \<Rightarrow> NatTable \<Rightarrow> TcpKey option" where
  "get_tcp_connection_key i t = tcp_by_id t i"

definition get_tcp_state :: "TcpKey \<Rightarrow> NatTable \<Rightarrow> ConnectionState option" where
  "get_tcp_state key t = map_option conn_state (tcp_by_key t key)"

text \<open>\<open>get_mut\<close> followed by an assignment: an update of an entry that is present.\<close>

definition modify_conn :: "TcpKey \<Rightarrow> (TcpConnection \<Rightarrow> TcpConnection) \<Rightarrow> NatTable \<Rightarrow> NatTable"
where
  "modify_conn key f t =
     (case tcp_by_key t key of
        None \<Rightarrow> t
      | Some conn \<Rightarrow> t\<lparr>tcp_by_key := (tcp_by_key t)(key \<mapsto> f conn)\<rparr>)"

definition set_tcp_state :: "TcpKey \<Rightarrow> ConnectionState \<Rightarrow> NatTable \<Rightarrow> NatTable" where
  "set_tcp_state key st = modify_conn key (\<lambda>conn. conn\<lparr>conn_state := st\<rparr>)"

definition close_tcp_connection :: "TcpKey \<Rightarrow> NatTable \<Rightarrow> NatTable" where
  "close_tcp_connection key t =
     (case tcp_by_key t key of
        None \<Rightarrow> t
      | Some conn \<Rightarrow> t\<lparr>tcp_by_key := (tcp_by_key t)(key := None),
                      tcp_by_id := (tcp_by_id t)(conn_id conn := None)\<rparr>)"

definition conn_of_id :: "u32 \<Rightarrow> NatTable \<Rightarrow> TcpConnection option" where
  "conn_of_id i t = (case tcp_by_id t i of None \<Rightarrow> None | Some key \<Rightarrow> tcp_by_key t key)"

definition get_tcp_seq :: "u32 \<Rightarrow> NatTable \<Rightarrow> u32" where
  "get_tcp_seq i t = (case conn_of_id i t of None \<Rightarrow> 0 | Some c \<Rightarrow> conn_seq c)"

definition get_tcp_ack :: "u32 \<Rightarrow> NatTable \<Rightarrow> u32" where
  "get_tcp_ack i t = (case conn_of_id i t of None \<Rightarrow> 0 | Some c \<Rightarrow> conn_ack c)"

definition advance_tcp_seq :: "u32 \<Rightarrow> u32 \<Rightarrow> NatTable \<Rightarrow> NatTable" where
  "advance_tcp_seq i n t =
     (case tcp_by_id t i of
        None \<Rightarrow> t
      | Some key \<Rightarrow> modify_conn key (\<lambda>conn. conn\<lparr>conn_seq := conn_seq conn + n\<rparr>) t)"

definition advance_tcp_seq_syn :: "u32 \<Rightarrow> NatTable \<Rightarrow> NatTable" where
  "advance_tcp_seq_syn i = advance_tcp_seq i 1"

definition update_tcp_ack :: "u32 \<Rightarrow> u32 \<Rightarrow> NatTable \<Rightarrow> NatTable" where
  "update_tcp_ack i a t =
     (case tcp_by_id t i of
        None \<Rightarrow> t
      | Some key \<Rightarrow> modify_conn key (\<lambda>conn. conn\<lparr>conn_ack := a\<rparr>) t)"

text \<open>
  \<open>Duration::from_mins(1)\<close> in nanoseconds. \<open>duration_since\<close> saturates at zero, as
  subtraction of natural numbers does.
\<close>

abbreviation udp_timeout :: nat where "udp_timeout \<equiv> 60 * 10 ^ 9"

definition cleanup_udp_mappings :: "Instant \<Rightarrow> NatTable \<Rightarrow> NatTable" where
  "cleanup_udp_mappings now t =
     t\<lparr>udp_mappings := (\<lambda>k. case udp_mappings t k of
          None \<Rightarrow> None
        | Some m \<Rightarrow> if now - last_activity m < udp_timeout then Some m else None)\<rparr>"

text \<open>\<open>track_udp\<close> reads the clock twice: for the new mapping, then for the cleanup.\<close>

definition track_udp ::
  "Instant \<times> Instant \<Rightarrow> IpAddr \<Rightarrow> u16 \<Rightarrow> IpAddr \<Rightarrow> u16 \<Rightarrow> NatTable \<Rightarrow> NatTable"
where
  "track_udp clock src_ip src_port dst_ip dst_port t =
     cleanup_udp_mappings (snd clock)
       (t\<lparr>udp_mappings := (udp_mappings t)
            ((src_port, dst_ip, dst_port) \<mapsto> \<lparr>map_src_ip = src_ip, last_activity = fst clock\<rparr>)\<rparr>)"

definition get_udp_src_ip :: "u16 \<Rightarrow> IpAddr \<Rightarrow> u16 \<Rightarrow> NatTable \<Rightarrow> IpAddr option" where
  "get_udp_src_ip dst_port src_ip src_port t =
     map_option map_src_ip (udp_mappings t (dst_port, src_ip, src_port))"

interpretation nat_ids: id_allocator next_id tcp_by_id create_tcp_connection fst
  by unfold_locales (auto simp: create_tcp_connection_def Let_def split: prod.splits)

section \<open>Well-formed tables\<close>

text \<open>
  \<open>nat_wf n t\<close>, for a table that has created \<open>n\<close> connections: identifiers come from
  the first \<open>n\<close>, every connection is found again through its own identifier, and the
  addresses of keys and UDP mappings are of one family (so a reply packet can be built).
\<close>

definition key_family :: "TcpKey \<Rightarrow> bool" where
  "key_family key = (case key of (src, _, dst, _) \<Rightarrow> same_family src dst)"

definition nat_wf :: "nat \<Rightarrow> NatTable \<Rightarrow> bool" where
  "nat_wf n t \<longleftrightarrow>
     ids_within 1 n (next_id t) (tcp_by_id t) \<and>
     (\<forall>k c. tcp_by_key t k = Some c \<longrightarrow> tcp_by_id t (conn_id c) = Some k) \<and>
     (\<forall>i k. tcp_by_id t i = Some k \<longrightarrow> key_family k) \<and>
     (\<forall>p a q m. udp_mappings t (p, a, q) = Some m \<longrightarrow> same_family (map_src_ip m) a)"

lemma nat_wf_ids: "nat_wf n t \<Longrightarrow> ids_within 1 n (next_id t) (tcp_by_id t)"
  and nat_wf_link: "nat_wf n t \<Longrightarrow> tcp_by_key t k = Some c \<Longrightarrow> tcp_by_id t (conn_id c) = Some k"
  and nat_wf_family: "nat_wf n t \<Longrightarrow> tcp_by_id t i = Some k \<Longrightarrow> key_family k"
  and nat_wf_udp: "nat_wf n t \<Longrightarrow> udp_mappings t (p, a, q) = Some m \<Longrightarrow> same_family (map_src_ip m) a"
  unfolding nat_wf_def by blast+

lemma nat_wf_new: "nat_wf 0 nat_new"
  by (simp add: nat_wf_def nat_new_def ids_within_def)

lemma nat_wf_conn_of_id:
  "nat_wf n t \<Longrightarrow> tcp_by_key t k = Some c \<Longrightarrow> conn_of_id (conn_id c) t = Some c"
  by (simp add: conn_of_id_def nat_wf_link)

lemma nat_wf_id_inj:
  assumes "nat_wf n t" "tcp_by_key t k = Some c" "tcp_by_key t k' = Some c'" "conn_id c = conn_id c'"
  shows "k = k'"
  using nat_wf_link[OF assms(1,2)] nat_wf_link[OF assms(1,3)] assms(4) by simp

lemma nat_wf_create:
  assumes wf: "nat_wf n t" and n: "n < 2 ^ 32" and fam: "key_family key"
  shows "nat_wf (Suc n) (snd (create_tcp_connection (key, isn) t))"
proof -
  have fresh: "tcp_by_id t (next_id t) = None"
    using nat_wf_ids[OF wf] n by (rule ids_within_fresh)
  have "ids_within 1 (Suc n) (next_id t + 1) ((tcp_by_id t)(next_id t \<mapsto> key))"
    using nat_wf_ids[OF wf] n by (rule ids_within_alloc)
  moreover have "conn_id c \<noteq> next_id t" if "tcp_by_key t k = Some c" for k c
    using nat_wf_link[OF wf that] fresh by auto
  ultimately show ?thesis
    using wf fam by (simp add: nat_wf_def create_tcp_connection_def Let_def) blast
qed

lemma nat_wf_modify:
  "nat_wf n t \<Longrightarrow> (\<And>c. conn_id (f c) = conn_id c) \<Longrightarrow> nat_wf n (modify_conn key f t)"
  unfolding nat_wf_def modify_conn_def by (simp split: option.split) metis

lemma nat_wf_close:
  assumes wf: "nat_wf n t"
  shows "nat_wf n (close_tcp_connection key t)"
proof (cases "tcp_by_key t key")
  case None
  with wf show ?thesis by (simp add: close_tcp_connection_def)
next
  case (Some c)
  have "ids_within 1 n (next_id t) ((tcp_by_id t)(conn_id c := None))"
    using nat_wf_ids[OF wf] by (rule ids_within_sub) (auto simp: map_le_def)
  moreover have "conn_id c' \<noteq> conn_id c" if "tcp_by_key t k = Some c'" "k \<noteq> key" for k c'
    using nat_wf_id_inj[OF wf that(1) Some] that(2) by blast
  ultimately show ?thesis
    using wf Some by (simp add: nat_wf_def close_tcp_connection_def)
qed

lemma nat_wf_set_state: "nat_wf n t \<Longrightarrow> nat_wf n (set_tcp_state key st t)"
  by (simp add: set_tcp_state_def nat_wf_modify)

lemma nat_wf_advance: "nat_wf n t \<Longrightarrow> nat_wf n (advance_tcp_seq i b t)"
  by (simp add: advance_tcp_seq_def nat_wf_modify split: option.splits)

lemma nat_wf_update_ack: "nat_wf n t \<Longrightarrow> nat_wf n (update_tcp_ack i a t)"
  by (simp add: update_tcp_ack_def nat_wf_modify split: option.splits)

lemma nat_wf_track:
  "nat_wf n t \<Longrightarrow> same_family s d \<Longrightarrow> nat_wf n (track_udp clock s sp d dp t)"
  by (auto simp: nat_wf_def track_udp_def cleanup_udp_mappings_def split: option.splits if_splits)

lemmas nat_wf_intros = nat_wf_create nat_wf_close nat_wf_set_state nat_wf_advance
  nat_wf_update_ack nat_wf_track

section \<open>Reading back\<close>

text \<open>
  The effect of every operation on the entry of its own key and on the others. On a table
  where the identifier \<open>i\<close> leads to \<open>key\<close>, the sequence operations act on its entry.
\<close>

named_theorems nat_simps "the effect of the table operations on its entries"

lemma create_simps [nat_simps]:
  "fst (create_tcp_connection (key, isn) t) = next_id t"
  "tcp_by_key (snd (create_tcp_connection (key, isn) t)) =
     (tcp_by_key t)(key \<mapsto> \<lparr>conn_id = next_id t, conn_state = SynSent, conn_seq = 1000,
                           conn_ack = isn + 1\<rparr>)"
  "tcp_by_id (snd (create_tcp_connection (key, isn) t)) = (tcp_by_id t)(next_id t \<mapsto> key)"
  "udp_mappings (snd (create_tcp_connection (key, isn) t)) = udp_mappings t"
  "next_id (snd (create_tcp_connection (key, isn) t)) = next_id t + 1"
  by (simp_all add: create_tcp_connection_def Let_def)

lemma modify_conn_simps [nat_simps]:
  "tcp_by_key (modify_conn key f t) = (tcp_by_key t)(key := map_option f (tcp_by_key t key))"
  "tcp_by_id (modify_conn key f t) = tcp_by_id t"
  "udp_mappings (modify_conn key f t) = udp_mappings t"
  "next_id (modify_conn key f t) = next_id t"
  by (auto simp: modify_conn_def fun_eq_iff split: option.splits)

lemma set_state_simps [nat_simps]:
  "tcp_by_key (set_tcp_state key st t) =
     (tcp_by_key t)(key := map_option (conn_state_update (\<lambda>_. st)) (tcp_by_key t key))"
  "tcp_by_id (set_tcp_state key st t) = tcp_by_id t"
  "udp_mappings (set_tcp_state key st t) = udp_mappings t"
  "next_id (set_tcp_state key st t) = next_id t"
  by (simp_all add: set_tcp_state_def nat_simps)

lemma close_simps [nat_simps]:
  "tcp_by_key (close_tcp_connection key t) = (tcp_by_key t)(key := None)"
  "tcp_by_id (close_tcp_connection key t) =
     (case tcp_by_key t key of None \<Rightarrow> tcp_by_id t
      | Some c \<Rightarrow> (tcp_by_id t)(conn_id c := None))"
  "udp_mappings (close_tcp_connection key t) = udp_mappings t"
  "next_id (close_tcp_connection key t) = next_id t"
  by (auto simp: close_tcp_connection_def fun_eq_iff split: option.splits)

lemma advance_simps [nat_simps]:
  "tcp_by_id t i = Some key \<Longrightarrow> tcp_by_key (advance_tcp_seq i n t) =
     (tcp_by_key t)(key := map_option (\<lambda>c. c\<lparr>conn_seq := conn_seq c + n\<rparr>) (tcp_by_key t key))"
  "tcp_by_id t i = None \<Longrightarrow> advance_tcp_seq i n t = t"
  "tcp_by_id (advance_tcp_seq i n t) = tcp_by_id t"
  "udp_mappings (advance_tcp_seq i n t) = udp_mappings t"
  "next_id (advance_tcp_seq i n t) = next_id t"
  by (auto simp: advance_tcp_seq_def nat_simps split: option.splits)

lemma update_ack_simps [nat_simps]:
  "tcp_by_id t i = Some key \<Longrightarrow> tcp_by_key (update_tcp_ack i a t) =
     (tcp_by_key t)(key := map_option (\<lambda>c. c\<lparr>conn_ack := a\<rparr>) (tcp_by_key t key))"
  "tcp_by_id t i = None \<Longrightarrow> update_tcp_ack i a t = t"
  "tcp_by_id (update_tcp_ack i a t) = tcp_by_id t"
  "udp_mappings (update_tcp_ack i a t) = udp_mappings t"
  "next_id (update_tcp_ack i a t) = next_id t"
  by (auto simp: update_tcp_ack_def nat_simps split: option.splits)

lemma get_simps [nat_simps]:
  "tcp_by_id t i = Some key \<Longrightarrow> tcp_by_key t key = Some c \<Longrightarrow> get_tcp_seq i t = conn_seq c"
  "tcp_by_id t i = Some key \<Longrightarrow> tcp_by_key t key = Some c \<Longrightarrow> get_tcp_ack i t = conn_ack c"
  by (simp_all add: get_tcp_seq_def get_tcp_ack_def conn_of_id_def)

section \<open>UDP return paths\<close>

text \<open>
  One \<open>track_udp\<close> call: its two clock readings and its arguments; and what a history of
  such calls should leave for a key: the source of the last call for it, as long as that call
  is less than a minute older than the last call of all.
\<close>

type_synonym udp_call = "(Instant \<times> Instant) \<times> IpAddr \<times> u16 \<times> IpAddr \<times> u16"

fun call_key :: "udp_call \<Rightarrow> UdpKey3" where
  "call_key (clock, s, sp, d, dp) = (sp, d, dp)"

fun do_track :: "udp_call \<Rightarrow> NatTable \<Rightarrow> NatTable" where
  "do_track (clock, s, sp, d, dp) t = track_udp clock s sp d dp t"

definition udp_spec :: "udp_call list \<Rightarrow> UdpKey3 \<Rightarrow> UdpMapping option" where
  "udp_spec calls k =
     (case find (\<lambda>c. call_key c = k) (rev calls) of
        None \<Rightarrow> None
      | Some c \<Rightarrow>
          (if snd (fst (last calls)) - fst (fst c) < udp_timeout
           then Some \<lparr>map_src_ip = fst (snd c), last_activity = fst (fst c)\<rparr> else None))"

text \<open>The clock is monotonic within and across calls.\<close>

fun clock_ok :: "Instant \<Rightarrow> udp_call list \<Rightarrow> bool" where
  "clock_ok now [] = True"
| "clock_ok now (c # cs) \<longleftrightarrow> now \<le> fst (fst c) \<and> fst (fst c) \<le> snd (fst c) \<and> clock_ok (snd (fst c)) cs"

lemma clock_ok_snoc:
  "clock_ok now (cs @ [c]) \<longleftrightarrow> clock_ok now cs \<and>
     (if cs = [] then now else snd (fst (last cs))) \<le> fst (fst c) \<and> fst (fst c) \<le> snd (fst c)"
  by (induction cs arbitrary: now) auto

lemma find_rev_snoc: "find P (rev (xs @ [x])) = (if P x then Some x else find P (rev xs))"
  by simp

lemma udp_mappings_spec:
  "clock_ok now calls \<Longrightarrow> udp_mappings t = Map.empty \<Longrightarrow>
   udp_mappings (fold do_track calls t) = udp_spec calls"
proof (induction calls rule: rev_induct)
  case Nil
  then show ?case by (simp add: udp_spec_def fun_eq_iff)
next
  case (snoc c calls)
  obtain clock s sp d dp where c: "c = (clock, s, sp, d, dp)" by (cases c)
  let ?old = "udp_spec calls"
  have old: "udp_mappings (fold do_track calls t) = ?old"
    using snoc by (simp add: clock_ok_snoc)
  have later: "snd (fst (last calls)) \<le> snd clock" if "calls \<noteq> []"
    using snoc.prems(1) that by (auto simp: clock_ok_snoc c)
  show ?case
  proof
    fix k
    show "udp_mappings (fold do_track (calls @ [c]) t) k = udp_spec (calls @ [c]) k"
    proof (cases "k = (sp, d, dp)")
      case True
      then show ?thesis by (simp add: c udp_spec_def track_udp_def cleanup_udp_mappings_def)
    next
      case False
      then have "calls \<noteq> []" if "find (\<lambda>c. call_key c = k) (rev calls) = Some c'" for c'
        using that by auto
      with False old later show ?thesis
        by (auto simp: c udp_spec_def track_udp_def cleanup_udp_mappings_def split: option.splits)
    qed
  qed
qed

section \<open>Properties of the table\<close>

text \<open>
  The tables the host can reach: any interleaving of the operations from the empty table,
  \<open>n\<close> counting the connections created. Keys and UDP flows have one address family, which
  \<open>parse_ip_packet\<close> ensures (\<open>parse_ip_packet_family\<close> in \<open>Packet\<close>).
\<close>

inductive nat_reachable :: "nat \<Rightarrow> NatTable \<Rightarrow> bool" where
  reach_new: "nat_reachable 0 nat_new"
| reach_create: "nat_reachable n t \<Longrightarrow> key_family key \<Longrightarrow>
    nat_reachable (Suc n) (snd (create_tcp_connection (key, isn) t))"
| reach_close: "nat_reachable n t \<Longrightarrow> nat_reachable n (close_tcp_connection key t)"
| reach_state: "nat_reachable n t \<Longrightarrow> nat_reachable n (set_tcp_state key st t)"
| reach_seq: "nat_reachable n t \<Longrightarrow> nat_reachable n (advance_tcp_seq i b t)"
| reach_ack: "nat_reachable n t \<Longrightarrow> nat_reachable n (update_tcp_ack i a t)"
| reach_udp: "nat_reachable n t \<Longrightarrow> same_family s d \<Longrightarrow>
    nat_reachable n (track_udp clock s sp d dp t)"

lemma nat_reachable_wf: "nat_reachable n t \<Longrightarrow> n \<le> 2 ^ 32 \<Longrightarrow> nat_wf n t"
  by (induction rule: nat_reachable.induct) (simp_all add: nat_wf_new nat_wf_intros)

text \<open>
  C15: In every table reachable with at most \<open>2\<^sup>3\<^sup>2\<close> created connections, the two maps
  agree on the live connections: different keys have different identifiers, and the
  identifier of a connection leads back to its key and reads that connection's own sequence
  numbers, whatever was created, closed and updated in between.
\<close>

theorem live_connections_consistent:
  assumes "nat_reachable n t" "n \<le> 2 ^ 32"
    and "tcp_by_key t key = Some c" "tcp_by_key t key' = Some c'"
  shows "get_tcp_connection_key (conn_id c) t = Some key \<and>
    get_tcp_seq (conn_id c) t = conn_seq c \<and> get_tcp_ack (conn_id c) t = conn_ack c \<and>
    (key \<noteq> key' \<longrightarrow> conn_id c \<noteq> conn_id c')"
proof -
  have wf: "nat_wf n t" using assms(1,2) by (rule nat_reachable_wf)
  note link = nat_wf_link[OF wf assms(3)]
  show ?thesis
    using link get_simps[OF link assms(3)] nat_wf_id_inj[OF wf assms(3,4)]
    by (auto simp: get_tcp_connection_key_def)
qed

theorem live_connections_consistent_witness:
  "\<exists>t. get_tcp_connection_key 1 t = Some (V4 1, 40000, V4 2, 80) \<and> get_tcp_ack 1 t = 8 \<and>
     get_tcp_connection_key 2 t = Some (V4 1, 40001, V4 2, 80)"
proof -
  let ?k1 = "(V4 1, 40000, V4 2, 80) :: TcpKey" and ?k2 = "(V4 1, 40001, V4 2, 80) :: TcpKey"
  let ?t1 = "snd (create_tcp_connection (?k1, 7) nat_new)"
  let ?t = "snd (create_tcp_connection (?k2, 9) ?t1)"
  have reach: "nat_reachable (Suc (Suc 0)) ?t"
    by (intro reach_create reach_new) (simp_all add: key_family_def)
  have c: "tcp_by_key ?t ?k1 = Some \<lparr>conn_id = 1, conn_state = SynSent, conn_seq = 1000, conn_ack = 8\<rparr>"
    "tcp_by_key ?t ?k2 = Some \<lparr>conn_id = 2, conn_state = SynSent, conn_seq = 1000, conn_ack = 10\<rparr>"
    by (simp_all add: nat_simps nat_new_def)
  show ?thesis
    using live_connections_consistent[OF reach _ c(1) c(2)]
      live_connections_consistent[OF reach _ c(2) c(1)]
    by (intro exI[of _ ?t]) simp
qed

text \<open>The identifiers of consecutive \<open>create_tcp_connection\<close> calls.\<close>

fun created_ids :: "(TcpKey \<times> u32) list \<Rightarrow> NatTable \<Rightarrow> u32 list" where
  "created_ids [] t = []"
| "created_ids (syn # syns) t =
     (let (i, t') = create_tcp_connection syn t in i # created_ids syns t')"

lemma created_ids_alloc: "created_ids syns t = fst (nat_ids.alloc_all syns t)"
  by (induction syns arbitrary: t) (simp_all add: Let_def split_beta)

text \<open>
  C39: The identifiers of a run of new connections are pairwise different exactly up to
  \<open>2\<^sup>3\<^sup>2\<close> of them: the counter wraps, and nothing keeps it from an identifier in use.
\<close>

theorem tcp_ids_distinct_iff:
  "distinct (created_ids syns t) \<longleftrightarrow> length syns \<le> 2 ^ 32"
  unfolding created_ids_alloc by (rule nat_ids.alloc_all_distinct)

text \<open>
  C29: The UDP return path: after any history of outgoing datagrams on a monotonic clock, the
  address a reply is sent to is the source of the last datagram with the mirrored ports and peer,
  provided that this one was less than a minute old when the last datagram of all was tracked;
  otherwise there is none. So the lookup itself checks no age: until the next datagram of any
  flow, a mapping of any age still counts. Later datagrams of other flows never change it.
\<close>

theorem udp_return_path:
  assumes "clock_ok now calls"
  shows "get_udp_src_ip p a q (fold do_track calls nat_new) =
    (case find (\<lambda>c. call_key c = (p, a, q)) (rev calls) of
       None \<Rightarrow> None
     | Some c \<Rightarrow> if snd (fst (last calls)) - fst (fst c) < udp_timeout then Some (fst (snd c)) else None)"
proof -
  have "udp_mappings (fold do_track calls nat_new) = udp_spec calls"
    using assms by (rule udp_mappings_spec) (simp add: nat_new_def)
  then show ?thesis
    by (simp add: get_udp_src_ip_def udp_spec_def split: option.split)
qed

theorem udp_return_path_witness:
  "get_udp_src_ip 5000 (V4 9) 53
     (fold do_track [((10, 11), V4 1, 5000, V4 9, 53), ((20, 21), V4 2, 6000, V4 9, 53)] nat_new)
   = Some (V4 1)"
  by (subst udp_return_path[where now = 0]) simp_all

end
