(* ===== verification/Dns.thy ===== *)
theory Dns
  imports Nat_Table Protocol
begin

text \<open>
  \<open>src/src/host/dns.rs\<close>: the DNS forwarder of the host. A query from a local client gets
  an identifier, its sender is remembered, and the query goes to the remote; the response
  with that identifier goes back to that sender. \<open>dns_sent\<close> is the record of the
  datagrams handed to \<open>socket.send_to\<close> (whose failure is only logged).
\<close>

record DnsState =
  dns_server :: IpAddr
  pending :: "u32 \<rightharpoonup> SocketAddr"
  dns_next_id :: u32
  dns_sent :: "(bytes \<times> SocketAddr) list"

definition dns_new :: "IpAddr \<Rightarrow> DnsState" where
  "dns_new server = \<lparr>dns_server = server, pending = Map.empty, dns_next_id = 0, dns_sent = []\<rparr>"

definition register_query :: "SocketAddr \<Rightarrow> DnsState \<Rightarrow> u32 \<times> DnsState" where
  "register_query sender d =
     (dns_next_id d,
      d\<lparr>dns_next_id := dns_next_id d + 1, pending := (pending d)(dns_next_id d \<mapsto> sender)\<rparr>)"

definition handle_query ::
  "bytes \<Rightarrow> SocketAddr \<Rightarrow> (unit, DnsState \<times> HostMessage chan) stmt"
where
  "handle_query data sender = (\<lambda>(d, ch).
     let (i, d1) = register_query sender d
     in case chan_send (DnsQuery i (dns_server d) data) ch of
          Sent ch' \<Rightarrow> (Done, (d1, ch'))
        | SendClosed \<Rightarrow> (Done, (d1\<lparr>pending := (pending d1)(i := None)\<rparr>, ch))
        | SendFull \<Rightarrow> (Blocked, (d1, ch)))"

definition handle_response :: "u32 \<Rightarrow> bytes \<Rightarrow> DnsState \<Rightarrow> DnsState" where
  "handle_response i data d =
     (let d1 = d\<lparr>pending := (pending d)(i := None)\<rparr>
      in case pending d i of
           Some addr \<Rightarrow> d1\<lparr>dns_sent := dns_sent d1 @ [(data, addr)]\<rparr>
         | None \<Rightarrow> d1)"

interpretation dns_ids: id_allocator dns_next_id pending register_query "\<lambda>s. s"
  by unfold_locales (simp_all add: register_query_def)

section \<open>Refinement: unbounded query numbers\<close>

text \<open>
  What the forwarder promises: queries are numbered 0, 1, 2, \<dots>; a response to an
  outstanding query goes to the sender of that query and settles it, any other response
  is dropped. \<open>dns_spec\<close> is the list of datagrams this produces.
\<close>

datatype dns_event = Query bytes SocketAddr | Response u32 bytes

fun dns_spec :: "nat \<Rightarrow> (nat \<rightharpoonup> SocketAddr) \<Rightarrow> dns_event list \<Rightarrow> (bytes \<times> SocketAddr) list"
where
  "dns_spec n open [] = []"
| "dns_spec n open (Query data sender # es) = dns_spec (Suc n) (open(n \<mapsto> sender)) es"
| "dns_spec n open (Response i data # es) =
     (case open (unat i) of
        None \<Rightarrow> dns_spec n open es
      | Some addr \<Rightarrow> (data, addr) # dns_spec n (open(unat i := None)) es)"

text \<open>The queries that reach the remote, in order, each with its number.\<close>

fun dns_requests :: "IpAddr \<Rightarrow> nat \<Rightarrow> dns_event list \<Rightarrow> HostMessage list" where
  "dns_requests server n [] = []"
| "dns_requests server n (Query data sender # es) =
     DnsQuery (word_of_nat n) server data # dns_requests server (Suc n) es"
| "dns_requests server n (Response i data # es) = dns_requests server n es"

fun dns_step :: "dns_event \<Rightarrow> (unit, DnsState \<times> HostMessage chan) stmt" where
  "dns_step (Query data sender) = handle_query data sender"
| "dns_step (Response i data) = (\<lambda>(d, ch). (Done, (handle_response i data d, ch)))"

text \<open>The concrete identifiers represent the query numbers below \<open>n\<close>.\<close>

definition dns_rel :: "nat \<Rightarrow> (nat \<rightharpoonup> SocketAddr) \<Rightarrow> DnsState \<Rightarrow> bool" where
  "dns_rel n open d \<longleftrightarrow>
     dns_next_id d = word_of_nat n \<and> (\<forall>i. pending d i = open (unat i)) \<and>
     (\<forall>k a. open k = Some a \<longrightarrow> k < n)"

lemma dns_rel_query:
  assumes "dns_rel n open d" "n < 2 ^ 32"
  shows "dns_rel (Suc n) (open(n \<mapsto> sender)) (snd (register_query sender d))"
proof -
  have "i = word_of_nat n \<longleftrightarrow> unat i = n" for i :: u32
    using assms(2) by (simp add: word_eq_iff_unsigned[where ?'a = nat] unat_of_nat)
  with assms show ?thesis
    by (auto simp: dns_rel_def register_query_def less_Suc_eq algebra_simps)
qed

lemma dns_rel_response:
  assumes "dns_rel n open d"
  shows "dns_rel n (open(unat i := None)) (handle_response i data d)"
  using assms
  by (auto simp: dns_rel_def handle_response_def Let_def word_eq_iff_unsigned[where ?'a = nat]
      split: option.splits)

lemma dns_run_spec:
  assumes "dns_rel n open d" and "room (length evs) ch"
    and "n + length [e \<leftarrow> evs. case e of Query _ _ \<Rightarrow> True | _ \<Rightarrow> False] \<le> 2 ^ 32"
  shows "\<exists>d' ch'. exec (map dns_step evs) (d, ch) = (Done, (d', ch')) \<and>
    dns_sent d' = dns_sent d @ dns_spec n open evs \<and>
    ch_queue ch' = ch_queue ch @ dns_requests (dns_server d) n evs"
  using assms
proof (induction evs arbitrary: n "open" d ch)
  case Nil
  then show ?case by simp
next
  case (Cons e evs)
  show ?case
  proof (cases e)
    case (Query data sender)
    let ?d = "snd (register_query sender d)"
    from Cons.prems(2) obtain ch1 where send: "chan_send (DnsQuery (fst (register_query sender d)) (dns_server d) data) ch = Sent ch1"
      and ch1: "room (length evs) ch1"
      and q1: "ch_queue ch1 = ch_queue ch @ [DnsQuery (fst (register_query sender d)) (dns_server d) data]"
      by (auto simp: flow_simps dest: chan_send_room)
    have rel: "dns_rel (Suc n) (open(n \<mapsto> sender)) ?d"
      using Cons.prems(1,3) by (intro dns_rel_query) (simp_all add: Query)
    have "dns_sent ?d = dns_sent d" "dns_server ?d = dns_server d"
      "fst (register_query sender d) = word_of_nat n"
      using Cons.prems(1) by (simp_all add: register_query_def dns_rel_def)
    moreover have "Suc n + length [e \<leftarrow> evs. case e of Query _ _ \<Rightarrow> True | _ \<Rightarrow> False] \<le> 2 ^ 32"
      using Cons.prems(3) by (simp add: Query)
    from Cons.IH[OF rel ch1 this] obtain d' ch' where "exec (map dns_step evs) (?d, ch1) = (Done, (d', ch'))"
      "dns_sent d' = dns_sent ?d @ dns_spec (Suc n) (open(n \<mapsto> sender)) evs"
      "ch_queue ch' = ch_queue ch1 @ dns_requests (dns_server ?d) (Suc n) evs"
      by blast
    ultimately show ?thesis
      using send q1 by (simp add: Query handle_query_def split_beta)
  next
    case (Response i data)
    have rel: "dns_rel n (open(unat i := None)) (handle_response i data d)"
      by (rule dns_rel_response) (rule Cons.prems(1))
    have ch: "room (length evs) ch" using Cons.prems(2) by (rule room_mono) simp
    have p: "pending d i = open (unat i)" using Cons.prems(1) by (simp add: dns_rel_def)
    have same: "open(unat i := None) = open" if "open (unat i) = None"
      using that by (simp add: fun_upd_idem)
    have "n + length [e \<leftarrow> evs. case e of Query _ _ \<Rightarrow> True | _ \<Rightarrow> False] \<le> 2 ^ 32"
      using Cons.prems(3) by (simp add: Response)
    from Cons.IH[OF rel ch this] obtain d' ch'
      where "exec (map dns_step evs) (handle_response i data d, ch) = (Done, (d', ch'))"
        "dns_sent d' = dns_sent (handle_response i data d) @ dns_spec n (open(unat i := None)) evs"
        "ch_queue ch' = ch_queue ch @ dns_requests (dns_server (handle_response i data d)) n evs"
      by blast
    then show ?thesis
      by (simp add: Response p same handle_response_def Let_def split: option.split)
  qed
qed

section \<open>Properties of the forwarder\<close>

text \<open>
  C23: Started afresh, with at most \<open>2\<^sup>3\<^sup>2\<close> queries and room in the channel to the
  remote, the forwarder gives every query to the remote under its number and sends every
  response to the one local client whose query it answers, once; duplicates and unknown
  identifiers are dropped.
\<close>

theorem dns_forwarder_refines:
  assumes "room (length evs) ch"
    and "length [e \<leftarrow> evs. case e of Query _ _ \<Rightarrow> True | _ \<Rightarrow> False] \<le> 2 ^ 32"
  shows "\<exists>d' ch'. exec (map dns_step evs) (dns_new server, ch) = (Done, (d', ch')) \<and>
    dns_sent d' = dns_spec 0 Map.empty evs \<and>
    ch_queue ch' = ch_queue ch @ dns_requests server 0 evs"
proof -
  have "dns_rel 0 Map.empty (dns_new server)" by (simp add: dns_rel_def dns_new_def)
  from dns_run_spec[OF this assms(1)] assms(2) show ?thesis by (simp add: dns_new_def)
qed

theorem dns_forwarder_refines_witness:
  "\<exists>d' ch'. exec (map dns_step
      [Query [1] (V4 1, 5000), Query [2] (V4 1, 5001), Response 1 [3], Response 1 [4]])
      (dns_new (V4 8), new_chan 1024) = (Done, (d', ch')) \<and>
    dns_sent d' = [([3], (V4 1, 5001))] \<and>
    ch_queue ch' = [DnsQuery 0 (V4 8) [1], DnsQuery 1 (V4 8) [2]]"
  using dns_forwarder_refines[of
      "[Query [1] (V4 1, 5000), Query [2] (V4 1, 5001), Response 1 [3], Response 1 [4]]"
      "new_chan 1024" "V4 8"]
  by (simp add: room_def new_chan_def del: exec.simps)

end
