(* ===== verification/Host_Handlers.thy ===== *)
theory Host_Handlers
  imports Wire Nat_Table Dns
begin

text \<open>
  \<open>src/src/host/mod.rs\<close>, lines 28-34 and 250-685: the handlers of the host. A handler runs
  to its end inside one iteration of the host's event loop, so it is a sequence of
  statements over the connection table, the two outgoing channels and the DNS state. The
  order of the statements is the order of the code: what happened before a failed or a
  waiting \<open>send\<close> stays.
\<close>

section \<open>State and statements\<close>

record Host =
  nat_table :: NatTable
  to_remote :: "HostMessage chan"
  to_tun :: "bytes chan"
  dns_state :: "DnsState option"

datatype handler_error = SendError | PacketError packet_error

type_synonym host_stmt = "(handler_error, Host) stmt"

definition upd_nat :: "(NatTable \<Rightarrow> NatTable) \<Rightarrow> host_stmt" where
  "upd_nat f s = (Done, s\<lparr>nat_table := f (nat_table s)\<rparr>)"

definition send_remote :: "HostMessage \<Rightarrow> host_stmt" where
  "send_remote m s =
     (case chan_send m (to_remote s) of
        Sent ch \<Rightarrow> (Done, s\<lparr>to_remote := ch\<rparr>)
      | SendClosed \<Rightarrow> (Failed SendError, s)
      | SendFull \<Rightarrow> (Blocked, s))"

definition send_tun :: "bytes \<Rightarrow> host_stmt" where
  "send_tun pkt s =
     (case chan_send pkt (to_tun s) of
        Sent ch \<Rightarrow> (Done, s\<lparr>to_tun := ch\<rparr>)
      | SendClosed \<Rightarrow> (Failed SendError, s)
      | SendFull \<Rightarrow> (Blocked, s))"

text \<open>\<open>let pkt = \<dots>.build();\<close> followed by the statements that use it.\<close>

definition with_built :: "(packet_error, bytes) outcome \<Rightarrow> (bytes \<Rightarrow> host_stmt) \<Rightarrow> host_stmt" where
  "with_built b k s =
     (case b of
        Ok pkt \<Rightarrow> k pkt s
      | Err e \<Rightarrow> (Failed (PacketError e), s)
      | Panic \<Rightarrow> (Panicked, s))"

definition payload_len_u32 :: "nat \<Rightarrow> u32" where
  "payload_len_u32 len = (if len < 2 ^ 32 then word_of_nat len else 0xFFFFFFFF)"

text \<open>The reply packets all swap the ends of the connection key.\<close>

definition reply_packet ::
  "TcpKey \<Rightarrow> u32 \<Rightarrow> u32 \<Rightarrow> TcpFlags \<Rightarrow> u16 \<Rightarrow> bytes \<Rightarrow> TcpPacket"
where
  "reply_packet key sq ak flags window payload =
     (case key of (k0, k1, k2, k3) \<Rightarrow>
        \<lparr>tp_src_ip = k2, tp_dst_ip = k0, tp_src_port = k3, tp_dst_port = k1,
         tp_seq = sq, tp_ack = ak, tp_flags = flags, tp_window = window, tp_payload = payload\<rparr>)"

section \<open>Packets from the application\<close>

definition outbound_syn :: "TcpKey \<Rightarrow> TcpPacketInfo \<Rightarrow> host_stmt" where
  "outbound_syn key tcp s =
     (let (cid, t) = create_tcp_connection (key, tcp_seq tcp) (nat_table s)
      in send_remote (TcpConnect cid (tcp_dst_ip tcp) (tcp_dst_port tcp)) (s\<lparr>nat_table := t\<rparr>))"

definition send_ack :: "etherparse \<Rightarrow> TcpKey \<Rightarrow> u32 \<Rightarrow> host_stmt" where
  "send_ack ep key cid = with_state (\<lambda>s.
     with_built
       (tcp_build ep (reply_packet key (get_tcp_seq cid (nat_table s)) (get_tcp_ack cid (nat_table s))
          (no_flags\<lparr>ack := True\<rparr>) 65535 []))
       send_tun)"

definition outbound_established_fin ::
  "etherparse \<Rightarrow> TcpKey \<Rightarrow> u32 \<Rightarrow> TcpPacketInfo \<Rightarrow> host_stmt"
where
  "outbound_established_fin ep key cid tcp = exec
     [upd_nat (update_tcp_ack cid
        (tcp_seq tcp + payload_len_u32 (length (tcp_payload tcp)) + 1)),
      if tcp_payload tcp \<noteq> [] then send_remote (HostMessage.TcpData cid (tcp_payload tcp))
      else exec [],
      send_ack ep key cid,
      send_remote (TcpClose cid),
      upd_nat (set_tcp_state key FinWait)]"

text \<open>Data is forwarded only at the expected sequence number; it is acknowledged in any case.\<close>

definition forward_in_order :: "u32 \<Rightarrow> TcpPacketInfo \<Rightarrow> host_stmt" where
  "forward_in_order cid tcp = with_state (\<lambda>s.
     if tcp_seq tcp = get_tcp_ack cid (nat_table s)
     then exec
       [upd_nat (update_tcp_ack cid (tcp_seq tcp + payload_len_u32 (length (tcp_payload tcp)))),
        send_remote (HostMessage.TcpData cid (tcp_payload tcp))]
     else exec [])"

definition outbound_established_data ::
  "etherparse \<Rightarrow> TcpKey \<Rightarrow> u32 \<Rightarrow> TcpPacketInfo \<Rightarrow> host_stmt"
where
  "outbound_established_data ep key cid tcp = exec [forward_in_order cid tcp, send_ack ep key cid]"

definition outbound_established ::
  "etherparse \<Rightarrow> TcpKey \<Rightarrow> u32 \<Rightarrow> TcpPacketInfo \<Rightarrow> host_stmt"
where
  "outbound_established ep key cid tcp =
     (if fin (tcp_flags tcp) then outbound_established_fin ep key cid tcp
      else if tcp_payload tcp \<noteq> [] then outbound_established_data ep key cid tcp
      else exec [])"

definition outbound_close_wait ::
  "etherparse \<Rightarrow> TcpKey \<Rightarrow> u32 \<Rightarrow> TcpPacketInfo \<Rightarrow> host_stmt"
where
  "outbound_close_wait ep key cid tcp =
     (if fin (tcp_flags tcp) then exec
        [upd_nat (update_tcp_ack cid (tcp_seq tcp + 1)),
         send_ack ep key cid,
         upd_nat (close_tcp_connection key)]
      else exec [])"

definition tcp_key :: "TcpPacketInfo \<Rightarrow> TcpKey" where
  "tcp_key tcp = (tcp_src_ip tcp, tcp_src_port tcp, tcp_dst_ip tcp, tcp_dst_port tcp)"

definition outbound_known :: "etherparse \<Rightarrow> TcpKey \<Rightarrow> u32 \<Rightarrow> TcpPacketInfo \<Rightarrow> host_stmt" where
  "outbound_known ep key cid tcp =
     (if rst (tcp_flags tcp)
      then exec [upd_nat (close_tcp_connection key), send_remote (TcpClose cid)]
      else with_state (\<lambda>s.
        case get_tcp_state key (nat_table s) of
          Some Established \<Rightarrow> outbound_established ep key cid tcp
        | Some CloseWait \<Rightarrow> outbound_close_wait ep key cid tcp
        | Some LastAck \<Rightarrow>
            (if ack (tcp_flags tcp) then exec [upd_nat (close_tcp_connection key)] else exec [])
        | Some FinWait \<Rightarrow> exec []
        | _ \<Rightarrow> exec []))"

definition handle_outbound_tcp :: "etherparse \<Rightarrow> TcpPacketInfo \<Rightarrow> host_stmt" where
  "handle_outbound_tcp ep tcp =
     (let key = tcp_key tcp in
      if syn (tcp_flags tcp) \<and> \<not> ack (tcp_flags tcp) then outbound_syn key tcp
      else with_state (\<lambda>s.
        case get_tcp_connection_id key (nat_table s) of
          None \<Rightarrow> exec []
        | Some cid \<Rightarrow> outbound_known ep key cid tcp))"

definition handle_outbound_udp :: "Instant \<times> Instant \<Rightarrow> UdpPacketInfo \<Rightarrow> host_stmt" where
  "handle_outbound_udp clock udp = exec
     [upd_nat (track_udp clock (udp_src_ip udp) (udp_src_port udp) (udp_dst_ip udp) (udp_dst_port udp)),
      send_remote (UdpDatagram (udp_src_port udp) (udp_dst_ip udp) (udp_dst_port udp) (udp_payload udp))]"

definition handle_tun_packet :: "etherparse \<Rightarrow> Instant \<times> Instant \<Rightarrow> bytes \<Rightarrow> host_stmt" where
  "handle_tun_packet ep clock data =
     (case parse_ip_packet ep data of
        Panic \<Rightarrow> (\<lambda>s. (Panicked, s))
      | Err e \<Rightarrow> (\<lambda>s. (Failed (PacketError e), s))
      | Ok (Tcp tcp) \<Rightarrow> handle_outbound_tcp ep tcp
      | Ok (Udp udp) \<Rightarrow> handle_outbound_udp clock udp
      | Ok (Other protocol) \<Rightarrow> exec [])"

section \<open>Messages from the remote\<close>

abbreviation max_tcp_payload :: nat where "max_tcp_payload \<equiv> 65495"

text \<open>\<open>data.chunks(n)\<close>, for the positive \<open>n\<close> of the code.\<close>

function chunks :: "nat \<Rightarrow> 'a list \<Rightarrow> 'a list list" where
  "chunks n xs = (if xs = [] \<or> n = 0 then [] else take n xs # chunks n (drop n xs))"
  by pat_completeness auto
termination
  by (relation "measure (length \<circ> snd)") auto

declare chunks.simps [simp del]

definition send_chunk :: "etherparse \<Rightarrow> TcpKey \<Rightarrow> u32 \<Rightarrow> bytes \<Rightarrow> bool \<Rightarrow> host_stmt" where
  "send_chunk ep key i chunk is_last = with_state (\<lambda>s.
     with_built
       (tcp_build ep (reply_packet key (get_tcp_seq i (nat_table s)) (get_tcp_ack i (nat_table s))
          (no_flags\<lparr>ack := True, psh := is_last\<rparr>) 65535 chunk))
       (\<lambda>pkt. exec [upd_nat (advance_tcp_seq i (payload_len_u32 (length chunk))), send_tun pkt]))"

text \<open>
  The loop over the chunks of \<open>data\<close>: a chunk is the last one when its end is the end of
  the data, \<open>off\<close> being where it starts.
\<close>

fun chunk_stmts ::
  "etherparse \<Rightarrow> TcpKey \<Rightarrow> u32 \<Rightarrow> nat \<Rightarrow> nat \<Rightarrow> bytes list \<Rightarrow> host_stmt list"
where
  "chunk_stmts ep key i len off [] = []"
| "chunk_stmts ep key i len off (c # cs) =
     send_chunk ep key i c (off + length c = len)
       # chunk_stmts ep key i len (off + length c) cs"

definition remote_tcp_connected :: "etherparse \<Rightarrow> TcpKey \<Rightarrow> u32 \<Rightarrow> host_stmt" where
  "remote_tcp_connected ep key i = exec
     [upd_nat (set_tcp_state key Established),
      with_state (\<lambda>s. with_built
        (tcp_build ep (reply_packet key (get_tcp_seq i (nat_table s)) (get_tcp_ack i (nat_table s))
           (no_flags\<lparr>syn := True, ack := True\<rparr>) 65535 []))
        (\<lambda>pkt. exec [upd_nat (advance_tcp_seq_syn i), send_tun pkt]))]"

definition remote_tcp_data :: "etherparse \<Rightarrow> TcpKey \<Rightarrow> u32 \<Rightarrow> bytes \<Rightarrow> host_stmt" where
  "remote_tcp_data ep key i data =
     exec (chunk_stmts ep key i (length data) 0 (chunks max_tcp_payload data))"

definition send_fin :: "etherparse \<Rightarrow> TcpKey \<Rightarrow> u32 \<Rightarrow> ConnectionState \<Rightarrow> host_stmt" where
  "send_fin ep key i next_state = exec
     [with_state (\<lambda>s. with_built
        (tcp_build ep (reply_packet key (get_tcp_seq i (nat_table s)) (get_tcp_ack i (nat_table s))
           (no_flags\<lparr>fin := True, ack := True\<rparr>) 65535 []))
        (\<lambda>pkt. exec [upd_nat (advance_tcp_seq i 1), send_tun pkt])),
      upd_nat (set_tcp_state key next_state)]"

definition remote_tcp_closed :: "etherparse \<Rightarrow> TcpKey \<Rightarrow> u32 \<Rightarrow> host_stmt" where
  "remote_tcp_closed ep key i = with_state (\<lambda>s.
     case get_tcp_state key (nat_table s) of
       Some Established \<Rightarrow> send_fin ep key i CloseWait
     | Some FinWait \<Rightarrow> send_fin ep key i LastAck
     | _ \<Rightarrow> exec [upd_nat (close_tcp_connection key)])"

definition remote_tcp_error :: "etherparse \<Rightarrow> TcpKey \<Rightarrow> host_stmt" where
  "remote_tcp_error ep key = exec
     [with_built (tcp_build ep (reply_packet key 0 0 (no_flags\<lparr>rst := True\<rparr>) 0 [])) send_tun,
      upd_nat (close_tcp_connection key)]"

definition remote_udp_response ::
  "etherparse \<Rightarrow> u16 \<Rightarrow> IpAddr \<Rightarrow> u16 \<Rightarrow> bytes \<Rightarrow> host_stmt"
where
  "remote_udp_response ep dst_port src_ip src_port data = with_state (\<lambda>s.
     case get_udp_src_ip dst_port src_ip src_port (nat_table s) of
       Some original_src_ip \<Rightarrow>
         with_built
           (udp_build ep \<lparr>up_src_ip = src_ip, up_dst_ip = original_src_ip,
                          up_src_port = src_port, up_dst_port = dst_port, up_payload = data\<rparr>)
           send_tun
     | None \<Rightarrow> exec [])"

definition remote_dns_response :: "u32 \<Rightarrow> bytes \<Rightarrow> host_stmt" where
  "remote_dns_response i data s =
     (case dns_state s of
        Some d \<Rightarrow> (Done, s\<lparr>dns_state := Some (handle_response i data d)\<rparr>)
      | None \<Rightarrow> (Done, s))"

text \<open>\<open>if let Some(key) = nat_table.get_tcp_connection_key(id)\<close>.\<close>

definition for_key :: "u32 \<Rightarrow> (TcpKey \<Rightarrow> host_stmt) \<Rightarrow> host_stmt" where
  "for_key i k = with_state (\<lambda>s.
     case get_tcp_connection_key i (nat_table s) of None \<Rightarrow> exec [] | Some key \<Rightarrow> k key)"

fun handle_remote_message :: "etherparse \<Rightarrow> RemoteMessage \<Rightarrow> host_stmt" where
  "handle_remote_message ep (TcpConnected i) = for_key i (\<lambda>key. remote_tcp_connected ep key i)"
| "handle_remote_message ep (RemoteMessage.TcpData i data) =
     for_key i (\<lambda>key. remote_tcp_data ep key i data)"
| "handle_remote_message ep (TcpClosed i) = for_key i (\<lambda>key. remote_tcp_closed ep key i)"
| "handle_remote_message ep (TcpError i error) = for_key i (\<lambda>key. remote_tcp_error ep key)"
| "handle_remote_message ep (UdpResponse dst_port src_ip src_port data) =
     remote_udp_response ep dst_port src_ip src_port data"
| "handle_remote_message ep (DnsResponse i data) = remote_dns_response i data"
| "handle_remote_message ep Ready = exec []"
| "handle_remote_message ep (Error error) = exec []"

end
