(* ===== verification/Host_Invariants.thy ===== *)
theory Host_Invariants
  imports Host_Handlers
begin

text \<open>
  Safety of the host's handlers: they keep the connection table well formed, and on a
  well-formed table they do not reach the panics of the packet builders.
\<close>

text \<open>A property of the connection table, as a property of the host.\<close>

definition on_table :: "(NatTable \<Rightarrow> bool) \<Rightarrow> Host \<Rightarrow> bool" where
  "on_table Q s \<longleftrightarrow> Q (nat_table s)"

section \<open>Statements\<close>

lemma keeps_upd_nat [keeps_intros]:
  "(\<And>t. Q t \<Longrightarrow> Q (f t)) \<Longrightarrow> keeps pan (on_table Q) (upd_nat f)"
  by (simp add: keeps_def upd_nat_def on_table_def)

lemma keeps_send [keeps_intros]:
  "keeps pan (on_table Q) (send_remote m)" "keeps pan (on_table Q) (send_tun pkt)"
  by (auto simp: keeps_def send_remote_def send_tun_def on_table_def split: send_result.splits)

lemma keeps_with_built [keeps_intros]:
  "(b = Panic \<Longrightarrow> pan) \<Longrightarrow> (\<And>pkt. keeps pan P (k pkt)) \<Longrightarrow> keeps pan P (with_built b k)"
  by (auto simp: keeps_def with_built_def split: outcome.splits)

lemma reply_no_panic:
  assumes "etherparse_laws ep" "key_family key" "length p \<le> max_tcp_payload"
  shows "tcp_build ep (reply_packet key sq ak flags win p) \<noteq> Panic"
proof -
  obtain k0 k1 k2 k3 where key: "key = (k0, k1, k2, k3)" by (cases key)
  have "20 + length p \<le> family_room k2" using assms(3) by (cases k2) auto
  moreover have "same_family k2 k0"
    using assms(2) by (simp add: key_family_def key same_family_sym)
  ultimately show ?thesis
    by (simp add: etherparse_laws.tcp_build_Panic_iff[OF assms(1)] reply_packet_def key)
qed

text \<open>
  Replies on a key of one family: they cannot panic when etherparse behaves as documented.
\<close>

definition panics_ok :: "bool \<Rightarrow> etherparse \<Rightarrow> TcpKey \<Rightarrow> bool" where
  "panics_ok pan ep key \<longleftrightarrow> pan \<or> etherparse_laws ep \<and> key_family key"

lemma reply_panics_ok:
  "panics_ok pan ep key \<Longrightarrow> length p \<le> max_tcp_payload \<Longrightarrow>
   tcp_build ep (reply_packet key sq ak flags win p) = Panic \<Longrightarrow> pan"
  using reply_no_panic[of ep key p sq ak flags win] by (auto simp: panics_ok_def)

lemma chunks_bounds: "c \<in> set (chunks n xs) \<Longrightarrow> length c \<le> n"
proof (induction n xs rule: chunks.induct)
  case (1 n xs)
  then show ?case by (auto simp: chunks.simps[of n xs] split: if_splits)
qed

section \<open>The table as the handlers of one connection use it\<close>

text \<open>
  The contract between the handlers and the table: what the operations on the key and the
  identifier of one connection keep, every handler of that connection keeps.
\<close>

locale table_invariant =
  fixes Q :: "NatTable \<Rightarrow> bool" and key :: TcpKey and i :: u32
  assumes close: "Q t \<Longrightarrow> Q (close_tcp_connection key t)"
    and set_state: "Q t \<Longrightarrow> Q (set_tcp_state key st t)"
    and advance: "Q t \<Longrightarrow> Q (advance_tcp_seq i n t)"
    and update_ack: "Q t \<Longrightarrow> Q (update_tcp_ack i a t)"
begin

lemmas table_intros = close set_state advance update_ack

lemma keeps_send_ack:
  "panics_ok pan ep key \<Longrightarrow> keeps pan (on_table Q) (send_ack ep key i)"
  unfolding send_ack_def
  by (intro keeps_intros) (erule reply_panics_ok, simp_all)

lemma keeps_forward: "keeps pan (on_table Q) (forward_in_order i tcp)"
  unfolding forward_in_order_def by (intro keeps_intros table_intros)

lemma keeps_established:
  assumes "panics_ok pan ep key"
  shows "keeps pan (on_table Q) (outbound_established ep key i tcp)"
  unfolding outbound_established_def outbound_established_fin_def outbound_established_data_def
  by (intro keeps_intros keeps_send_ack keeps_forward table_intros assms)

lemma keeps_close_wait:
  assumes "panics_ok pan ep key"
  shows "keeps pan (on_table Q) (outbound_close_wait ep key i tcp)"
  unfolding outbound_close_wait_def by (intro keeps_intros keeps_send_ack table_intros assms)

lemma keeps_known:
  assumes "panics_ok pan ep key"
  shows "keeps pan (on_table Q) (outbound_known ep key i tcp)"
  unfolding outbound_known_def
  by (intro keeps_intros table_intros)
     (auto split: option.split ConnectionState.split
        intro!: keeps_intros table_intros keeps_established keeps_close_wait assms)

lemma keeps_send_chunk:
  assumes "panics_ok pan ep key" "length chunk \<le> max_tcp_payload"
  shows "keeps pan (on_table Q) (send_chunk ep key i chunk is_last)"
  unfolding send_chunk_def
  by (intro keeps_intros table_intros) (erule reply_panics_ok[OF assms])

lemma keeps_data:
  assumes "panics_ok pan ep key"
  shows "keeps pan (on_table Q) (remote_tcp_data ep key i data)"
proof -
  have "keeps pan (on_table Q) (exec (chunk_stmts ep key i len off cs))"
    if "\<And>c. c \<in> set cs \<Longrightarrow> length c \<le> max_tcp_payload" for len off cs
    using that by (induction cs arbitrary: off) (auto intro!: keeps_intros keeps_send_chunk assms)
  then show ?thesis unfolding remote_tcp_data_def by (auto dest: chunks_bounds)
qed

lemma keeps_send_fin:
  assumes "panics_ok pan ep key"
  shows "keeps pan (on_table Q) (send_fin ep key i st)"
  unfolding send_fin_def
  by (intro keeps_intros table_intros) (auto elim: reply_panics_ok[OF assms, rotated])

lemma keeps_connected:
  assumes "panics_ok pan ep key"
  shows "keeps pan (on_table Q) (remote_tcp_connected ep key i)"
  unfolding remote_tcp_connected_def advance_tcp_seq_syn_def
  by (intro keeps_intros table_intros) (auto elim: reply_panics_ok[OF assms, rotated])

lemma keeps_error:
  assumes "panics_ok pan ep key"
  shows "keeps pan (on_table Q) (remote_tcp_error ep key)"
  unfolding remote_tcp_error_def
  by (intro keeps_intros table_intros) (auto elim: reply_panics_ok[OF assms, rotated])

lemma keeps_closed:
  assumes "panics_ok pan ep key"
  shows "keeps pan (on_table Q) (remote_tcp_closed ep key i)"
  unfolding remote_tcp_closed_def
  by (intro keeps_intros)
     (auto split: option.split ConnectionState.split
        intro!: keeps_intros table_intros keeps_send_fin[OF assms])

end

interpretation wf_table: table_invariant "nat_wf n" key i for n key i
  by unfold_locales (simp_all add: nat_wf_close nat_wf_set_state nat_wf_advance nat_wf_update_ack)

section \<open>Well-formed tables stay well formed\<close>

abbreviation host_wf :: "nat \<Rightarrow> Host \<Rightarrow> bool" where
  "host_wf n \<equiv> on_table (nat_wf n)"

definition is_syn :: "TcpPacketInfo \<Rightarrow> bool" where
  "is_syn tcp \<longleftrightarrow> syn (tcp_flags tcp) \<and> \<not> ack (tcp_flags tcp)"

lemma outbound_syn_wf:
  assumes "host_wf n s" "n < 2 ^ 32" "key_family key"
  shows "host_wf (Suc n) (snd (outbound_syn key tcp s)) \<and> fst (outbound_syn key tcp s) \<noteq> Panicked"
proof -
  let ?r = "create_tcp_connection (key, tcp_seq tcp) (nat_table s)"
  have "nat_wf (Suc n) (snd ?r)"
    using assms unfolding on_table_def by (rule nat_wf_create)
  then show ?thesis
    by (auto simp: outbound_syn_def split_beta Let_def send_remote_def on_table_def
        split: send_result.splits)
qed

lemma key_family_of_conn:
  "nat_wf n t \<Longrightarrow> get_tcp_connection_id key t = Some cid \<Longrightarrow> key_family key"
  by (auto simp: get_tcp_connection_id_def dest: nat_wf_link nat_wf_family)

lemma keeps_outbound_tcp:
  assumes "pan \<or> etherparse_laws ep" and "\<not> is_syn tcp"
  shows "keeps pan (host_wf n) (handle_outbound_tcp ep tcp)"
proof -
  have "keeps pan (host_wf n) (outbound_known ep (tcp_key tcp) cid tcp)"
    if "host_wf n s" "get_tcp_connection_id (tcp_key tcp) (nat_table s) = Some cid" for s cid
    using that assms(1)
    by (intro wf_table.keeps_known) (auto simp: panics_ok_def on_table_def dest: key_family_of_conn)
  with assms(2) show ?thesis
    by (auto simp: handle_outbound_tcp_def is_syn_def Let_def intro!: keeps_intros
        split: option.split)
qed

lemma keeps_outbound_udp:
  assumes "same_family (udp_src_ip udp) (udp_dst_ip udp)"
  shows "keeps pan (host_wf n) (handle_outbound_udp clock udp)"
  unfolding handle_outbound_udp_def
  by (intro keeps_intros nat_wf_track assms)

lemma keeps_for_key:
  assumes "pan \<or> etherparse_laws ep"
    and "\<And>key. panics_ok pan ep key \<Longrightarrow> keeps pan (host_wf n) (k key)"
  shows "keeps pan (host_wf n) (for_key i k)"
proof -
  have "keeps pan (host_wf n) (k key)"
    if "host_wf n s" "get_tcp_connection_key i (nat_table s) = Some key" for s key
    using that assms(1)
    by (intro assms(2))
       (auto simp: panics_ok_def on_table_def get_tcp_connection_key_def dest: nat_wf_family)
  then show ?thesis
    unfolding for_key_def by (intro keeps_intros) (auto split: option.split intro!: keeps_intros)
qed

text \<open>A UDP response that fits one IP packet; the remote reads no more than that.\<close>

fun response_fits :: "RemoteMessage \<Rightarrow> bool" where
  "response_fits (UdpResponse dst_port src_ip src_port data) \<longleftrightarrow> 8 + length data \<le> family_room src_ip"
| "response_fits _ = True"

lemma keeps_udp_response:
  assumes "pan \<or> etherparse_laws ep \<and> 8 + length data \<le> family_room src_ip"
  shows "keeps pan (host_wf n) (remote_udp_response ep dst_port src_ip src_port data)"
proof -
  have "pan" if "host_wf n s" "get_udp_src_ip dst_port src_ip src_port (nat_table s) = Some a"
    "udp_build ep \<lparr>up_src_ip = src_ip, up_dst_ip = a, up_src_port = src_port,
                   up_dst_port = dst_port, up_payload = data\<rparr> = Panic" for s a
  proof -
    have "same_family src_ip a"
      using that(1,2)
      by (auto simp: on_table_def get_udp_src_ip_def same_family_sym dest: nat_wf_udp)
    with assms that(3) show pan
      by (auto simp: etherparse_laws.udp_build_Panic_iff)
  qed
  then show ?thesis
    unfolding remote_udp_response_def
    by (intro keeps_intros) (auto split: option.split intro!: keeps_intros)
qed

lemma keeps_dns_response: "keeps pan (on_table Q) (remote_dns_response i data)"
  by (auto simp: keeps_def remote_dns_response_def on_table_def split: option.split)

lemma keeps_remote_message:
  assumes "pan \<or> etherparse_laws ep \<and> response_fits msg"
  shows "keeps pan (host_wf n) (handle_remote_message ep msg)"
proof -
  have laws: "pan \<or> etherparse_laws ep" using assms by blast
  show ?thesis
    using assms
    by (cases msg)
       (auto intro!: keeps_intros keeps_for_key[OF laws] wf_table.keeps_connected
          wf_table.keeps_closed wf_table.keeps_error wf_table.keeps_data
          keeps_udp_response keeps_dns_response)
qed

section \<open>Connections do not disturb each other\<close>

text \<open>
  \<open>only_key key i m\<close>: the entries of all other keys are those of \<open>m\<close>, and the identifier
  \<open>i\<close> leads to \<open>key\<close> or nowhere.
\<close>

definition only_key :: "TcpKey \<Rightarrow> u32 \<Rightarrow> (TcpKey \<rightharpoonup> TcpConnection) \<Rightarrow> NatTable \<Rightarrow> bool" where
  "only_key key i m t \<longleftrightarrow>
     (\<forall>k. k \<noteq> key \<longrightarrow> tcp_by_key t k = m k) \<and> tcp_by_id t i \<in> {None, Some key}"

lemma only_keyD: "only_key key i m t \<Longrightarrow> k \<noteq> key \<Longrightarrow> tcp_by_key t k = m k"
  unfolding only_key_def by blast

interpretation only_key: table_invariant "only_key key i m" key i for m key i
proof (unfold_locales, goal_cases)
  case (1 t)
  then show ?case by (auto simp: only_key_def nat_simps split: option.split)
next
  case (2 t st)
  then show ?case by (auto simp: only_key_def nat_simps)
next
  case (3 t n)
  then show ?case by (cases "tcp_by_id t i") (auto simp: only_key_def nat_simps)
next
  case (4 t a)
  then show ?case by (cases "tcp_by_id t i") (auto simp: only_key_def nat_simps)
qed

lemma other_keys_outbound:
  assumes "nat_wf n (nat_table s)" and "key' \<noteq> tcp_key tcp"
  shows "tcp_by_key (nat_table (snd (handle_outbound_tcp ep tcp s))) key'
    = tcp_by_key (nat_table s) key'"
proof (cases "syn (tcp_flags tcp) \<and> \<not> ack (tcp_flags tcp)")
  case True
  with assms show ?thesis
    by (auto simp: handle_outbound_tcp_def Let_def outbound_syn_def split_beta send_remote_def
        nat_simps split: send_result.split)
next
  case False
  show ?thesis
  proof (cases "tcp_by_key (nat_table s) (tcp_key tcp)")
    case None
    with False show ?thesis
      by (auto simp: handle_outbound_tcp_def Let_def with_state_def get_tcp_connection_id_def)
  next
    case (Some c)
    let ?Q = "only_key (tcp_key tcp) (conn_id c) (tcp_by_key (nat_table s))"
    have "?Q (nat_table s)" using nat_wf_link[OF assms(1) Some] by (simp add: only_key_def)
    moreover have "keeps True (on_table ?Q) (outbound_known ep (tcp_key tcp) (conn_id c) tcp)"
      by (rule only_key.keeps_known) (simp add: panics_ok_def)
    ultimately have "?Q (nat_table (snd (outbound_known ep (tcp_key tcp) (conn_id c) tcp s)))"
      by (auto simp: on_table_def dest: keepsD)
    from only_keyD[OF this assms(2)] Some False show ?thesis
      by (auto simp: handle_outbound_tcp_def Let_def with_state_def get_tcp_connection_id_def)
  qed
qed

lemma no_id_table:
  "message_id msg = None \<Longrightarrow> keeps True (on_table ((=) t)) (handle_remote_message ep msg)"
  by (cases msg)
     (auto simp: remote_udp_response_def intro!: keeps_intros keeps_dns_response split: option.split)

lemma other_keys_remote:
  assumes "\<And>i. message_id msg = Some i \<Longrightarrow> tcp_by_id (nat_table s) i \<noteq> Some key'"
  shows "tcp_by_key (nat_table (snd (handle_remote_message ep msg s))) key'
    = tcp_by_key (nat_table s) key'"
proof (cases "message_id msg")
  case None
  have "on_table ((=) (nat_table s)) (snd (handle_remote_message ep msg s))"
    by (rule keepsD[OF no_id_table[OF None]]) (simp add: on_table_def)
  then show ?thesis by (simp add: on_table_def)
next
  case (Some i)
  show ?thesis
  proof (cases "tcp_by_id (nat_table s) i")
    case None
    with Some show ?thesis
      by (cases msg) (simp_all add: for_key_def with_state_def get_tcp_connection_key_def)
  next
    case key: (Some key)
    let ?Q = "only_key key i (tcp_by_key (nat_table s))"
    have pk: "panics_ok True ep key" by (simp add: panics_ok_def)
    obtain m where m: "handle_remote_message ep msg s = m s" "keeps True (on_table ?Q) m"
      using Some key only_key.keeps_connected[OF pk] only_key.keeps_data[OF pk]
        only_key.keeps_closed[OF pk] only_key.keeps_error[OF pk]
      by (cases msg) (auto simp: for_key_def with_state_def get_tcp_connection_key_def)
    have "on_table ?Q (snd (m s))"
      by (rule keepsD[OF m(2)]) (simp add: on_table_def only_key_def key)
    then have "?Q (nat_table (snd (m s)))" by (simp add: on_table_def)
    moreover have "key' \<noteq> key" using assms[OF Some] key by auto
    ultimately show ?thesis using m(1) only_keyD by simp
  qed
qed

section \<open>Properties: safety and isolation\<close>

definition opens :: "etherparse \<Rightarrow> bytes \<Rightarrow> bool" where
  "opens ep data = (case parse_ip_packet ep data of Ok (Tcp tcp) \<Rightarrow> is_syn tcp | _ \<Rightarrow> False)"

lemma parsed_tcp_family:
  "parse_ip_packet ep data = Ok (Tcp tcp) \<Longrightarrow> key_family (tcp_key tcp)"
  using parse_ip_packet_family[of ep data "Tcp tcp"] by (simp add: key_family_def tcp_key_def)

lemma outbound_tcp_safe:
  assumes "etherparse_laws ep" "host_wf n s" "n < 2 ^ 32" "key_family (tcp_key tcp)"
  shows "host_wf (if is_syn tcp then Suc n else n) (snd (handle_outbound_tcp ep tcp s)) \<and>
    fst (handle_outbound_tcp ep tcp s) \<noteq> Panicked"
proof (cases "is_syn tcp")
  case True
  then have "handle_outbound_tcp ep tcp = outbound_syn (tcp_key tcp) tcp"
    by (simp add: handle_outbound_tcp_def is_syn_def Let_def)
  with outbound_syn_wf[OF assms(2,3,4)] True show ?thesis by simp
next
  case False
  then have "keeps False (host_wf n) (handle_outbound_tcp ep tcp)"
    using assms(1) by (intro keeps_outbound_tcp) auto
  with assms(2) False show ?thesis by (auto dest: keepsD keeps_no_panic)
qed

lemma tun_packet_safe_step:
  assumes "etherparse_laws ep" "host_wf n s" "n < 2 ^ 32"
  shows "host_wf (if opens ep data then Suc n else n) (snd (handle_tun_packet ep clock data s)) \<and>
    (fst (handle_tun_packet ep clock data s) = Panicked \<longleftrightarrow> parse_ip_packet ep data = Panic)"
proof (cases "parse_ip_packet ep data")
  case (Ok pkt)
  show ?thesis
  proof (cases pkt)
    case (Tcp tcp)
    with Ok outbound_tcp_safe[OF assms parsed_tcp_family] show ?thesis
      by (simp add: handle_tun_packet_def opens_def)
  next
    case (Udp udp)
    then have "keeps False (host_wf n) (handle_outbound_udp clock udp)"
      using parse_ip_packet_family[OF Ok] by (intro keeps_outbound_udp) simp
    with assms(2) Ok Udp show ?thesis
      by (auto simp: handle_tun_packet_def opens_def dest: keepsD keeps_no_panic)
  next
    case (Other q)
    with assms(2) Ok show ?thesis by (simp add: handle_tun_packet_def opens_def)
  qed
qed (use assms(2) in \<open>simp_all add: handle_tun_packet_def opens_def\<close>)

text \<open>
  C26: Whatever bytes the TUN device delivers, the handler keeps the connection table well
  formed (counting one more connection for a SYN), and it panics only where
  \<open>parse_ip_packet\<close> itself does: no packet the handlers build in reply panics. This is
  the reason for the checks in the parser, and covers early returns on a closed channel and
  an \<open>await\<close> on a full one.
\<close>

theorem tun_packet_safe:
  assumes "etherparse_laws ep" "host_wf n s" "n < 2 ^ 32"
  shows "host_wf (if opens ep data then Suc n else n) (snd (handle_tun_packet ep clock data s)) \<and>
    (fst (handle_tun_packet ep clock data s) = Panicked \<longleftrightarrow> parse_ip_packet ep data = Panic)"
  using assms by (rule tun_packet_safe_step)

text \<open>A host that has just been set up by \<open>run_proxy_loop\<close>.\<close>

definition initial_host :: "DnsState option \<Rightarrow> Host" where
  "initial_host dns =
     \<lparr>nat_table = nat_new, to_remote = new_chan 1024, to_tun = new_chan 1024, dns_state = dns\<rparr>"

lemma initial_host_wf: "host_wf 0 (initial_host dns)"
  by (simp add: on_table_def initial_host_def nat_wf_new)

theorem tun_packet_safe_witness:
  "host_wf (if opens rfc_etherparse (0x60 # replicate 39 0) then Suc 0 else 0)
    (snd (handle_tun_packet rfc_etherparse (0, 0) (0x60 # replicate 39 0) (initial_host None)))"
  using tun_packet_safe[OF rfc.etherparse_laws_axioms initial_host_wf] by simp

text \<open>
  Whatever the remote sends, the handler keeps the table well formed and does not panic,
  as long as the data of a UDP response fits one IP packet; in particular no identifier, order
  or repetition of messages can make it panic.
\<close>

theorem remote_message_safe:
  assumes "etherparse_laws ep" "host_wf n s" "response_fits msg"
  shows "host_wf n (snd (handle_remote_message ep msg s)) \<and>
    fst (handle_remote_message ep msg s) \<noteq> Panicked"
proof -
  have "keeps False (host_wf n) (handle_remote_message ep msg)"
    using assms by (intro keeps_remote_message) auto
  with assms(2) show ?thesis by (auto dest: keepsD keeps_no_panic)
qed

theorem remote_message_safe_witness:
  "host_wf 0 (snd (handle_remote_message rfc_etherparse (TcpClosed 7) (initial_host None))) \<and>
   fst (handle_remote_message rfc_etherparse (TcpClosed 7) (initial_host None)) \<noteq> Panicked"
  using remote_message_safe[OF rfc.etherparse_laws_axioms initial_host_wf, of "TcpClosed 7"] by simp

text \<open>
  C27: Connections are isolated from each other: a segment of another connection, and a
  message whose identifier the table does not lead to this connection, leave its state, its
  sequence numbers and its identifier as they were, however the handler ends.
\<close>

theorem connections_isolated:
  assumes "host_wf n s" and "tcp_by_key (nat_table s) key = Some c"
  shows "(tcp_key tcp \<noteq> key \<longrightarrow>
      tcp_by_key (nat_table (snd (handle_outbound_tcp ep tcp s))) key = Some c) \<and>
    ((\<forall>i. message_id msg = Some i \<longrightarrow> get_tcp_connection_key i (nat_table s) \<noteq> Some key) \<longrightarrow>
      tcp_by_key (nat_table (snd (handle_remote_message ep msg s))) key = Some c)"
  using other_keys_outbound[of n s key tcp ep] other_keys_remote[of msg s key ep] assms
  by (auto simp: on_table_def get_tcp_connection_key_def)

text \<open>A host with one connection, opened by a SYN with initial sequence number 7.\<close>

abbreviation example_key :: TcpKey where "example_key \<equiv> (V4 0x0A000001, 40000, V4 0x08080808, 80)"

definition example_host :: "ConnectionState \<Rightarrow> Host" where
  "example_host st = (initial_host None)\<lparr>nat_table :=
     set_tcp_state example_key st (snd (create_tcp_connection (example_key, 7) nat_new))\<rparr>"

lemma example_host_wf: "host_wf 1 (example_host st)"
  using nat_wf_set_state[OF nat_wf_create[OF nat_wf_new, of example_key 7], of example_key st]
  by (simp add: on_table_def example_host_def key_family_def)

lemma example_host_entry:
  "tcp_by_key (nat_table (example_host st)) example_key =
     Some \<lparr>conn_id = 1, conn_state = st, conn_seq = 1000, conn_ack = 8\<rparr>"
  "tcp_by_id (nat_table (example_host st)) = [1 \<mapsto> example_key]"
  "to_tun (example_host st) = new_chan 1024" "to_remote (example_host st) = new_chan 1024"
  by (simp_all add: example_host_def initial_host_def nat_simps nat_new_def)

theorem connections_isolated_witness:
  "tcp_by_key (nat_table (snd (handle_remote_message rfc_etherparse (TcpClosed 2)
     (example_host Established)))) example_key =
   Some \<lparr>conn_id = 1, conn_state = Established, conn_seq = 1000, conn_ack = 8\<rparr>"
  using connections_isolated[OF example_host_wf[of Established] example_host_entry(1)[of Established],
      of undefined rfc_etherparse "TcpClosed 2"]
  by (simp add: get_tcp_connection_key_def example_host_entry)

end
