(* ===== verification/Host_Streams.thy ===== *)
theory Host_Streams
  imports Host_Invariants "HOL-Library.Sublist"
begin

text \<open>
  The two byte streams of a connection as the host relays them: the data of the remote is
  cut into consecutive segments towards the application, and the segments of the
  application, whatever their order and repetitions, are put together into a prefix of what
  it sent.
\<close>

section \<open>Evaluation of statements\<close>

lemma upd_nat_run [flow_simps]: "upd_nat f s = (Done, s\<lparr>nat_table := f (nat_table s)\<rparr>)"
  by (simp add: upd_nat_def)

lemma send_remote_run [flow_simps]:
  "room (Suc k) (to_remote s) \<Longrightarrow>
   send_remote m s = (Done, s\<lparr>to_remote := to_remote s\<lparr>ch_queue := ch_queue (to_remote s) @ [m]\<rparr>\<rparr>)"
  by (auto simp: send_remote_def flow_simps dest: chan_send_room)

lemma send_tun_run [flow_simps]:
  "room (Suc k) (to_tun s) \<Longrightarrow>
   send_tun m s = (Done, s\<lparr>to_tun := to_tun s\<lparr>ch_queue := ch_queue (to_tun s) @ [m]\<rparr>\<rparr>)"
  by (auto simp: send_tun_def flow_simps dest: chan_send_room)

lemma with_built_Ok [flow_simps]: "with_built (Ok pkt) k = k pkt"
  by (simp add: with_built_def fun_eq_iff)

lemma with_state_run [flow_simps]: "with_state m s = m s s"
  by (simp add: with_state_def)

lemma payload_len_exact: "n < 2 ^ 32 \<Longrightarrow> payload_len_u32 n = word_of_nat n"
  by (simp add: payload_len_u32_def)

text \<open>Packets on a channel, read back.\<close>

definition parses :: "etherparse \<Rightarrow> bytes list \<Rightarrow> TcpPacketInfo list \<Rightarrow> bool" where
  "parses ep pkts infos \<longleftrightarrow> list_all2 (\<lambda>pkt info. parse_ip_packet ep pkt = Ok (Tcp info)) pkts infos"

lemma parses_simps [simp]:
  "parses ep [] infos \<longleftrightarrow> infos = []"
  "parses ep (p # ps) (i # is) \<longleftrightarrow> parse_ip_packet ep p = Ok (Tcp i) \<and> parses ep ps is"
  by (simp_all add: parses_def)

definition reply_info :: "TcpKey \<Rightarrow> u32 \<Rightarrow> u32 \<Rightarrow> TcpFlags \<Rightarrow> u16 \<Rightarrow> bytes \<Rightarrow> TcpPacketInfo" where
  "reply_info key sq ak flags win p = tcp_info_of (reply_packet key sq ak flags win p)"

lemma reply_Ok:
  assumes "etherparse_laws ep" "key_family key" "length p \<le> max_tcp_payload"
  obtains pkt where "tcp_build ep (reply_packet key sq ak flags win p) = Ok pkt"
    "parse_ip_packet ep pkt = Ok (Tcp (reply_info key sq ak flags win p))"
proof -
  obtain k0 k1 k2 k3 where key: "key = (k0, k1, k2, k3)" by (cases key)
  have "20 + length p \<le> family_room k2" using assms(3) by (cases k2) auto
  moreover have "same_family k2 k0"
    using assms(2) by (simp add: key_family_def key same_family_sym)
  ultimately show thesis
    using etherparse_laws.tcp_build_Ok[OF assms(1), of "reply_packet key sq ak flags win p"] that
    by (auto simp: reply_info_def reply_packet_def key)
qed

section \<open>Chunks\<close>

lemma chunks_Nil [simp]: "chunks n [] = []"
  by (subst chunks.simps) simp

lemma concat_chunks: "0 < n \<Longrightarrow> concat (chunks n xs) = xs"
proof (induction n xs rule: chunks.induct)
  case (1 n xs)
  then show ?case by (cases "xs = []") (simp_all add: chunks.simps[of n xs])
qed

lemma chunks_nonempty: "c \<in> set (chunks n xs) \<Longrightarrow> c \<noteq> []"
proof (induction n xs rule: chunks.induct)
  case (1 n xs)
  then show ?case by (auto simp: chunks.simps[of n xs] split: if_splits)
qed

lemma length_chunks: "0 < n \<Longrightarrow> length (chunks n xs) = (length xs + n - 1) div n"
proof (induction n xs rule: chunks.induct)
  case (1 n xs)
  show ?case
  proof (cases "xs = []")
    case True
    with "1.prems" show ?thesis by (simp add: chunks.simps[of n xs])
  next
    case False
    have "length (chunks n xs) = Suc ((length xs - n + n - 1) div n)"
      using "1.IH" "1.prems" False by (simp add: chunks.simps[of n xs])
    also have "(length xs - n + n - 1) div n = (length xs - 1) div n"
      using "1.prems" by (cases "length xs \<le> n") auto
    also have "Suc ((length xs - 1) div n) = (length xs - 1 + n) div n"
      using "1.prems" div_add_self2[of n "length xs - 1"] by linarith
    also have "length xs - 1 + n = length xs + n - 1" using False by (cases xs) auto
    finally show ?thesis .
  qed
qed

section \<open>Downstream: from the remote to the application\<close>

text \<open>
  The segments that carry a list of chunks: consecutive sequence numbers from \<open>sq\<close>, and
  PSH on the last one only.
\<close>

fun segments :: "TcpKey \<Rightarrow> u32 \<Rightarrow> u32 \<Rightarrow> bytes list \<Rightarrow> TcpPacketInfo list" where
  "segments key ak sq [] = []"
| "segments key ak sq (c # cs) =
     reply_info key sq ak (no_flags\<lparr>ack := True, psh := (cs = [])\<rparr>) 65535 c
       # segments key ak (sq + word_of_nat (length c)) cs"

lemma length_segments [simp]: "length (segments key ak sq cs) = length cs"
  by (induction cs arbitrary: sq) auto

lemma segments_payload: "map tcp_payload (segments key ak sq cs) = cs"
  by (induction cs arbitrary: sq)
     (auto simp: reply_info_def tcp_info_of_def reply_packet_def split: prod.splits)

lemma segments_seq:
  "j < length cs \<Longrightarrow>
   tcp_seq (segments key ak sq cs ! j) = sq + word_of_nat (length (concat (take j cs)))"
proof (induction cs arbitrary: sq j)
  case Nil
  then show ?case by simp
next
  case (Cons c cs)
  then show ?case
    by (cases j) (auto simp: reply_info_def tcp_info_of_def reply_packet_def split: prod.splits)
qed

lemma segments_shape:
  "j < length cs \<Longrightarrow>
   tcp_key (segments key ak sq cs ! j) = (case key of (k0, k1, k2, k3) \<Rightarrow> (k2, k3, k0, k1)) \<and>
   tcp_ack (segments key ak sq cs ! j) = ak \<and>
   tcp_flags (segments key ak sq cs ! j) = no_flags\<lparr>ack := True, psh := (Suc j = length cs)\<rparr>"
proof (induction cs arbitrary: sq j)
  case Nil
  then show ?case by simp
next
  case (Cons c cs)
  then show ?case
    by (cases j)
       (auto simp: reply_info_def tcp_info_of_def reply_packet_def tcp_key_def split: prod.splits)
qed

text \<open>The entry of a connection after \<open>n\<close> more bytes towards the application.\<close>

definition advanced :: "TcpKey \<Rightarrow> TcpConnection \<Rightarrow> nat \<Rightarrow> Host \<Rightarrow> (TcpKey \<rightharpoonup> TcpConnection)" where
  "advanced key c n s =
     (tcp_by_key (nat_table s))(key \<mapsto> c\<lparr>conn_seq := conn_seq c + word_of_nat n\<rparr>)"

lemma send_chunk_run:
  assumes laws: "etherparse_laws ep" and fam: "key_family key"
    and entry: "tcp_by_id (nat_table s) i = Some key" "tcp_by_key (nat_table s) key = Some c"
    and room: "room (Suc k) (to_tun s)" and len: "length p \<le> max_tcp_payload"
  obtains pkt s' where "send_chunk ep key i p push s = (Done, s')"
    "parse_ip_packet ep pkt = Ok (Tcp (reply_info key (conn_seq c) (conn_ack c)
       (no_flags\<lparr>ack := True, psh := push\<rparr>) 65535 p))"
    "ch_queue (to_tun s') = ch_queue (to_tun s) @ [pkt]" "room k (to_tun s')"
    "tcp_by_key (nat_table s') = advanced key c (length p) s"
    "tcp_by_id (nat_table s') = tcp_by_id (nat_table s)"
    "to_remote s' = to_remote s" "dns_state s' = dns_state s"
proof -
  obtain pkt where pkt: "tcp_build ep (reply_packet key (conn_seq c) (conn_ack c)
      (no_flags\<lparr>ack := True, psh := push\<rparr>) 65535 p) = Ok pkt"
    and parse: "parse_ip_packet ep pkt = Ok (Tcp (reply_info key (conn_seq c) (conn_ack c)
      (no_flags\<lparr>ack := True, psh := push\<rparr>) 65535 p))"
    using reply_Ok[OF laws fam len] by metis
  let ?s = "s\<lparr>nat_table := advance_tcp_seq i (word_of_nat (length p)) (nat_table s),
              to_tun := to_tun s\<lparr>ch_queue := ch_queue (to_tun s) @ [pkt]\<rparr>\<rparr>"
  have "payload_len_u32 (length p) = word_of_nat (length p)"
    using len by (intro payload_len_exact) simp
  then have "send_chunk ep key i p push s = (Done, ?s)"
    using entry pkt room by (simp add: send_chunk_def flow_simps nat_simps send_tun_run[where k = k])
  with parse room entry show thesis
    by (intro that[of ?s pkt]) (simp_all add: flow_simps nat_simps advanced_def)
qed

lemma chunk_stmts_run:
  assumes laws: "etherparse_laws ep" and fam: "key_family key"
    and "tcp_by_id (nat_table s) i = Some key" "tcp_by_key (nat_table s) key = Some c"
    and "room (length cs) (to_tun s)"
    and "\<And>p. p \<in> set cs \<Longrightarrow> length p \<le> max_tcp_payload \<and> p \<noteq> []"
    and "off + length (concat cs) = len"
  shows "\<exists>s' pkts. exec (chunk_stmts ep key i len off cs) s = (Done, s') \<and>
    ch_queue (to_tun s') = ch_queue (to_tun s) @ pkts \<and>
    parses ep pkts (segments key (conn_ack c) (conn_seq c) cs) \<and>
    tcp_by_key (nat_table s') = advanced key c (length (concat cs)) s \<and>
    tcp_by_id (nat_table s') = tcp_by_id (nat_table s) \<and>
    to_remote s' = to_remote s \<and> dns_state s' = dns_state s"
  using assms(3-)
proof (induction cs arbitrary: off s c)
  case Nil
  then show ?case by (auto simp: advanced_def fun_upd_idem)
next
  case (Cons p cs)
  have last: "off + length p = len \<longleftrightarrow> cs = []"
    using Cons.prems(4,5) by (cases cs) auto
  obtain pkt s1 where s1: "send_chunk ep key i p (off + length p = len) s = (Done, s1)"
    "parse_ip_packet ep pkt = Ok (Tcp (reply_info key (conn_seq c) (conn_ack c)
       (no_flags\<lparr>ack := True, psh := (off + length p = len)\<rparr>) 65535 p))"
    "ch_queue (to_tun s1) = ch_queue (to_tun s) @ [pkt]" "room (length cs) (to_tun s1)"
    "tcp_by_key (nat_table s1) = advanced key c (length p) s"
    "tcp_by_id (nat_table s1) = tcp_by_id (nat_table s)"
    "to_remote s1 = to_remote s" "dns_state s1 = dns_state s"
    by (rule send_chunk_run[OF laws fam Cons.prems(1,2), of "length cs" p "off + length p = len"])
       (use Cons.prems(3,4) in simp_all)
  let ?c = "c\<lparr>conn_seq := conn_seq c + word_of_nat (length p)\<rparr>"
  have entry: "tcp_by_id (nat_table s1) i = Some key" "tcp_by_key (nat_table s1) key = Some ?c"
    using s1(5,6) Cons.prems(1) by (simp_all add: advanced_def)
  obtain s2 pkts where s2: "exec (chunk_stmts ep key i len (off + length p) cs) s1 = (Done, s2)"
    "ch_queue (to_tun s2) = ch_queue (to_tun s1) @ pkts"
    "parses ep pkts (segments key (conn_ack ?c) (conn_seq ?c) cs)"
    "tcp_by_key (nat_table s2) = advanced key ?c (length (concat cs)) s1"
    "tcp_by_id (nat_table s2) = tcp_by_id (nat_table s1)"
    "to_remote s2 = to_remote s1" "dns_state s2 = dns_state s1"
    using Cons.IH[OF entry s1(4), of "off + length p"] Cons.prems(4,5) by auto
  have "advanced key ?c (length (concat cs)) s1 = advanced key c (length (concat (p # cs))) s"
    by (simp add: advanced_def s1(5) algebra_simps)
  with s1 s2 last show ?case
    by (intro exI[of _ s2] exI[of _ "pkt # pkts"]) simp
qed

lemma remote_tcp_data_run:
  assumes "etherparse_laws ep" "key_family key"
    and "tcp_by_id (nat_table s) i = Some key" "tcp_by_key (nat_table s) key = Some c"
    and "room (length (chunks max_tcp_payload data)) (to_tun s)"
  shows "\<exists>s' pkts. handle_remote_message ep (RemoteMessage.TcpData i data) s = (Done, s') \<and>
    ch_queue (to_tun s') = ch_queue (to_tun s) @ pkts \<and>
    parses ep pkts (segments key (conn_ack c) (conn_seq c) (chunks max_tcp_payload data)) \<and>
    tcp_by_key (nat_table s') = advanced key c (length data) s \<and>
    tcp_by_id (nat_table s') = tcp_by_id (nat_table s) \<and>
    to_remote s' = to_remote s \<and> dns_state s' = dns_state s"
proof -
  have "concat (chunks max_tcp_payload data) = data" by (rule concat_chunks) simp
  with chunk_stmts_run[OF assms, of 0 "length data"] show ?thesis
    using chunks_bounds[of _ max_tcp_payload data] chunks_nonempty[of _ max_tcp_payload data] assms(3)
    by (auto simp: for_key_def flow_simps get_tcp_connection_key_def remote_tcp_data_def)
qed

section \<open>Upstream: from the application to the remote\<close>

text \<open>
  \<open>carries S isn key tcp (off, len)\<close>: a data segment of the connection \<open>key\<close> whose
  client started at sequence number \<open>isn\<close> and sends the stream \<open>S\<close>; the segment holds
  \<open>len\<close> bytes from offset \<open>off\<close>.
\<close>

fun carries :: "bytes \<Rightarrow> u32 \<Rightarrow> TcpKey \<Rightarrow> TcpPacketInfo \<Rightarrow> nat \<times> nat \<Rightarrow> bool" where
  "carries S isn key tcp (off, len) \<longleftrightarrow>
     tcp_key tcp = key \<and> \<not> syn (tcp_flags tcp) \<and> \<not> rst (tcp_flags tcp) \<and> \<not> fin (tcp_flags tcp) \<and>
     off + len \<le> length S \<and> tcp_seq tcp = isn + 1 + word_of_nat off \<and>
     tcp_payload tcp = take len (drop off S)"

text \<open>
  The specification of the receiving side: it expects offset \<open>n\<close>, takes a segment that
  starts there and no other; and the offsets it acknowledges, one per segment with data.
\<close>

definition expect :: "nat \<Rightarrow> nat \<times> nat \<Rightarrow> nat" where
  "expect n x = (if fst x = n then n + snd x else n)"

fun ack_trace :: "nat \<Rightarrow> (nat \<times> nat) list \<Rightarrow> nat list" where
  "ack_trace n [] = []"
| "ack_trace n (x # xs) = (if snd x = 0 then [] else [expect n x]) @ ack_trace (expect n x) xs"

text \<open>
  The segments that are forwarded: those with data that begin exactly at the next expected byte;
  and the message that one of them becomes.
\<close>

fun taken :: "nat \<Rightarrow> (nat \<times> nat) list \<Rightarrow> (nat \<times> nat) list" where
  "taken n [] = []"
| "taken n (x # xs) = (if fst x = n \<and> 0 < snd x then [x] else []) @ taken (expect n x) xs"

definition piece :: "u32 \<Rightarrow> bytes \<Rightarrow> nat \<times> nat \<Rightarrow> HostMessage" where
  "piece cid S x = HostMessage.TcpData cid (take (snd x) (drop (fst x) S))"

definition forwarded :: "u32 \<Rightarrow> HostMessage list \<Rightarrow> bytes" where
  "forwarded cid msgs =
     concat (map (\<lambda>m. case m of HostMessage.TcpData i d \<Rightarrow> if i = cid then d else [] | _ \<Rightarrow> []) msgs)"

lemma forwarded_simps [simp]:
  "forwarded cid [] = []"
  "forwarded cid (m # ms) =
     (case m of HostMessage.TcpData i d \<Rightarrow> if i = cid then d else [] | _ \<Rightarrow> []) @ forwarded cid ms"
  by (simp_all add: forwarded_def)

definition data_ack :: "TcpKey \<Rightarrow> u32 \<Rightarrow> u32 \<Rightarrow> nat \<Rightarrow> TcpPacketInfo" where
  "data_ack key sq isn n = reply_info key sq (isn + 1 + word_of_nat n) (no_flags\<lparr>ack := True\<rparr>) 65535 []"

text \<open>An established connection that has received the first \<open>n\<close> bytes of the stream.\<close>

definition receiving :: "TcpKey \<Rightarrow> TcpConnection \<Rightarrow> u32 \<Rightarrow> nat \<Rightarrow> Host \<Rightarrow> bool" where
  "receiving key c isn n s \<longleftrightarrow>
     tcp_by_key (nat_table s) key = Some (c\<lparr>conn_ack := isn + 1 + word_of_nat n\<rparr>) \<and>
     tcp_by_id (nat_table s) (conn_id c) = Some key \<and> conn_state c = Established"

lemma offset_eq:
  "off < 2 ^ 32 \<Longrightarrow> n < 2 ^ 32 \<Longrightarrow> (word_of_nat off = (word_of_nat n :: u32)) = (off = n)"
  by (simp add: word_of_nat_eq_iff take_bit_eq_mod)

lemma send_ack_run:
  assumes "etherparse_laws ep" "key_family key" "room (Suc k) (to_tun s)"
    and "tcp_by_id (nat_table s) cid = Some key" "tcp_by_key (nat_table s) key = Some c"
  obtains pkt where
    "send_ack ep key cid s = (Done, s\<lparr>to_tun := to_tun s\<lparr>ch_queue := ch_queue (to_tun s) @ [pkt]\<rparr>\<rparr>)"
    "parse_ip_packet ep pkt =
       Ok (Tcp (reply_info key (conn_seq c) (conn_ack c) (no_flags\<lparr>ack := True\<rparr>) 65535 []))"
proof -
  obtain pkt where "tcp_build ep (reply_packet key (conn_seq c) (conn_ack c)
      (no_flags\<lparr>ack := True\<rparr>) 65535 []) = Ok pkt"
    "parse_ip_packet ep pkt =
       Ok (Tcp (reply_info key (conn_seq c) (conn_ack c) (no_flags\<lparr>ack := True\<rparr>) 65535 []))"
    using reply_Ok[OF assms(1,2), of "[]"] by (metis list.size(3) zero_le)
  with assms that show thesis
    by (simp add: send_ack_def flow_simps nat_simps send_tun_run[where k = k])
qed

lemma data_step:
  assumes laws: "etherparse_laws ep" and fam: "key_family key"
    and rcv: "receiving key c isn n s" and n: "n \<le> length S" and S: "length S < 2 ^ 32"
    and seg: "carries S isn key tcp (off, len)"
    and room: "room (Suc k) (to_remote s)" "room (Suc k) (to_tun s)"
  shows "\<exists>s' msgs pkts. handle_outbound_tcp ep tcp s = (Done, s') \<and>
    receiving key c isn (expect n (off, len)) s' \<and>
    ch_queue (to_remote s') = ch_queue (to_remote s) @ msgs \<and>
    msgs = map (piece (conn_id c) S) (taken n [(off, len)]) \<and>
    forwarded (conn_id c) msgs = drop n (take (expect n (off, len)) S) \<and>
    ch_queue (to_tun s') = ch_queue (to_tun s) @ pkts \<and>
    parses ep pkts (map (data_ack key (conn_seq c) isn) (ack_trace n [(off, len)])) \<and>
    room k (to_remote s') \<and> room k (to_tun s')"
proof -
  let ?c = "\<lambda>n. c\<lparr>conn_ack := isn + 1 + word_of_nat n\<rparr>"
  have entry: "tcp_by_key (nat_table s) key = Some (?c n)"
    "tcp_by_id (nat_table s) (conn_id c) = Some key" and est: "conn_state c = Established"
    using rcv by (auto simp: receiving_def)
  have step: "handle_outbound_tcp ep tcp s =
    (if len = 0 then (Done, s) else outbound_established_data ep key (conn_id c) tcp s)"
    using seg entry est
    by (simp add: handle_outbound_tcp_def outbound_known_def outbound_established_def Let_def
        flow_simps get_tcp_connection_id_def get_tcp_state_def)
  show ?thesis
  proof (cases "len = 0")
    case True
    with step rcv room show ?thesis
      by (intro exI[of _ s] exI[of _ "[]"]) (auto simp: expect_def elim: room_mono)
  next
    case False
    have payload: "length (tcp_payload tcp) = len" "tcp_payload tcp = take len (drop off S)"
      using seg by auto
    then have plen: "payload_len_u32 (length (tcp_payload tcp)) = word_of_nat len"
      using seg S by (intro trans[OF payload_len_exact]) auto
    have in_order: "tcp_seq tcp = get_tcp_ack (conn_id c) (nat_table s) \<longleftrightarrow> off = n"
      using seg entry n S offset_eq[of off n] by (simp add: nat_simps)
    obtain s1 msgs where s1: "forward_in_order (conn_id c) tcp s = (Done, s1)"
      and rcv1: "receiving key c isn (expect n (off, len)) s1"
      and msgs: "ch_queue (to_remote s1) = ch_queue (to_remote s) @ msgs"
        "msgs = map (piece (conn_id c) S) (taken n [(off, len)])"
        "forwarded (conn_id c) msgs = drop n (take (expect n (off, len)) S)"
      and rest: "to_tun s1 = to_tun s" "room k (to_remote s1)"
    proof (cases "off = n")
      case True
      let ?s = "s\<lparr>nat_table := update_tcp_ack (conn_id c) (tcp_seq tcp + word_of_nat len) (nat_table s),
                  to_remote := to_remote s\<lparr>ch_queue := ch_queue (to_remote s)
                    @ [HostMessage.TcpData (conn_id c) (tcp_payload tcp)]\<rparr>\<rparr>"
      show thesis
      proof (rule that[of ?s "[HostMessage.TcpData (conn_id c) (tcp_payload tcp)]"])
        show "forward_in_order (conn_id c) tcp s = (Done, ?s)"
          using in_order True plen room
          by (simp add: forward_in_order_def flow_simps send_remote_run[where k = k])
        show "receiving key c isn (expect n (off, len)) ?s"
          using entry est seg True by (simp add: receiving_def nat_simps expect_def algebra_simps)
        show "forwarded (conn_id c) [HostMessage.TcpData (conn_id c) (tcp_payload tcp)]
            = drop n (take (expect n (off, len)) S)"
          using True payload(2) by (simp add: expect_def drop_take)
        show "[HostMessage.TcpData (conn_id c) (tcp_payload tcp)] = map (piece (conn_id c) S) (taken n [(off, len)])"
          using True payload(2) \<open>len \<noteq> 0\<close> by (simp add: piece_def)
      qed (use room in \<open>simp_all add: flow_simps\<close>)
    next
      case False
      show thesis
      proof (rule that[of s "[]"])
        show "forward_in_order (conn_id c) tcp s = (Done, s)"
          using in_order False by (simp add: forward_in_order_def flow_simps)
      qed (use rcv False room in \<open>auto simp: expect_def elim: room_mono\<close>)
    qed
    have room1: "room (Suc k) (to_tun s1)" using rest(1) room(2) by simp
    have entry1: "tcp_by_id (nat_table s1) (conn_id c) = Some key"
      "tcp_by_key (nat_table s1) key = Some (?c (expect n (off, len)))"
      using rcv1 by (auto simp: receiving_def)
    obtain pkt where pkt: "send_ack ep key (conn_id c) s1 =
        (Done, s1\<lparr>to_tun := to_tun s1\<lparr>ch_queue := ch_queue (to_tun s1) @ [pkt]\<rparr>\<rparr>)"
      "parse_ip_packet ep pkt = Ok (Tcp (data_ack key (conn_seq c) isn (expect n (off, len))))"
      using send_ack_run[OF laws fam room1 entry1] by (auto simp: data_ack_def)
    show ?thesis
      using step False s1 pkt msgs rcv1 rest room1
      by (intro exI[of _ "s1\<lparr>to_tun := to_tun s1\<lparr>ch_queue := ch_queue (to_tun s1) @ [pkt]\<rparr>\<rparr>"]
          exI[of _ msgs] exI[of _ "[pkt]"])
         (simp add: outbound_established_data_def receiving_def flow_simps)
  qed
qed

lemma forwarded_append [simp]: "forwarded cid (xs @ ys) = forwarded cid xs @ forwarded cid ys"
  by (simp add: forwarded_def)

lemma expect_bounds:
  "carries S isn key tcp x \<Longrightarrow> n \<le> length S \<Longrightarrow> n \<le> expect n x \<and> expect n x \<le> length S"
  by (cases x) (auto simp: expect_def)

lemma foldl_expect_ge: "n \<le> foldl expect n xs"
proof (induction xs arbitrary: n)
  case (Cons x xs)
  have "n \<le> expect n x" by (simp add: expect_def)
  also have "expect n x \<le> foldl expect (expect n x) xs" by (rule Cons)
  finally show ?case by simp
qed simp

lemma drop_take_join:
  assumes "n \<le> m" "m \<le> k"
  shows "drop n (take m S) @ drop m (take k S) = drop n (take k S)"
proof -
  have "take k S = take m S @ drop m (take k S)"
    using assms(2) append_take_drop_id[of m "take k S"] by (simp add: min_absorb1)
  then have "drop n (take k S) = drop n (take m S) @ drop (n - length (take m S)) (drop m (take k S))"
    by (metis drop_append)
  moreover have "drop (n - length (take m S)) (drop m (take k S)) = drop m (take k S)"
    using assms(1) by (cases "m \<le> length S") auto
  ultimately show ?thesis by simp
qed

lemma data_run:
  assumes laws: "etherparse_laws ep" and fam: "key_family key" and S: "length S < 2 ^ 32"
    and "receiving key c isn n s" "n \<le> length S"
    and "list_all2 (carries S isn key) tcps xs"
    and "room (length xs) (to_remote s)" "room (length xs) (to_tun s)"
  shows "\<exists>s' msgs pkts. exec (map (handle_outbound_tcp ep) tcps) s = (Done, s') \<and>
    receiving key c isn (foldl expect n xs) s' \<and>
    ch_queue (to_remote s') = ch_queue (to_remote s) @ msgs \<and>
    msgs = map (piece (conn_id c) S) (taken n xs) \<and>
    forwarded (conn_id c) msgs = drop n (take (foldl expect n xs) S) \<and>
    ch_queue (to_tun s') = ch_queue (to_tun s) @ pkts \<and>
    parses ep pkts (map (data_ack key (conn_seq c) isn) (ack_trace n xs))"
  using assms(4-)
proof (induction tcps arbitrary: xs n s)
  case Nil
  then show ?case by (intro exI[of _ s] exI[of _ "[]"]) simp
next
  case (Cons tcp tcps)
  then obtain off len ys where xs: "xs = (off, len) # ys" and seg: "carries S isn key tcp (off, len)"
    and segs: "list_all2 (carries S isn key) tcps ys"
    by (auto simp: list_all2_Cons1)
  let ?n = "expect n (off, len)"
  have bounds: "n \<le> ?n" "?n \<le> length S" using expect_bounds[OF seg Cons.prems(2)] by auto
  obtain s1 msgs1 pkts1 where s1: "handle_outbound_tcp ep tcp s = (Done, s1)"
    "receiving key c isn ?n s1" "ch_queue (to_remote s1) = ch_queue (to_remote s) @ msgs1"
    "msgs1 = map (piece (conn_id c) S) (taken n [(off, len)])"
    "forwarded (conn_id c) msgs1 = drop n (take ?n S)"
    "ch_queue (to_tun s1) = ch_queue (to_tun s) @ pkts1"
    "parses ep pkts1 (map (data_ack key (conn_seq c) isn) (ack_trace n [(off, len)]))"
    "room (length ys) (to_remote s1)" "room (length ys) (to_tun s1)"
    using data_step[OF laws fam Cons.prems(1,2) S seg, of "length ys"] Cons.prems(4,5)
    unfolding xs length_Cons by blast
  obtain s2 msgs2 pkts2 where s2: "exec (map (handle_outbound_tcp ep) tcps) s1 = (Done, s2)"
    "receiving key c isn (foldl expect ?n ys) s2"
    "ch_queue (to_remote s2) = ch_queue (to_remote s1) @ msgs2"
    "msgs2 = map (piece (conn_id c) S) (taken ?n ys)"
    "forwarded (conn_id c) msgs2 = drop ?n (take (foldl expect ?n ys) S)"
    "ch_queue (to_tun s2) = ch_queue (to_tun s1) @ pkts2"
    "parses ep pkts2 (map (data_ack key (conn_seq c) isn) (ack_trace ?n ys))"
    using Cons.IH[OF s1(2) bounds(2) segs s1(8,9)] by blast
  have "parses ep (pkts1 @ pkts2) (map (data_ack key (conn_seq c) isn) (ack_trace n xs))"
    using list_all2_appendI[OF s1(7)[unfolded parses_def] s2(7)[unfolded parses_def]]
    by (simp add: parses_def xs)
  moreover have "forwarded (conn_id c) (msgs1 @ msgs2) = drop n (take (foldl expect n xs) S)"
    using s1(5) s2(5) drop_take_join[OF bounds(1) foldl_expect_ge] by (simp add: xs)
  ultimately show ?case
    using s1(1,3,4,6) s2(1,2,3,4,6)
    by (intro exI[of _ s2] exI[of _ "msgs1 @ msgs2"] exI[of _ "pkts1 @ pkts2"]) (simp add: xs)
qed

text \<open>An in-order sender: consecutive pieces, none lost, bring the receiver to the end.\<close>

fun tiling :: "nat \<Rightarrow> nat list \<Rightarrow> (nat \<times> nat) list" where
  "tiling n [] = []"
| "tiling n (len # lens) = (n, len) # tiling (n + len) lens"

lemma expect_tiling: "foldl expect n (tiling n lens) = n + sum_list lens"
  by (induction lens arbitrary: n) (simp_all add: expect_def)

text \<open>
  A sender that retransmits: its segments are pieces of one tiling of the stream, repeated
  and reordered at will. \<open>bounds\<close> are the offsets between the pieces; the receiver is always
  at one of them.
\<close>

fun bounds :: "nat \<Rightarrow> nat list \<Rightarrow> nat set" where
  "bounds n [] = {n}"
| "bounds n (len # lens) = insert n (bounds (n + len) lens)"

lemma bounds_start: "n \<in> bounds n lens"
  by (cases lens) auto

lemma bounds_ge: "k \<in> bounds n lens \<Longrightarrow> n \<le> k"
  by (induction lens arbitrary: n) fastforce+

lemma bounds_le: "k \<in> bounds n lens \<Longrightarrow> k \<le> n + sum_list lens"
  by (induction lens arbitrary: n) fastforce+

lemma bounds_tile: "(k, len) \<in> set (tiling n lens) \<Longrightarrow> k + len \<in> bounds n lens"
  by (induction lens arbitrary: n) (auto simp: bounds_start)

lemma bounds_expect:
  "k \<in> bounds n lens \<Longrightarrow> x \<in> set (tiling n lens) \<Longrightarrow> expect k x \<in> bounds n lens"
  by (cases x) (auto simp: expect_def bounds_tile)

text \<open>No bound lies inside a piece.\<close>

lemma bounds_gap:
  "k \<in> bounds n (ls @ len # lens) \<Longrightarrow> n + sum_list ls < k \<Longrightarrow> n + sum_list ls + len \<le> k"
proof (induction ls arbitrary: n)
  case Nil
  then show ?case using bounds_ge[of k "n + len" lens] by auto
next
  case (Cons l ls)
  then show ?case using Cons.IH[of "n + l"] by (auto simp: add.assoc)
qed

lemma expect_retransmit:
  assumes "set xs \<subseteq> set (tiling n (ls @ lens))" and "k \<in> bounds n (ls @ lens)"
    and "n + sum_list ls \<le> k" and "subseq (tiling (n + sum_list ls) lens) xs"
  shows "n + sum_list (ls @ lens) \<le> foldl expect k xs"
  using assms
proof (induction xs arbitrary: k ls lens)
  case Nil
  then show ?case by (cases lens) auto
next
  case (Cons x xs)
  have xs: "set xs \<subseteq> set (tiling n (ls @ lens))" using Cons.prems(1) by simp
  have k': "expect k x \<in> bounds n (ls @ lens)"
    using Cons.prems(1,2) by (intro bounds_expect) auto
  have ge: "k \<le> expect k x" by (simp add: expect_def)
  show ?case
  proof (cases lens)
    case Nil
    with Cons.prems(3) foldl_expect_ge[of k "x # xs"] show ?thesis by simp
  next
    case (Cons len rest)
    show ?thesis
    proof (cases "x = (n + sum_list ls, len) \<and> subseq (tiling (n + sum_list ls + len) rest) xs")
      case True
      have "n + sum_list ls + len \<le> expect k x"
        using True bounds_gap[of k n ls len rest] Cons.prems(2,3) \<open>lens = len # rest\<close>
        by (cases "k = n + sum_list ls") (auto simp: expect_def)
      then show ?thesis
        using Cons.IH[of "ls @ [len]" rest "expect k x"] xs k' True \<open>lens = len # rest\<close>
        by (simp add: add.assoc)
    next
      case False
      then have "subseq (tiling (n + sum_list ls) lens) xs"
        using Cons.prems(4) \<open>lens = len # rest\<close> by (auto simp: subseq_Cons2_iff split: if_splits)
      from Cons.IH[OF xs k' _ this] Cons.prems(3) ge show ?thesis by simp
    qed
  qed
qed

text \<open>The segments taken, and the ACKs, of any list of segments.\<close>

lemma taken_tiling:
  "tiling n (map snd (taken n xs)) = taken n xs \<and> subseq (taken n xs) xs \<and>
   n + sum_list (map snd (taken n xs)) = foldl expect n xs"
proof (induction xs arbitrary: n)
  case (Cons x xs)
  from Cons[of "expect n x"] show ?case by (cases x) (auto simp: expect_def)
qed simp

lemma foldl_expect_le:
  "list_all2 (carries S isn key) tcps xs \<Longrightarrow> n \<le> length S \<Longrightarrow> foldl expect n xs \<le> length S"
proof (induction xs arbitrary: n tcps)
  case (Cons x xs)
  then obtain tcp ys where "carries S isn key tcp x" "list_all2 (carries S isn key) ys xs"
    by (auto simp: list_all2_Cons2)
  with Cons expect_bounds show ?case by simp
qed simp

lemma ack_trace_props:
  "length (ack_trace n xs) = length (filter (\<lambda>x. 0 < snd x) xs) \<and> sorted (n # ack_trace n xs) \<and>
   set (ack_trace n xs) \<subseteq> insert n (bounds n (map snd (taken n xs))) \<and>
   (ack_trace n xs \<noteq> [] \<longrightarrow> last (ack_trace n xs) = foldl expect n xs)"
proof (induction xs arbitrary: n)
  case (Cons x xs)
  have idle: "foldl expect k xs = k" if "ack_trace k xs = []" for k
    using that by (induction xs arbitrary: k) (auto simp: expect_def split: if_splits)
  obtain off len where x: "x = (off, len)" by (cases x)
  show ?case
  proof (cases "off = n \<and> 0 < len")
    case True
    have "sorted (n # ack_trace (n + len) xs)" using Cons[of "n + len"] by auto
    moreover have "expect n x = n + len" using True by (simp add: x expect_def)
    ultimately show ?thesis using True Cons[of "n + len"] idle[of "n + len"]
      by (auto simp: x bounds_start)
  next
    case False
    then have "expect n x = n" by (auto simp: x expect_def)
    with False Cons[of n] idle[of n] show ?thesis by (auto simp: x)
  qed
qed simp

section \<open>Properties of the relayed streams\<close>

text \<open>
  C12: Downstream, data of any length that the remote sends on a live connection reaches the
  application as packets which, parsed in order, concatenate to exactly that data: segments of
  1 to 65495 bytes, as few as possible, from the connection's ends, with consecutive
  sequence numbers starting at the connection's, the current acknowledgment number, and PSH on
  the last one only; the connection's sequence number advances by the length of the data.
\<close>

theorem downstream_exact:
  assumes "etherparse_laws ep" "host_wf n s"
    and "tcp_by_id (nat_table s) i = Some key" "tcp_by_key (nat_table s) key = Some c"
    and "room ((length data + 65494) div 65495) (to_tun s)"
  shows "\<exists>s' pkts segs. handle_remote_message ep (RemoteMessage.TcpData i data) s = (Done, s') \<and>
    ch_queue (to_tun s') = ch_queue (to_tun s) @ pkts \<and>
    list_all2 (\<lambda>pkt seg. parse_ip_packet ep pkt = Ok (Tcp seg)) pkts segs \<and>
    concat (map tcp_payload segs) = data \<and> length segs = (length data + 65494) div 65495 \<and>
    (\<forall>j < length segs.
      tcp_key (segs ! j) = (case key of (k0, k1, k2, k3) \<Rightarrow> (k2, k3, k0, k1)) \<and>
      tcp_seq (segs ! j) = conn_seq c + word_of_nat (length (concat (map tcp_payload (take j segs)))) \<and>
      tcp_ack (segs ! j) = conn_ack c \<and>
      tcp_flags (segs ! j) = no_flags\<lparr>ack := True, psh := (Suc j = length segs)\<rparr> \<and>
      0 < length (tcp_payload (segs ! j)) \<and> length (tcp_payload (segs ! j)) \<le> 65495) \<and>
    tcp_by_key (nat_table s') =
      (tcp_by_key (nat_table s))(key \<mapsto> c\<lparr>conn_seq := conn_seq c + word_of_nat (length data)\<rparr>)"
proof -
  let ?cs = "chunks max_tcp_payload data"
  let ?segs = "segments key (conn_ack c) (conn_seq c) ?cs"
  have fam: "key_family key" using assms(2,3) by (auto simp: on_table_def dest: nat_wf_family)
  have count: "length ?cs = (length data + 65494) div 65495"
    using length_chunks[of max_tcp_payload data] by simp
  obtain s' pkts where run:
    "handle_remote_message ep (RemoteMessage.TcpData i data) s = (Done, s')"
    "ch_queue (to_tun s') = ch_queue (to_tun s) @ pkts" "parses ep pkts ?segs"
    "tcp_by_key (nat_table s') = advanced key c (length data) s"
    using remote_tcp_data_run[OF assms(1) fam assms(3,4), of data] assms(5)
    unfolding count by blast
  have payload: "tcp_payload (?segs ! j) = ?cs ! j" "?cs ! j \<in> set ?cs" if "j < length ?cs" for j
    using that segments_payload[of key "conn_ack c" "conn_seq c" ?cs]
    by (metis length_segments nth_map) (use that in simp)
  have "concat (map tcp_payload ?segs) = data"
    using segments_payload[of key "conn_ack c" "conn_seq c" ?cs] concat_chunks[of max_tcp_payload data]
    by simp
  moreover have "tcp_seq (?segs ! j) = conn_seq c + word_of_nat (length (concat (map tcp_payload (take j ?segs))))"
    if "j < length ?cs" for j
    using that segments_payload[of key "conn_ack c" "conn_seq c" ?cs]
    by (simp add: segments_seq flip: take_map)
  moreover note segments_shape[of _ ?cs key "conn_ack c" "conn_seq c"]
  moreover have "0 < length (?cs ! j) \<and> length (?cs ! j) \<le> 65495" if "j < length ?cs" for j
    using chunks_nonempty[OF payload(2)[OF that]] chunks_bounds[OF payload(2)[OF that]] by simp
  ultimately show ?thesis
    using run count payload(1)
    by (intro exI[of _ s'] exI[of _ pkts] exI[of _ ?segs])
       (simp add: parses_def advanced_def)
qed

theorem downstream_exact_witness:
  "\<exists>s' pkts segs. handle_remote_message rfc_etherparse (RemoteMessage.TcpData 1 [5, 6, 7])
      (example_host Established) = (Done, s') \<and>
    ch_queue (to_tun s') = pkts \<and>
    list_all2 (\<lambda>pkt seg. parse_ip_packet rfc_etherparse pkt = Ok (Tcp seg)) pkts segs \<and>
    concat (map tcp_payload segs) = [5, 6, 7] \<and> length segs = 1"
  using downstream_exact[OF rfc.etherparse_laws_axioms example_host_wf[of Established], of 1 example_key
      "\<lparr>conn_id = 1, conn_state = Established, conn_seq = 1000, conn_ack = 8\<rparr>" "[5, 6, 7]"]
  by (fastforce simp: example_host_entry room_def new_chan_def)

text \<open>
  C11: Upstream, an in-order receiver: of the application's data segments on an established
  connection, which may be repeated, overlap, overtake each other and leave gaps, exactly those
  are sent to the remote, each as one message, that begin at the next expected byte when they
  come; all others are dropped, also where they hold the next bytes behind old ones. So what is
  sent is the stream from the first expected byte to the last, each byte once, without a gap. And
  every segment that holds data is answered with one ACK for what has been forwarded by then.
\<close>

theorem upstream_in_order:
  assumes "etherparse_laws ep" "key_family key" "length S < 2 ^ 32"
    and "receiving key c isn n s" "n \<le> length S"
    and "list_all2 (carries S isn key) tcps xs"
    and "room (length xs) (to_remote s)" "room (length xs) (to_tun s)"
  shows "\<exists>s' lens pkts acks. exec (map (handle_outbound_tcp ep) tcps) s = (Done, s') \<and>
    subseq (tiling n lens) xs \<and> taken n xs = tiling n lens \<and> n + sum_list lens \<le> length S \<and>
    ch_queue (to_remote s') = ch_queue (to_remote s)
      @ map (\<lambda>(off, len). HostMessage.TcpData (conn_id c) (take len (drop off S))) (tiling n lens) \<and>
    forwarded (conn_id c) (drop (length (ch_queue (to_remote s))) (ch_queue (to_remote s')))
      = drop n (take (n + sum_list lens) S) \<and>
    ch_queue (to_tun s') = ch_queue (to_tun s) @ pkts \<and>
    parses ep pkts (map (data_ack key (conn_seq c) isn) acks) \<and>
    length acks = length (filter (\<lambda>x. 0 < snd x) xs) \<and> sorted (n # acks) \<and>
    set acks \<subseteq> insert n (bounds n lens) \<and> (acks \<noteq> [] \<longrightarrow> last acks = n + sum_list lens) \<and>
    receiving key c isn (n + sum_list lens) s'"
proof -
  let ?lens = "map snd (taken n xs)"
  obtain s' pkts where run: "exec (map (handle_outbound_tcp ep) tcps) s = (Done, s')"
    "receiving key c isn (foldl expect n xs) s'"
    "ch_queue (to_remote s') = ch_queue (to_remote s) @ map (piece (conn_id c) S) (taken n xs)"
    "forwarded (conn_id c) (map (piece (conn_id c) S) (taken n xs)) = drop n (take (foldl expect n xs) S)"
    "ch_queue (to_tun s') = ch_queue (to_tun s) @ pkts"
    "parses ep pkts (map (data_ack key (conn_seq c) isn) (ack_trace n xs))"
    using data_run[OF assms] by blast
  have "map (piece (conn_id c) S) (taken n xs) =
      map (\<lambda>(off, len). HostMessage.TcpData (conn_id c) (take len (drop off S))) (taken n xs)"
    by (simp add: piece_def split_beta)
  moreover note run taken_tiling[of n xs] foldl_expect_le[OF assms(6,5)] ack_trace_props[of n xs]
  ultimately show ?thesis
    by (intro exI[of _ s'] exI[of _ ?lens] exI[of _ pkts] exI[of _ "ack_trace n xs"]) simp
qed

text \<open>A segment of the example connection, which started at sequence number 7.\<close>

definition example_segment :: "bytes \<Rightarrow> nat \<Rightarrow> nat \<Rightarrow> TcpPacketInfo" where
  "example_segment S off len =
     \<lparr>tcp_src_ip = V4 0x0A000001, tcp_dst_ip = V4 0x08080808, tcp_src_port = 40000, tcp_dst_port = 80,
      tcp_seq = 8 + word_of_nat off, tcp_ack = 1001, tcp_flags = no_flags\<lparr>ack := True\<rparr>,
      tcp_window = 65535, tcp_payload = take len (drop off S)\<rparr>"

lemma example_segment_carries:
  "off + len \<le> length S \<Longrightarrow> carries S 7 example_key (example_segment S off len) (off, len)"
  by (simp add: example_segment_def tcp_key_def no_flags_def)

lemma example_receiving:
  "receiving example_key \<lparr>conn_id = 1, conn_state = Established, conn_seq = 1000, conn_ack = 8\<rparr> 7 0
     (example_host Established)"
  by (simp add: receiving_def example_host_entry)

theorem upstream_in_order_witness:
  "\<exists>s'. exec (map (handle_outbound_tcp rfc_etherparse)
        [example_segment [1, 2, 3, 4, 5] 2 2, example_segment [1, 2, 3, 4, 5] 0 2,
         example_segment [1, 2, 3, 4, 5] 0 4, example_segment [1, 2, 3, 4, 5] 2 1])
      (example_host Established) = (Done, s') \<and>
    ch_queue (to_remote s') = [HostMessage.TcpData 1 [1, 2], HostMessage.TcpData 1 [3]]"
proof -
  let ?S = "[1, 2, 3, 4, 5] :: bytes"
  let ?segs = "[example_segment ?S 2 2, example_segment ?S 0 2, example_segment ?S 0 4, example_segment ?S 2 1]"
  obtain s' lens where "exec (map (handle_outbound_tcp rfc_etherparse) ?segs) (example_host Established) = (Done, s')"
    "taken 0 [(2, 2), (0, 2), (0, 4), (2, 1)] = tiling 0 lens"
    "ch_queue (to_remote s') = ch_queue (to_remote (example_host Established))
      @ map (\<lambda>(off, len). HostMessage.TcpData 1 (take len (drop off ?S))) (tiling 0 lens)"
    using upstream_in_order[OF rfc.etherparse_laws_axioms, of example_key ?S
        "\<lparr>conn_id = 1, conn_state = Established, conn_seq = 1000, conn_ack = 8\<rparr>" 7 0
        "example_host Established" ?segs "[(2, 2), (0, 2), (0, 4), (2, 1)]"]
    by (simp add: example_receiving example_segment_carries key_family_def example_host_entry
        new_chan_def room_def del: exec.simps carries.simps taken.simps) blast
  moreover from this(2) have "tiling 0 lens = [(0, 2), (2, 1)]" by (simp add: expect_def)
  ultimately show ?thesis
    by (simp add: example_host_entry new_chan_def del: exec.simps)
qed

text \<open>
  C30: Upstream completeness: when the segments are pieces of one division of the stream and
  every piece is delivered, after its predecessors, at least once among arbitrary
  duplicates and stragglers, the whole stream is forwarded: a sender that retransmits gets
  all its data through.
\<close>

theorem upstream_complete:
  assumes "etherparse_laws ep" "key_family key" "length S < 2 ^ 32"
    and "receiving key c isn 0 s" "list_all2 (carries S isn key) tcps xs"
    and "set xs \<subseteq> set (tiling 0 lens)" "subseq (tiling 0 lens) xs" "sum_list lens = length S"
    and "room (length xs) (to_remote s)" "room (length xs) (to_tun s)"
  shows "\<exists>s' msgs. exec (map (handle_outbound_tcp ep) tcps) s = (Done, s') \<and>
    ch_queue (to_remote s') = ch_queue (to_remote s) @ msgs \<and> forwarded (conn_id c) msgs = S"
proof -
  have "length S \<le> foldl expect 0 xs"
    using expect_retransmit[of xs 0 "[]" lens 0] assms(6-8) by (simp add: bounds_start)
  then show ?thesis
    using data_run[OF assms(1-4) _ assms(5,9,10)] by auto
qed

theorem upstream_complete_witness:
  "\<exists>s' msgs. exec (map (handle_outbound_tcp rfc_etherparse)
        [example_segment [1, 2, 3] 2 1, example_segment [1, 2, 3] 0 2,
         example_segment [1, 2, 3] 0 2, example_segment [1, 2, 3] 2 1])
      (example_host Established) = (Done, s') \<and>
    ch_queue (to_remote s') = msgs \<and> forwarded 1 msgs = [1, 2, 3]"
  using upstream_complete[OF rfc.etherparse_laws_axioms, of example_key "[1, 2, 3]"
      "\<lparr>conn_id = 1, conn_state = Established, conn_seq = 1000, conn_ack = 8\<rparr>" 7
      "example_host Established"
      "[example_segment [1, 2, 3] 2 1, example_segment [1, 2, 3] 0 2,
        example_segment [1, 2, 3] 0 2, example_segment [1, 2, 3] 2 1]"
      "[(2, 1), (0, 2), (0, 2), (2, 1)]" "[2, 1]"]
  by (simp add: example_receiving example_segment_carries key_family_def example_host_entry
      new_chan_def room_def del: exec.simps carries.simps)

end
