(* ===== verification/Host_Lifecycle.thy ===== *)
theory Host_Lifecycle
  imports Host_Streams
begin

text \<open>
  The connection states as the host drives them: an abstract automaton per connection that
  the handlers implement step for step, and the isolation of connections from each other.
\<close>

section \<open>The automaton\<close>

text \<open>
  The state of one connection (\<open>None\<close>: the table has no entry) after a segment from the
  application with these flags, and after a message from the remote.
\<close>

definition app_next :: "TcpFlags \<Rightarrow> ConnectionState option \<Rightarrow> ConnectionState option" where
  "app_next flags st =
     (if syn flags \<and> \<not> ack flags then Some SynSent
      else case st of
        None \<Rightarrow> None
      | Some st \<Rightarrow>
          (if rst flags then None
           else case st of
             SynSent \<Rightarrow> Some SynSent
           | Established \<Rightarrow> Some (if fin flags then FinWait else Established)
           | FinWait \<Rightarrow> Some FinWait
           | CloseWait \<Rightarrow> (if fin flags then None else Some CloseWait)
           | LastAck \<Rightarrow> (if ack flags then None else Some LastAck)))"

fun remote_next :: "RemoteMessage \<Rightarrow> ConnectionState option \<Rightarrow> ConnectionState option" where
  "remote_next (TcpConnected i) st = map_option (\<lambda>_. Established) st"
| "remote_next (TcpClosed i) (Some Established) = Some CloseWait"
| "remote_next (TcpClosed i) (Some FinWait) = Some LastAck"
| "remote_next (TcpClosed i) _ = None"
| "remote_next (TcpError i e) st = None"
| "remote_next _ st = st"

text \<open>
  The order in which a connection goes through its states; of the two ways to close, the one
  that begins with the application comes later.
\<close>

fun stage :: "ConnectionState \<Rightarrow> nat" where
  "stage SynSent = 0"
| "stage Established = 1"
| "stage CloseWait = 2"
| "stage FinWait = 3"
| "stage LastAck = 4"

lemma stage_inject: "stage a = stage b \<Longrightarrow> a = b"
  by (cases a; cases b) simp_all

instantiation ConnectionState :: linorder
begin

definition less_eq_ConnectionState :: "ConnectionState \<Rightarrow> ConnectionState \<Rightarrow> bool" where
  "less_eq_ConnectionState a b \<longleftrightarrow> stage a \<le> stage b"

definition less_ConnectionState :: "ConnectionState \<Rightarrow> ConnectionState \<Rightarrow> bool" where
  "less_ConnectionState a b \<longleftrightarrow> stage a < stage b"

instance
  by standard (auto simp: less_eq_ConnectionState_def less_ConnectionState_def dest: stage_inject)

end

section \<open>Completed statements\<close>

lemma exec_Done_iff:
  "exec (m # ms) s = (Done, s') \<longleftrightarrow> (\<exists>s1. m s = (Done, s1) \<and> exec ms s1 = (Done, s'))"
  by (cases "m s"; cases "fst (m s)") auto

declare exec.simps(2) [simp del]

lemma send_Done:
  "send_remote m s = (Done, s') \<Longrightarrow> nat_table s' = nat_table s"
  "send_tun pkt s = (Done, s') \<Longrightarrow> nat_table s' = nat_table s"
  by (auto simp: send_remote_def send_tun_def split: send_result.splits)

lemma with_built_Done:
  "with_built b k s = (Done, s') \<longleftrightarrow> (\<exists>pkt. b = Ok pkt \<and> k pkt s = (Done, s'))"
  by (auto simp: with_built_def split: outcome.splits)

lemma state_simps [simp]:
  "get_tcp_state key (update_tcp_ack i a t) = get_tcp_state key t"
  "get_tcp_state key (advance_tcp_seq i n t) = get_tcp_state key t"
  "get_tcp_state key (advance_tcp_seq_syn i t) = get_tcp_state key t"
  "get_tcp_state key (close_tcp_connection key t) = None"
  "get_tcp_state key (set_tcp_state key st t) = map_option (\<lambda>_. st) (get_tcp_state key t)"
  "get_tcp_state key (snd (create_tcp_connection (key, isn) t)) = Some SynSent"
  by (auto simp: get_tcp_state_def update_tcp_ack_def advance_tcp_seq_def advance_tcp_seq_syn_def
      nat_simps option.map_comp comp_def split: option.split)

lemma send_ack_Done: "send_ack ep key cid s = (Done, s') \<Longrightarrow> nat_table s' = nat_table s"
  by (auto simp: send_ack_def with_state_def with_built_Done dest: send_Done)

lemma forward_Done:
  "forward_in_order cid tcp s = (Done, s') \<Longrightarrow>
   \<forall>key. get_tcp_state key (nat_table s') = get_tcp_state key (nat_table s)"
  by (auto simp: forward_in_order_def with_state_def exec_Done_iff flow_simps dest!: send_Done
      split: if_splits)

lemma send_chunk_Done:
  "send_chunk ep key i p push s = (Done, s') \<Longrightarrow>
   \<forall>key. get_tcp_state key (nat_table s') = get_tcp_state key (nat_table s)"
  by (auto simp: send_chunk_def with_state_def with_built_Done exec_Done_iff flow_simps dest!: send_Done)

lemma chunks_Done:
  "exec (chunk_stmts ep key i len off cs) s = (Done, s') \<Longrightarrow>
   \<forall>key. get_tcp_state key (nat_table s') = get_tcp_state key (nat_table s)"
  by (induction cs arbitrary: off s) (auto simp: exec_Done_iff dest!: send_chunk_Done)

lemma send_fin_Done:
  "send_fin ep key i st s = (Done, s') \<Longrightarrow>
   get_tcp_state key (nat_table s') = map_option (\<lambda>_. st) (get_tcp_state key (nat_table s))"
  by (auto simp: send_fin_def with_state_def with_built_Done exec_Done_iff flow_simps
      dest!: send_Done)

lemmas done_simps = exec_Done_iff with_built_Done with_state_def upd_nat_run
lemmas done_dests = send_Done send_ack_Done forward_Done send_fin_Done chunks_Done

section \<open>The handlers implement the automaton\<close>

lemma outbound_known_life:
  assumes "outbound_known ep key cid tcp s = (Done, s')"
    and "get_tcp_state key (nat_table s) = Some st"
    and "\<not> (syn (tcp_flags tcp) \<and> \<not> ack (tcp_flags tcp))"
  shows "get_tcp_state key (nat_table s') = app_next (tcp_flags tcp) (Some st)"
proof (cases "rst (tcp_flags tcp)")
  case True
  with assms show ?thesis
    by (auto simp: outbound_known_def app_next_def done_simps dest!: send_Done)
next
  case False
  show ?thesis
  proof (cases st)
    case SynSent
    with assms False show ?thesis by (simp add: outbound_known_def app_next_def done_simps)
  next
    case Established
    with assms False show ?thesis
      by (cases key)
         (auto simp: outbound_known_def app_next_def done_simps outbound_established_def
          outbound_established_fin_def outbound_established_data_def
          dest!: done_dests split: if_splits)
  next
    case FinWait
    with assms False show ?thesis by (simp add: outbound_known_def app_next_def done_simps)
  next
    case CloseWait
    with assms False show ?thesis
      by (auto simp: outbound_known_def app_next_def done_simps outbound_close_wait_def
          split: if_splits)
  next
    case LastAck
    with assms False show ?thesis
      by (auto simp: outbound_known_def app_next_def done_simps split: if_splits)
  qed
qed

lemma outbound_tcp_life:
  assumes "handle_outbound_tcp ep tcp s = (Done, s')"
  shows "get_tcp_state (tcp_key tcp) (nat_table s')
    = app_next (tcp_flags tcp) (get_tcp_state (tcp_key tcp) (nat_table s))"
proof (cases "syn (tcp_flags tcp) \<and> \<not> ack (tcp_flags tcp)")
  case True
  with assms show ?thesis
    by (auto simp: handle_outbound_tcp_def Let_def app_next_def outbound_syn_def split_beta
        dest!: send_Done)
next
  case False
  show ?thesis
  proof (cases "tcp_by_key (nat_table s) (tcp_key tcp)")
    case None
    with assms False show ?thesis
      by (auto simp: handle_outbound_tcp_def Let_def app_next_def done_simps
          get_tcp_connection_id_def get_tcp_state_def)
  next
    case (Some c)
    then have st: "get_tcp_state (tcp_key tcp) (nat_table s) = Some (conn_state c)"
      by (simp add: get_tcp_state_def)
    from Some assms False have "outbound_known ep (tcp_key tcp) (conn_id c) tcp s = (Done, s')"
      by (auto simp: handle_outbound_tcp_def Let_def with_state_def get_tcp_connection_id_def)
    from outbound_known_life[OF this st False] st show ?thesis by simp
  qed
qed

lemma remote_closed_life:
  assumes "remote_tcp_closed ep key i s = (Done, s')"
  shows "get_tcp_state key (nat_table s') = remote_next (TcpClosed i) (get_tcp_state key (nat_table s))"
  using assms
  by (auto simp: remote_tcp_closed_def done_simps dest!: send_fin_Done
      split: option.splits ConnectionState.splits)

lemma remote_message_life:
  assumes "handle_remote_message ep msg s = (Done, s')" and "message_id msg = Some i"
    and "tcp_by_id (nat_table s) i = Some key"
  shows "get_tcp_state key (nat_table s') = remote_next msg (get_tcp_state key (nat_table s))"
  using assms
  by (cases msg)
     (auto simp: for_key_def get_tcp_connection_key_def done_simps remote_tcp_connected_def
        remote_tcp_error_def remote_tcp_data_def option.map_comp comp_def
        dest!: done_dests remote_closed_life)

section \<open>Properties: the table implements one automaton per connection\<close>

datatype host_event = AppSegment TcpPacketInfo | RemoteMsg RemoteMessage

fun handle_event :: "etherparse \<Rightarrow> host_event \<Rightarrow> host_stmt" where
  "handle_event ep (AppSegment tcp) = handle_outbound_tcp ep tcp"
| "handle_event ep (RemoteMsg msg) = handle_remote_message ep msg"

text \<open>The connection an event belongs to, and the abstract step it makes there.\<close>

fun event_key :: "NatTable \<Rightarrow> host_event \<Rightarrow> TcpKey option" where
  "event_key t (AppSegment tcp) = Some (tcp_key tcp)"
| "event_key t (RemoteMsg msg) = Option.bind (message_id msg) (\<lambda>i. get_tcp_connection_key i t)"

fun event_next :: "host_event \<Rightarrow> ConnectionState option \<Rightarrow> ConnectionState option" where
  "event_next (AppSegment tcp) = app_next (tcp_flags tcp)"
| "event_next (RemoteMsg msg) = remote_next msg"

text \<open>A connection is opened again by a SYN, and established by \<open>TcpConnected\<close> in any state.\<close>

fun reopens :: "host_event \<Rightarrow> bool" where
  "reopens (AppSegment tcp) \<longleftrightarrow> is_syn tcp"
| "reopens (RemoteMsg (TcpConnected i)) \<longleftrightarrow> True"
| "reopens (RemoteMsg msg) \<longleftrightarrow> False"

lemma event_next_forward: "event_next ev (Some st) = Some st' \<Longrightarrow> \<not> reopens ev \<Longrightarrow> st \<le> st'"
  by (cases ev rule: reopens.cases; cases st)
     (auto simp: app_next_def is_syn_def less_eq_ConnectionState_def split: if_splits)

lemma event_life:
  assumes "handle_event ep ev s = (Done, s')" and "host_wf n s"
  shows "(\<lambda>key. get_tcp_state key (nat_table s')) =
    (case event_key (nat_table s) ev of
       None \<Rightarrow> (\<lambda>key. get_tcp_state key (nat_table s))
     | Some k \<Rightarrow> (\<lambda>key. get_tcp_state key (nat_table s))
                   (k := event_next ev (get_tcp_state k (nat_table s))))"
proof (cases ev)
  case (AppSegment tcp)
  then have h: "handle_outbound_tcp ep tcp s = (Done, s')" using assms(1) by simp
  have "get_tcp_state key (nat_table s') = get_tcp_state key (nat_table s)" if "key \<noteq> tcp_key tcp" for key
    using other_keys_outbound[of n s key tcp ep] assms(2) that h
    by (simp add: on_table_def get_tcp_state_def)
  with AppSegment outbound_tcp_life[OF h] show ?thesis by (simp add: fun_eq_iff)
next
  case (RemoteMsg msg)
  then have h: "handle_remote_message ep msg s = (Done, s')" using assms(1) by simp
  have other: "get_tcp_state key (nat_table s') = get_tcp_state key (nat_table s)"
    if "\<And>i. message_id msg = Some i \<Longrightarrow> tcp_by_id (nat_table s) i \<noteq> Some key" for key
    using other_keys_remote[of msg s key ep, OF that] h by (simp add: get_tcp_state_def)
  show ?thesis
  proof (cases "event_key (nat_table s) ev")
    case None
    then have "get_tcp_state key (nat_table s') = get_tcp_state key (nat_table s)" for key
      using RemoteMsg by (intro other) (auto simp: get_tcp_connection_key_def)
    with None show ?thesis by (simp add: fun_eq_iff)
  next
    case (Some k)
    then obtain i where i: "message_id msg = Some i" "tcp_by_id (nat_table s) i = Some k"
      using RemoteMsg by (auto simp: get_tcp_connection_key_def bind_eq_Some_conv)
    have "get_tcp_state key (nat_table s') = get_tcp_state key (nat_table s)" if "key \<noteq> k" for key
      using that i by (intro other) auto
    with Some RemoteMsg remote_message_life[OF h i] show ?thesis by (simp add: fun_eq_iff)
  qed
qed

text \<open>
  C9: Every event that its handler completes moves the connection it belongs to as the
  automaton \<open>app_next\<close>/\<open>remote_next\<close> says, from any state and with any flags, and no other:
  the table, seen as a map from keys to states, is updated at that key only. No connection goes back to an earlier
  state, unless a SYN opens it again or the remote reports it as connected.
\<close>

theorem lifecycle_refines:
  assumes "handle_event ep ev s = (Done, s')" and "host_wf n s"
  shows "(\<lambda>key. get_tcp_state key (nat_table s')) =
    (case event_key (nat_table s) ev of
       None \<Rightarrow> (\<lambda>key. get_tcp_state key (nat_table s))
     | Some k \<Rightarrow> (\<lambda>key. get_tcp_state key (nat_table s))
                   (k := event_next ev (get_tcp_state k (nat_table s)))) \<and>
    (\<forall>key st st'. get_tcp_state key (nat_table s) = Some st \<and> get_tcp_state key (nat_table s') = Some st' \<and>
       \<not> reopens ev \<longrightarrow> st \<le> st')"
proof (intro conjI allI impI, goal_cases)
  case 1
  show ?case by (rule event_life[OF assms])
next
  case (2 key st st')
  note fun_cong[OF event_life[OF assms], of key]
  with 2 have "st' = st \<or> event_next ev (Some st) = Some st'"
    by (auto split: option.splits if_splits)
  with 2 show ?case using event_next_forward[of ev st st'] by auto
qed

theorem lifecycle_refines_witness:
  "\<exists>s'. handle_remote_message rfc_etherparse (TcpError 1 ''refused'') (example_host SynSent) = (Done, s') \<and>
    get_tcp_state example_key (nat_table s') = None"
proof -
  have fam: "key_family example_key" by (simp add: key_family_def)
  obtain pkt where pkt: "tcp_build rfc_etherparse
      (reply_packet example_key 0 0 (no_flags\<lparr>rst := True\<rparr>) 0 []) = Ok pkt"
    using reply_Ok[OF rfc.etherparse_laws_axioms fam, of "[]"] by (metis list.size(3) zero_le)
  have room: "room (Suc 0) (to_tun (example_host SynSent))"
    by (simp add: example_host_entry room_def new_chan_def)
  obtain s' where run: "handle_event rfc_etherparse (RemoteMsg (TcpError 1 ''refused'')) (example_host SynSent)
      = (Done, s')"
    using send_tun_run[OF room] pkt
    by (auto simp: for_key_def get_tcp_connection_key_def example_host_entry remote_tcp_error_def
        exec_Done_iff with_built_Done with_state_def upd_nat_run)
  have "event_key (nat_table (example_host SynSent)) (RemoteMsg (TcpError 1 ''refused'')) = Some example_key"
    by (simp add: get_tcp_connection_key_def example_host_entry)
  from lifecycle_refines[OF run example_host_wf, THEN conjunct1, THEN fun_cong, of example_key] this run show ?thesis by auto
qed

end
