(* ===== verification/Host_Sessions.thy ===== *)
theory Host_Sessions
  imports Host_Lifecycle
begin

text \<open>
  Whole exchanges as the handlers of \<open>src/src/host/mod.rs\<close> play them: opening a connection,
  closing it from either side, a UDP request and its reply; and the exchanges in which the host
  departs from TCP.
\<close>

section \<open>Single steps on a channel with room\<close>

lemma with_reply_run:
  assumes "etherparse_laws ep" "key_family key"
  obtains pkt where "tcp_build ep (reply_packet key sq ak flags win []) = Ok pkt"
    "parse_ip_packet ep pkt = Ok (Tcp (reply_info key sq ak flags win []))"
  using reply_Ok[OF assms, of "[]"] by (metis list.size(3) zero_le)

lemma outbound_syn_run:
  assumes "is_syn tcp" "room (Suc k) (to_remote s)"
  shows "handle_outbound_tcp ep tcp s = (Done, s
    \<lparr>nat_table := snd (create_tcp_connection (tcp_key tcp, tcp_seq tcp) (nat_table s)),
     to_remote := to_remote s\<lparr>ch_queue := ch_queue (to_remote s)
       @ [TcpConnect (next_id (nat_table s)) (tcp_dst_ip tcp) (tcp_dst_port tcp)]\<rparr>\<rparr>)"
  using assms
  by (simp add: handle_outbound_tcp_def is_syn_def Let_def outbound_syn_def split_beta
      send_remote_run[where k = k] create_simps)

lemma connected_run:
  assumes laws: "etherparse_laws ep" and fam: "key_family key"
    and entry: "tcp_by_id (nat_table s) i = Some key" "tcp_by_key (nat_table s) key = Some c"
    and room: "room (Suc k) (to_tun s)"
  obtains pkt s' where
    "handle_remote_message ep (TcpConnected i) s = (Done, s')"
    "parse_ip_packet ep pkt = Ok (Tcp (reply_info key (conn_seq c) (conn_ack c)
       (no_flags\<lparr>syn := True, ack := True\<rparr>) 65535 []))"
    "ch_queue (to_tun s') = ch_queue (to_tun s) @ [pkt]" "room k (to_tun s')"
    "tcp_by_key (nat_table s') =
       (tcp_by_key (nat_table s))(key \<mapsto> c\<lparr>conn_state := Established, conn_seq := conn_seq c + 1\<rparr>)"
    "tcp_by_id (nat_table s') = tcp_by_id (nat_table s)"
    "to_remote s' = to_remote s"
proof -
  obtain pkt where pkt: "tcp_build ep (reply_packet key (conn_seq c) (conn_ack c)
      (no_flags\<lparr>syn := True, ack := True\<rparr>) 65535 []) = Ok pkt"
    "parse_ip_packet ep pkt = Ok (Tcp (reply_info key (conn_seq c) (conn_ack c)
      (no_flags\<lparr>syn := True, ack := True\<rparr>) 65535 []))"
    using with_reply_run[OF laws fam] .
  let ?t = "set_tcp_state key Established (nat_table s)"
  let ?s = "s\<lparr>nat_table := advance_tcp_seq_syn i ?t,
    to_tun := to_tun s\<lparr>ch_queue := ch_queue (to_tun s) @ [pkt]\<rparr>\<rparr>"
  have id: "tcp_by_id ?t i = Some key" and
    conn: "tcp_by_key ?t key = Some (c\<lparr>conn_state := Established\<rparr>)"
    using entry by (simp_all add: nat_simps)
  have "handle_remote_message ep (TcpConnected i) s = (Done, ?s)"
    using entry pkt(1) room get_simps[OF id conn]
    by (simp add: for_key_def get_tcp_connection_key_def remote_tcp_connected_def flow_simps
        send_tun_run[where k = k] exec.simps)
  with pkt(2) entry room id conn show thesis
    by (intro that[of ?s pkt]) (simp_all add: flow_simps advance_tcp_seq_syn_def nat_simps)
qed

lemma send_fin_run:
  assumes laws: "etherparse_laws ep" and fam: "key_family key"
    and entry: "tcp_by_id (nat_table s) i = Some key" "tcp_by_key (nat_table s) key = Some c"
    and room: "room (Suc k) (to_tun s)"
  obtains pkt s' where
    "send_fin ep key i st s = (Done, s')"
    "parse_ip_packet ep pkt = Ok (Tcp (reply_info key (conn_seq c) (conn_ack c)
       (no_flags\<lparr>fin := True, ack := True\<rparr>) 65535 []))"
    "ch_queue (to_tun s') = ch_queue (to_tun s) @ [pkt]" "room k (to_tun s')"
    "tcp_by_key (nat_table s') =
       (tcp_by_key (nat_table s))(key \<mapsto> c\<lparr>conn_seq := conn_seq c + 1, conn_state := st\<rparr>)"
    "tcp_by_id (nat_table s') = tcp_by_id (nat_table s)"
    "to_remote s' = to_remote s"
proof -
  obtain pkt where pkt: "tcp_build ep (reply_packet key (conn_seq c) (conn_ack c)
      (no_flags\<lparr>fin := True, ack := True\<rparr>) 65535 []) = Ok pkt"
    "parse_ip_packet ep pkt = Ok (Tcp (reply_info key (conn_seq c) (conn_ack c)
      (no_flags\<lparr>fin := True, ack := True\<rparr>) 65535 []))"
    using with_reply_run[OF laws fam] .
  let ?s = "s\<lparr>nat_table := set_tcp_state key st (advance_tcp_seq i 1 (nat_table s)),
    to_tun := to_tun s\<lparr>ch_queue := ch_queue (to_tun s) @ [pkt]\<rparr>\<rparr>"
  have "send_fin ep key i st s = (Done, ?s)"
    using entry pkt(1) room get_simps[OF entry]
    by (simp add: send_fin_def flow_simps send_tun_run[where k = k] exec.simps)
  with pkt(2) entry room show thesis
    by (intro that[of ?s pkt]) (simp_all add: flow_simps nat_simps)
qed

section \<open>Opening\<close>

text \<open>
  C13: The opening handshake: a SYN makes the host ask the remote for a connection to the
  destination under a fresh identifier, and nothing else; when the remote reports success the
  application gets one SYN-ACK from that destination with sequence number 1000 and the SYN's
  number plus one acknowledged, and the connection is ready to receive the stream at offset 0.
\<close>

theorem handshake:
  assumes "etherparse_laws ep" "host_wf n s" "n < 2 ^ 32"
    and "is_syn tcp" "key_family (tcp_key tcp)"
    and "room 1 (to_remote s)" "room 1 (to_tun s)"
  shows "\<exists>s1 s2 pkt. handle_outbound_tcp ep tcp s = (Done, s1) \<and>
    ch_queue (to_remote s1) = ch_queue (to_remote s)
      @ [TcpConnect (next_id (nat_table s)) (tcp_dst_ip tcp) (tcp_dst_port tcp)] \<and>
    to_tun s1 = to_tun s \<and> tcp_by_id (nat_table s) (next_id (nat_table s)) = None \<and>
    handle_remote_message ep (TcpConnected (next_id (nat_table s))) s1 = (Done, s2) \<and>
    to_remote s2 = to_remote s1 \<and> ch_queue (to_tun s2) = ch_queue (to_tun s) @ [pkt] \<and>
    parse_ip_packet ep pkt = Ok (Tcp
      \<lparr>tcp_src_ip = tcp_dst_ip tcp, tcp_dst_ip = tcp_src_ip tcp, tcp_src_port = tcp_dst_port tcp,
       tcp_dst_port = tcp_src_port tcp, tcp_seq = 1000, tcp_ack = tcp_seq tcp + 1,
       tcp_flags = no_flags\<lparr>syn := True, ack := True\<rparr>, tcp_window = 65535, tcp_payload = []\<rparr>) \<and>
    receiving (tcp_key tcp) \<lparr>conn_id = next_id (nat_table s), conn_state = Established,
      conn_seq = 1001, conn_ack = tcp_seq tcp + 1\<rparr> (tcp_seq tcp) 0 s2"
proof -
  have fresh: "tcp_by_id (nat_table s) (next_id (nat_table s)) = None"
    using assms(2,3) by (auto simp: on_table_def intro: ids_within_fresh nat_wf_ids)
  let ?t = "snd (create_tcp_connection (tcp_key tcp, tcp_seq tcp) (nat_table s))"
  let ?s1 = "s\<lparr>nat_table := ?t, to_remote := to_remote s\<lparr>ch_queue := ch_queue (to_remote s)
       @ [TcpConnect (next_id (nat_table s)) (tcp_dst_ip tcp) (tcp_dst_port tcp)]\<rparr>\<rparr>"
  let ?c = "\<lparr>conn_id = next_id (nat_table s), conn_state = SynSent, conn_seq = 1000,
    conn_ack = tcp_seq tcp + 1\<rparr>"
  have run: "handle_outbound_tcp ep tcp s = (Done, ?s1)"
    using assms(4,6) by (intro outbound_syn_run[where k = 0]) simp_all
  have entry: "tcp_by_id (nat_table ?s1) (next_id (nat_table s)) = Some (tcp_key tcp)"
    "tcp_by_key (nat_table ?s1) (tcp_key tcp) = Some ?c"
    by (simp_all add: create_simps)
  have room: "room (Suc 0) (to_tun ?s1)" using assms(7) by simp
  obtain pkt s2 where raw:
    "handle_remote_message ep (TcpConnected (next_id (nat_table s))) ?s1 = (Done, s2)"
    "parse_ip_packet ep pkt = Ok (Tcp (reply_info (tcp_key tcp) (conn_seq ?c) (conn_ack ?c)
       (no_flags\<lparr>syn := True, ack := True\<rparr>) 65535 []))"
    "ch_queue (to_tun s2) = ch_queue (to_tun ?s1) @ [pkt]"
    "tcp_by_key (nat_table s2) = (tcp_by_key (nat_table ?s1))
       (tcp_key tcp \<mapsto> ?c\<lparr>conn_state := Established, conn_seq := conn_seq ?c + 1\<rparr>)"
    "tcp_by_id (nat_table s2) = tcp_by_id (nat_table ?s1)" "to_remote s2 = to_remote ?s1"
    using connected_run[OF assms(1,5) entry room] by metis
  have s2: "parse_ip_packet ep pkt = Ok (Tcp (reply_info (tcp_key tcp) 1000 (tcp_seq tcp + 1)
       (no_flags\<lparr>syn := True, ack := True\<rparr>) 65535 []))"
    "ch_queue (to_tun s2) = ch_queue (to_tun s) @ [pkt]"
    "tcp_by_id (nat_table s2) (next_id (nat_table s)) = Some (tcp_key tcp)"
    "tcp_by_key (nat_table s2) (tcp_key tcp) = Some \<lparr>conn_id = next_id (nat_table s),
       conn_state = Established, conn_seq = 1001, conn_ack = tcp_seq tcp + 1\<rparr>"
    using raw(2-5) entry(1) by simp_all
  have info: "reply_info (tcp_key tcp) 1000 (tcp_seq tcp + 1) (no_flags\<lparr>syn := True, ack := True\<rparr>) 65535 [] =
      \<lparr>tcp_src_ip = tcp_dst_ip tcp, tcp_dst_ip = tcp_src_ip tcp, tcp_src_port = tcp_dst_port tcp,
       tcp_dst_port = tcp_src_port tcp, tcp_seq = 1000, tcp_ack = tcp_seq tcp + 1,
       tcp_flags = no_flags\<lparr>syn := True, ack := True\<rparr>, tcp_window = 65535, tcp_payload = []\<rparr>"
    by (simp add: reply_info_def tcp_info_of_def reply_packet_def tcp_key_def)
  have rcv: "receiving (tcp_key tcp) \<lparr>conn_id = next_id (nat_table s), conn_state = Established,
      conn_seq = 1001, conn_ack = tcp_seq tcp + 1\<rparr> (tcp_seq tcp) 0 s2"
    using s2(3,4) by (simp add: receiving_def)
  show ?thesis
    by (intro exI[of _ ?s1] exI[of _ s2] exI[of _ pkt] conjI run fresh raw(1,6) s2(2) rcv
        s2(1)[unfolded info]) simp_all
qed

theorem handshake_witness:
  "\<exists>s1 s2 pkt. handle_outbound_tcp rfc_etherparse
      ((example_segment [] 0 0)\<lparr>tcp_seq := 7, tcp_flags := no_flags\<lparr>syn := True\<rparr>\<rparr>) (initial_host None) = (Done, s1) \<and>
    ch_queue (to_remote s1) = [TcpConnect 1 (V4 0x08080808) 80] \<and>
    handle_remote_message rfc_etherparse (TcpConnected 1) s1 = (Done, s2) \<and>
    ch_queue (to_tun s2) = [pkt] \<and>
    parse_ip_packet rfc_etherparse pkt = Ok (Tcp
      \<lparr>tcp_src_ip = V4 0x08080808, tcp_dst_ip = V4 0x0A000001, tcp_src_port = 80,
       tcp_dst_port = 40000, tcp_seq = 1000, tcp_ack = 8,
       tcp_flags = no_flags\<lparr>syn := True, ack := True\<rparr>, tcp_window = 65535, tcp_payload = []\<rparr>)"
proof -
  let ?syn = "(example_segment [] 0 0)\<lparr>tcp_seq := 7, tcp_flags := no_flags\<lparr>syn := True\<rparr>\<rparr>"
  let ?s = "initial_host None"
  have h: "is_syn ?syn" "key_family (tcp_key ?syn)" "room 1 (to_remote ?s)" "room 1 (to_tun ?s)"
    by (simp_all add: is_syn_def example_segment_def tcp_key_def key_family_def initial_host_def
        room_def new_chan_def no_flags_def)
  have v: "next_id (nat_table ?s) = 1" "ch_queue (to_remote ?s) = []" "ch_queue (to_tun ?s) = []"
    "tcp_dst_ip ?syn = V4 0x08080808" "tcp_src_ip ?syn = V4 0x0A000001" "tcp_dst_port ?syn = 80"
    "tcp_src_port ?syn = 40000" "tcp_seq ?syn = 7"
    by (simp_all add: example_segment_def initial_host_def nat_new_def new_chan_def)
  show ?thesis
    using handshake[OF rfc.etherparse_laws_axioms initial_host_wf _ h] unfolding v by auto
qed

section \<open>Closing\<close>

text \<open>A segment of a known connection reaches the code for the state of that connection.\<close>

lemma outbound_known_run:
  assumes "tcp_key tcp = key" "tcp_by_key (nat_table s) key = Some c"
    and "\<not> is_syn tcp" "\<not> rst (tcp_flags tcp)"
  shows "handle_outbound_tcp ep tcp s =
    (case conn_state c of
       Established \<Rightarrow> outbound_established ep key (conn_id c) tcp s
     | CloseWait \<Rightarrow> outbound_close_wait ep key (conn_id c) tcp s
     | LastAck \<Rightarrow> (if ack (tcp_flags tcp) then upd_nat (close_tcp_connection key) s else (Done, s))
     | _ \<Rightarrow> (Done, s))"
proof -
  have "exec [upd_nat (close_tcp_connection key)] s = upd_nat (close_tcp_connection key) s"
    by (simp add: exec.simps upd_nat_run)
  moreover have "(syn (tcp_flags tcp) \<and> \<not> ack (tcp_flags tcp)) = False"
    using assms(3) by (simp add: is_syn_def)
  ultimately show ?thesis
    using assms(1,2,4)
    by (cases "conn_state c")
       (simp_all only: handle_outbound_tcp_def if_False, simp_all add: Let_def with_state_run
        get_tcp_connection_id_def outbound_known_def get_tcp_state_def)
qed

text \<open>The data a FIN carries is sent to the remote, without a look at its sequence number.\<close>

definition fin_messages :: "u32 \<Rightarrow> bytes \<Rightarrow> HostMessage list" where
  "fin_messages cid p = (if p = [] then [] else [HostMessage.TcpData cid p]) @ [TcpClose cid]"

lemma fin_run:
  assumes laws: "etherparse_laws ep" and wf: "host_wf n s"
    and entry: "tcp_by_key (nat_table s) (tcp_key tcp) = Some c" "conn_state c = Established"
    and flags: "\<not> syn (tcp_flags tcp)" "\<not> rst (tcp_flags tcp)" "fin (tcp_flags tcp)"
    and len: "length (tcp_payload tcp) \<le> 65535"
    and room: "room 2 (to_remote s)" "room (Suc k) (to_tun s)"
  obtains pkt s' where "handle_outbound_tcp ep tcp s = (Done, s')"
    "ch_queue (to_remote s') = ch_queue (to_remote s) @ fin_messages (conn_id c) (tcp_payload tcp)"
    "parse_ip_packet ep pkt = Ok (Tcp (reply_info (tcp_key tcp) (conn_seq c)
       (tcp_seq tcp + word_of_nat (length (tcp_payload tcp)) + 1) (no_flags\<lparr>ack := True\<rparr>) 65535 []))"
    "ch_queue (to_tun s') = ch_queue (to_tun s) @ [pkt]" "room k (to_tun s')"
    "tcp_by_key (nat_table s') = (tcp_by_key (nat_table s))(tcp_key tcp \<mapsto> c
       \<lparr>conn_ack := tcp_seq tcp + word_of_nat (length (tcp_payload tcp)) + 1, conn_state := FinWait\<rparr>)"
    "tcp_by_id (nat_table s') = tcp_by_id (nat_table s)"
proof -
  let ?key = "tcp_key tcp" and ?cid = "conn_id c"
    and ?a = "tcp_seq tcp + word_of_nat (length (tcp_payload tcp)) + 1"
  have id: "tcp_by_id (nat_table s) ?cid = Some ?key"
    using wf entry(1) by (auto simp: on_table_def dest: nat_wf_link)
  have fam: "key_family ?key" using wf id by (auto simp: on_table_def dest: nat_wf_family)
  let ?s1 = "s\<lparr>nat_table := update_tcp_ack ?cid ?a (nat_table s)\<rparr>"
  let ?data = "if tcp_payload tcp = [] then [] else [HostMessage.TcpData ?cid (tcp_payload tcp)]"
  let ?s2 = "?s1\<lparr>to_remote := to_remote s\<lparr>ch_queue := ch_queue (to_remote s) @ ?data\<rparr>\<rparr>"
  have run1: "upd_nat (update_tcp_ack ?cid (tcp_seq tcp + payload_len_u32 (length (tcp_payload tcp)) + 1)) s
      = (Done, ?s1)"
    using len by (simp add: upd_nat_run payload_len_exact)
  have room1: "room (Suc (Suc 0)) (to_remote ?s1)" using room(1) by (simp add: numeral_2_eq_2)
  have run2: "(if tcp_payload tcp \<noteq> [] then send_remote (HostMessage.TcpData ?cid (tcp_payload tcp))
      else exec []) ?s1 = (Done, ?s2)"
    using send_remote_run[OF room1] by (simp add: exec.simps)
  have room2: "room (Suc 0) (to_remote ?s2)"
    using room(1) by (simp add: room_def)
  have t2: "tcp_by_id (nat_table ?s2) ?cid = Some ?key"
    "tcp_by_key (nat_table ?s2) ?key = Some (c\<lparr>conn_ack := ?a\<rparr>)" "room (Suc k) (to_tun ?s2)"
    using id entry(1) room(2) by (simp_all add: nat_simps)
  obtain pkt where pkt: "send_ack ep ?key ?cid ?s2 =
      (Done, ?s2\<lparr>to_tun := to_tun ?s2\<lparr>ch_queue := ch_queue (to_tun ?s2) @ [pkt]\<rparr>\<rparr>)"
    "parse_ip_packet ep pkt = Ok (Tcp (reply_info ?key (conn_seq c) ?a (no_flags\<lparr>ack := True\<rparr>) 65535 []))"
    using send_ack_run[OF laws fam t2(3,1,2)] by auto
  let ?s3 = "?s2\<lparr>to_tun := to_tun ?s2\<lparr>ch_queue := ch_queue (to_tun ?s2) @ [pkt]\<rparr>\<rparr>"
  let ?s4 = "?s3\<lparr>to_remote := to_remote ?s3\<lparr>ch_queue := ch_queue (to_remote ?s3) @ [TcpClose ?cid]\<rparr>\<rparr>"
  let ?s5 = "?s4\<lparr>nat_table := set_tcp_state ?key FinWait (nat_table ?s4)\<rparr>"
  have run3: "send_remote (TcpClose ?cid) ?s3 = (Done, ?s4)"
    using room2 by (intro send_remote_run[where k = 0]) simp
  have "outbound_established_fin ep ?key ?cid tcp s = (Done, ?s5)"
    unfolding outbound_established_fin_def exec_Done_iff
    by (intro exI[of _ ?s1] exI[of _ ?s2] exI[of _ ?s3] exI[of _ ?s4] exI[of _ ?s5] conjI
        run1 run2 run3 pkt(1)) (simp_all add: upd_nat_run)
  then have "handle_outbound_tcp ep tcp s = (Done, ?s5)"
    using outbound_known_run[OF refl entry(1), of ep] entry(2) flags
    by (simp add: is_syn_def outbound_established_def)
  then show thesis
    using pkt(2) room(2) t2 entry(1) id
    by (intro that[of ?s5 pkt]) (simp_all add: nat_simps flow_simps fin_messages_def)
qed

text \<open>
  C14: Closing from the application: on an established connection, a FIN (with or without last
  data), the remote's \<open>TcpClosed\<close> and the final ACK make the host send exactly the data, if
  any, and one \<open>TcpClose\<close> to the remote, and exactly an ACK of the FIN and a FIN-ACK to
  the application; then the key and the identifier of the connection are free.
\<close>

theorem application_closes:
  assumes "etherparse_laws ep" "host_wf n s"
    and "tcp_by_key (nat_table s) (tcp_key tcp) = Some c" "conn_state c = Established"
    and "\<not> syn (tcp_flags tcp)" "\<not> rst (tcp_flags tcp)" "fin (tcp_flags tcp)"
    and "length (tcp_payload tcp) \<le> 65535"
    and "tcp_key final = tcp_key tcp" "tcp_flags final = no_flags\<lparr>ack := True\<rparr>"
    and "room 2 (to_remote s)" "room 2 (to_tun s)"
  shows "\<exists>s' pkts. exec [handle_outbound_tcp ep tcp,
      handle_remote_message ep (TcpClosed (conn_id c)), handle_outbound_tcp ep final] s = (Done, s') \<and>
    ch_queue (to_remote s') = ch_queue (to_remote s) @
      (if tcp_payload tcp = [] then [] else [HostMessage.TcpData (conn_id c) (tcp_payload tcp)])
      @ [TcpClose (conn_id c)] \<and>
    ch_queue (to_tun s') = ch_queue (to_tun s) @ pkts \<and>
    parses ep pkts
      [reply_info (tcp_key tcp) (conn_seq c) (tcp_seq tcp + word_of_nat (length (tcp_payload tcp)) + 1)
         (no_flags\<lparr>ack := True\<rparr>) 65535 [],
       reply_info (tcp_key tcp) (conn_seq c) (tcp_seq tcp + word_of_nat (length (tcp_payload tcp)) + 1)
         (no_flags\<lparr>fin := True, ack := True\<rparr>) 65535 []] \<and>
    tcp_by_key (nat_table s') (tcp_key tcp) = None \<and> tcp_by_id (nat_table s') (conn_id c) = None"
proof -
  let ?key = "tcp_key tcp" and ?a = "tcp_seq tcp + word_of_nat (length (tcp_payload tcp)) + 1"
  have id: "tcp_by_id (nat_table s) (conn_id c) = Some ?key"
    using assms(2,3) by (auto simp: on_table_def dest: nat_wf_link)
  have fam: "key_family ?key" using assms(2) id by (auto simp: on_table_def dest: nat_wf_family)
  have room: "room (Suc (Suc 0)) (to_tun s)" using assms(12) by (simp add: numeral_2_eq_2)
  obtain pkt1 s1 where s1: "handle_outbound_tcp ep tcp s = (Done, s1)"
    "ch_queue (to_remote s1) = ch_queue (to_remote s) @ fin_messages (conn_id c) (tcp_payload tcp)"
    "parse_ip_packet ep pkt1 = Ok (Tcp (reply_info ?key (conn_seq c) ?a (no_flags\<lparr>ack := True\<rparr>) 65535 []))"
    "ch_queue (to_tun s1) = ch_queue (to_tun s) @ [pkt1]" "room (Suc 0) (to_tun s1)"
    "tcp_by_key (nat_table s1) = (tcp_by_key (nat_table s))(?key \<mapsto> c\<lparr>conn_ack := ?a, conn_state := FinWait\<rparr>)"
    "tcp_by_id (nat_table s1) = tcp_by_id (nat_table s)"
    by (rule fin_run[OF assms(1-8,11) room])
  let ?c1 = "c\<lparr>conn_ack := ?a, conn_state := FinWait\<rparr>"
  have e1: "tcp_by_id (nat_table s1) (conn_id c) = Some ?key" "tcp_by_key (nat_table s1) ?key = Some ?c1"
    using id s1(6,7) by simp_all
  obtain pkt2 s2 where s2: "send_fin ep ?key (conn_id c) LastAck s1 = (Done, s2)"
    "parse_ip_packet ep pkt2 = Ok (Tcp (reply_info ?key (conn_seq ?c1) (conn_ack ?c1)
       (no_flags\<lparr>fin := True, ack := True\<rparr>) 65535 []))"
    "ch_queue (to_tun s2) = ch_queue (to_tun s1) @ [pkt2]"
    "tcp_by_key (nat_table s2) = (tcp_by_key (nat_table s1))
       (?key \<mapsto> ?c1\<lparr>conn_seq := conn_seq ?c1 + 1, conn_state := LastAck\<rparr>)"
    "tcp_by_id (nat_table s2) = tcp_by_id (nat_table s1)" "to_remote s2 = to_remote s1"
    using send_fin_run[OF assms(1) fam e1 s1(5)] by metis
  have closed: "handle_remote_message ep (TcpClosed (conn_id c)) s1 = (Done, s2)"
    using e1 s2(1)
    by (simp add: for_key_def with_state_run get_tcp_connection_key_def remote_tcp_closed_def get_tcp_state_def)
  have e2: "tcp_by_key (nat_table s2) ?key = Some (?c1\<lparr>conn_seq := conn_seq ?c1 + 1, conn_state := LastAck\<rparr>)"
    using s2(4) by simp
  let ?s3 = "s2\<lparr>nat_table := close_tcp_connection ?key (nat_table s2)\<rparr>"
  have "handle_outbound_tcp ep final s2 = (Done, ?s3)"
    using outbound_known_run[OF assms(9) e2, of ep] assms(10)
    by (simp add: is_syn_def no_flags_def upd_nat_run)
  then have "exec [handle_outbound_tcp ep tcp, handle_remote_message ep (TcpClosed (conn_id c)),
      handle_outbound_tcp ep final] s = (Done, ?s3)"
    using s1(1) closed by (simp add: exec.simps)
  then show ?thesis
    using s1(2,3,4) s2(2,3,6) e2
    by (intro exI[of _ ?s3] exI[of _ "[pkt1, pkt2]"]) (simp add: fin_messages_def nat_simps)
qed

theorem application_closes_witness:
  "\<exists>s'. exec [handle_outbound_tcp rfc_etherparse
        ((example_segment [1, 2] 0 2)\<lparr>tcp_flags := no_flags\<lparr>fin := True, ack := True\<rparr>\<rparr>),
      handle_remote_message rfc_etherparse (TcpClosed 1),
      handle_outbound_tcp rfc_etherparse (example_segment [] 0 0)] (example_host Established) = (Done, s') \<and>
    ch_queue (to_remote s') = [HostMessage.TcpData 1 [1, 2], TcpClose 1] \<and>
    tcp_by_id (nat_table s') 1 = None"
proof -
  let ?fin = "(example_segment [1, 2] 0 2)\<lparr>tcp_flags := no_flags\<lparr>fin := True, ack := True\<rparr>\<rparr>"
    and ?s = "example_host Established"
  let ?c = "\<lparr>conn_id = 1, conn_state = Established, conn_seq = 1000, conn_ack = 8\<rparr>"
  have key: "tcp_key ?fin = example_key" by (simp add: example_segment_def tcp_key_def)
  have h: "tcp_by_key (nat_table ?s) (tcp_key ?fin) = Some ?c" "conn_state ?c = Established"
    "\<not> syn (tcp_flags ?fin)" "\<not> rst (tcp_flags ?fin)" "fin (tcp_flags ?fin)" "length (tcp_payload ?fin) \<le> 65535"
    "tcp_key (example_segment [] 0 0) = tcp_key ?fin"
    "tcp_flags (example_segment [] 0 0) = no_flags\<lparr>ack := True\<rparr>"
    "room 2 (to_remote ?s)" "room 2 (to_tun ?s)"
    unfolding key
    by (simp_all add: example_host_entry example_segment_def tcp_key_def no_flags_def room_def new_chan_def)
  have "tcp_payload ?fin = [1, 2]" by (simp add: example_segment_def)
  with application_closes[OF rfc.etherparse_laws_axioms example_host_wf h] show ?thesis
    by (auto simp: example_host_entry new_chan_def)
qed

text \<open>
  C25: Closing from the remote: on an established connection, \<open>TcpClosed\<close> makes the host send
  one FIN-ACK; the application's FIN, without data, is then acknowledged with sequence number
  one after that FIN, nothing is sent to the remote, and the key and the identifier are free.
\<close>

theorem remote_closes:
  assumes "etherparse_laws ep" "host_wf n s"
    and "tcp_by_key (nat_table s) (tcp_key tcp) = Some c" "conn_state c = Established"
    and "\<not> syn (tcp_flags tcp)" "\<not> rst (tcp_flags tcp)" "fin (tcp_flags tcp)"
    and "room 2 (to_tun s)"
  shows "\<exists>s' pkts. exec [handle_remote_message ep (TcpClosed (conn_id c)),
      handle_outbound_tcp ep tcp] s = (Done, s') \<and> to_remote s' = to_remote s \<and>
    ch_queue (to_tun s') = ch_queue (to_tun s) @ pkts \<and>
    parses ep pkts
      [reply_info (tcp_key tcp) (conn_seq c) (conn_ack c) (no_flags\<lparr>fin := True, ack := True\<rparr>) 65535 [],
       reply_info (tcp_key tcp) (conn_seq c + 1) (tcp_seq tcp + 1) (no_flags\<lparr>ack := True\<rparr>) 65535 []] \<and>
    tcp_by_key (nat_table s') (tcp_key tcp) = None \<and> tcp_by_id (nat_table s') (conn_id c) = None"
proof -
  let ?key = "tcp_key tcp"
  have id: "tcp_by_id (nat_table s) (conn_id c) = Some ?key"
    using assms(2,3) by (auto simp: on_table_def dest: nat_wf_link)
  have fam: "key_family ?key" using assms(2) id by (auto simp: on_table_def dest: nat_wf_family)
  have room: "room (Suc (Suc 0)) (to_tun s)" using assms(8) by (simp add: numeral_2_eq_2)
  obtain pkt1 s1 where s1: "send_fin ep ?key (conn_id c) CloseWait s = (Done, s1)"
    "parse_ip_packet ep pkt1 = Ok (Tcp (reply_info ?key (conn_seq c) (conn_ack c)
       (no_flags\<lparr>fin := True, ack := True\<rparr>) 65535 []))"
    "ch_queue (to_tun s1) = ch_queue (to_tun s) @ [pkt1]" "room (Suc 0) (to_tun s1)"
    "tcp_by_key (nat_table s1) = (tcp_by_key (nat_table s))
       (?key \<mapsto> c\<lparr>conn_seq := conn_seq c + 1, conn_state := CloseWait\<rparr>)"
    "tcp_by_id (nat_table s1) = tcp_by_id (nat_table s)" "to_remote s1 = to_remote s"
    using send_fin_run[OF assms(1) fam id assms(3) room] by metis
  have closed: "handle_remote_message ep (TcpClosed (conn_id c)) s = (Done, s1)"
    using id assms(3,4) s1(1)
    by (simp add: for_key_def with_state_run get_tcp_connection_key_def remote_tcp_closed_def get_tcp_state_def)
  let ?c1 = "c\<lparr>conn_seq := conn_seq c + 1, conn_state := CloseWait\<rparr>"
  let ?c2 = "?c1\<lparr>conn_ack := tcp_seq tcp + 1\<rparr>"
  let ?s2 = "s1\<lparr>nat_table := update_tcp_ack (conn_id c) (tcp_seq tcp + 1) (nat_table s1)\<rparr>"
  have e1: "tcp_by_key (nat_table s1) ?key = Some ?c1" "tcp_by_id (nat_table s1) (conn_id c) = Some ?key"
    using s1(5,6) id by simp_all
  have e2: "tcp_by_id (nat_table ?s2) (conn_id c) = Some ?key"
    "tcp_by_key (nat_table ?s2) ?key = Some ?c2" "room (Suc 0) (to_tun ?s2)"
    using e1 s1(4) by (simp_all add: nat_simps)
  obtain pkt2 where pkt2: "send_ack ep ?key (conn_id c) ?s2 =
      (Done, ?s2\<lparr>to_tun := to_tun ?s2\<lparr>ch_queue := ch_queue (to_tun ?s2) @ [pkt2]\<rparr>\<rparr>)"
    "parse_ip_packet ep pkt2 = Ok (Tcp (reply_info ?key (conn_seq c + 1) (tcp_seq tcp + 1)
       (no_flags\<lparr>ack := True\<rparr>) 65535 []))"
    using send_ack_run[OF assms(1) fam e2(3,1,2)] by auto
  let ?s3 = "?s2\<lparr>to_tun := to_tun ?s2\<lparr>ch_queue := ch_queue (to_tun ?s2) @ [pkt2]\<rparr>\<rparr>"
  let ?s4 = "?s3\<lparr>nat_table := close_tcp_connection ?key (nat_table ?s3)\<rparr>"
  have "handle_outbound_tcp ep tcp s1 = (Done, ?s4)"
    using outbound_known_run[OF refl e1(1), of ep] assms(5-7) pkt2(1)
    by (simp add: is_syn_def outbound_close_wait_def upd_nat_run exec.simps)
  with closed have "exec [handle_remote_message ep (TcpClosed (conn_id c)), handle_outbound_tcp ep tcp] s
      = (Done, ?s4)"
    by (simp add: exec.simps)
  then show ?thesis
    using s1(2,3,7) pkt2(2) e1
    by (intro exI[of _ ?s4] exI[of _ "[pkt1, pkt2]"]) (simp add: nat_simps)
qed

theorem remote_closes_witness:
  "\<exists>s'. exec [handle_remote_message rfc_etherparse (TcpClosed 1), handle_outbound_tcp rfc_etherparse
        ((example_segment [] 0 0)\<lparr>tcp_flags := no_flags\<lparr>fin := True, ack := True\<rparr>\<rparr>)]
      (example_host Established) = (Done, s') \<and>
    length (ch_queue (to_tun s')) = 2 \<and> tcp_by_id (nat_table s') 1 = None"
proof -
  let ?fin = "(example_segment [] 0 0)\<lparr>tcp_flags := no_flags\<lparr>fin := True, ack := True\<rparr>\<rparr>"
    and ?s = "example_host Established"
  let ?c = "\<lparr>conn_id = 1, conn_state = Established, conn_seq = 1000, conn_ack = 8\<rparr>"
  have key: "tcp_key ?fin = example_key" by (simp add: example_segment_def tcp_key_def)
  have h: "tcp_by_key (nat_table ?s) (tcp_key ?fin) = Some ?c" "conn_state ?c = Established"
    "\<not> syn (tcp_flags ?fin)" "\<not> rst (tcp_flags ?fin)" "fin (tcp_flags ?fin)" "room 2 (to_tun ?s)"
    unfolding key by (simp_all add: example_host_entry no_flags_def room_def new_chan_def)
  from remote_closes[OF rfc.etherparse_laws_axioms example_host_wf h] show ?thesis
    by (auto simp: example_host_entry new_chan_def parses_def list_all2_Cons2)
qed

text \<open>
  C38: A reset from the application ends a known connection at once in every state: its
  entry and identifier are removed before the one \<open>TcpClose\<close> is sent, whether that send
  succeeds or not, and no packet is written. A segment of an unknown connection that opens
  none changes nothing.
\<close>

theorem reset_and_unknown:
  assumes "tcp_key tcp = key" "\<not> is_syn tcp"
  shows "case tcp_by_key (nat_table s) key of
      None \<Rightarrow> handle_outbound_tcp ep tcp s = (Done, s)
    | Some c \<Rightarrow> rst (tcp_flags tcp) \<longrightarrow>
        nat_table (snd (handle_outbound_tcp ep tcp s)) = close_tcp_connection key (nat_table s) \<and>
        tcp_by_key (nat_table (snd (handle_outbound_tcp ep tcp s))) key = None \<and>
        tcp_by_id (nat_table (snd (handle_outbound_tcp ep tcp s))) (conn_id c) = None \<and>
        to_tun (snd (handle_outbound_tcp ep tcp s)) = to_tun s \<and>
        (case chan_send (TcpClose (conn_id c)) (to_remote s) of
           Sent ch \<Rightarrow> fst (handle_outbound_tcp ep tcp s) = Done \<and>
             to_remote (snd (handle_outbound_tcp ep tcp s)) = ch
         | SendClosed \<Rightarrow> fst (handle_outbound_tcp ep tcp s) = Failed SendError
         | SendFull \<Rightarrow> fst (handle_outbound_tcp ep tcp s) = Blocked)"
proof -
  have no_syn: "(syn (tcp_flags tcp) \<and> \<not> ack (tcp_flags tcp)) = False"
    using assms(2) by (simp add: is_syn_def)
  show ?thesis
  proof (cases "tcp_by_key (nat_table s) key")
    case None
    with assms(1) show ?thesis
      by (simp only: handle_outbound_tcp_def Let_def no_syn if_False)
         (simp add: with_state_run get_tcp_connection_id_def)
  next
    case (Some c)
    let ?s = "s\<lparr>nat_table := close_tcp_connection key (nat_table s)\<rparr>"
    have "handle_outbound_tcp ep tcp s = send_remote (TcpClose (conn_id c)) ?s" if "rst (tcp_flags tcp)"
      using assms(1) Some that
      by (simp only: handle_outbound_tcp_def Let_def no_syn if_False)
         (simp add: with_state_run get_tcp_connection_id_def outbound_known_def upd_nat_run exec.simps
            split: prod.split flow.split)
    with Some show ?thesis
      by (auto simp: send_remote_def nat_simps split: send_result.split)
  qed
qed

theorem reset_and_unknown_witness:
  "ch_queue (to_remote (snd (handle_outbound_tcp rfc_etherparse
      ((example_segment [] 0 0)\<lparr>tcp_flags := no_flags\<lparr>rst := True\<rparr>\<rparr>) (example_host CloseWait)))) = [TcpClose 1]"
  using reset_and_unknown[of "(example_segment [] 0 0)\<lparr>tcp_flags := no_flags\<lparr>rst := True\<rparr>\<rparr>"
      example_key rfc_etherparse "example_host CloseWait"]
  by (simp add: example_host_entry chan_send_def new_chan_def is_syn_def no_flags_def
      example_segment_def tcp_key_def)

section \<open>UDP\<close>

text \<open>
  C28: A UDP exchange: a datagram of the application goes to the remote with its ports, its
  destination and its payload, and the remote's response, if it is handled within a minute of
  the next clock reading and fits a packet, is written to the application as a datagram from
  exactly that destination to exactly the address and port the request came from.
\<close>

theorem udp_exchange:
  assumes "etherparse_laws ep" "parse_ip_packet ep data = Ok (Udp udp)"
    and "snd clock - fst clock < udp_timeout"
    and "8 + length reply \<le> family_room (udp_dst_ip udp)"
    and "room 1 (to_remote s)" "room 1 (to_tun s)"
  shows "\<exists>s' pkt. exec [handle_tun_packet ep clock data, handle_remote_message ep
      (UdpResponse (udp_src_port udp) (udp_dst_ip udp) (udp_dst_port udp) reply)] s = (Done, s') \<and>
    ch_queue (to_remote s') = ch_queue (to_remote s) @
      [UdpDatagram (udp_src_port udp) (udp_dst_ip udp) (udp_dst_port udp) (udp_payload udp)] \<and>
    ch_queue (to_tun s') = ch_queue (to_tun s) @ [pkt] \<and>
    parse_ip_packet ep pkt = Ok (Udp
      \<lparr>udp_src_ip = udp_dst_ip udp, udp_dst_ip = udp_src_ip udp, udp_src_port = udp_dst_port udp,
       udp_dst_port = udp_src_port udp, udp_payload = reply\<rparr>)"
proof -
  let ?p = "\<lparr>up_src_ip = udp_dst_ip udp, up_dst_ip = udp_src_ip udp, up_src_port = udp_dst_port udp,
    up_dst_port = udp_src_port udp, up_payload = reply\<rparr>"
  let ?t = "track_udp clock (udp_src_ip udp) (udp_src_port udp) (udp_dst_ip udp) (udp_dst_port udp)
    (nat_table s)"
  let ?s1 = "s\<lparr>nat_table := ?t, to_remote := to_remote s\<lparr>ch_queue := ch_queue (to_remote s) @
      [UdpDatagram (udp_src_port udp) (udp_dst_ip udp) (udp_dst_port udp) (udp_payload udp)]\<rparr>\<rparr>"
  have "same_family (udp_dst_ip udp) (udp_src_ip udp)"
    using parse_ip_packet_family[OF assms(2)] by (simp add: same_family_sym)
  then obtain pkt where pkt: "udp_build ep ?p = Ok pkt"
    "parse_ip_packet ep pkt = Ok (Udp (udp_info_of ?p))"
    using etherparse_laws.udp_build_Ok[OF assms(1), of ?p] assms(4) by auto
  have sent: "handle_tun_packet ep clock data s = (Done, ?s1)"
    using assms(2,5)
    by (simp add: handle_tun_packet_def handle_outbound_udp_def flow_simps exec.simps
        send_remote_run[where k = 0])
  have "get_udp_src_ip (udp_src_port udp) (udp_dst_ip udp) (udp_dst_port udp) ?t = Some (udp_src_ip udp)"
    using assms(3) by (simp add: get_udp_src_ip_def track_udp_def cleanup_udp_mappings_def)
  then have "handle_remote_message ep
      (UdpResponse (udp_src_port udp) (udp_dst_ip udp) (udp_dst_port udp) reply) ?s1 =
    (Done, ?s1\<lparr>to_tun := to_tun ?s1\<lparr>ch_queue := ch_queue (to_tun ?s1) @ [pkt]\<rparr>\<rparr>)"
    using pkt(1) assms(6) by (simp add: remote_udp_response_def flow_simps send_tun_run[where k = 0])
  with sent pkt(2) show ?thesis by (simp add: exec.simps udp_info_of_def)
qed

theorem udp_exchange_witness:
  "\<exists>s' pkt. exec [handle_tun_packet rfc_etherparse (5, 6)
      [0x45, 0, 0, 30, 0, 0, 0x40, 0, 64, 17, 0, 0, 10, 0, 0, 1, 8, 8, 8, 8,
       0xD4, 0x31, 0, 53, 0, 10, 0, 0, 7, 8],
      handle_remote_message rfc_etherparse (UdpResponse 54321 (V4 0x08080808) 53 [9])]
      (initial_host None) = (Done, s') \<and>
    ch_queue (to_tun s') = [pkt] \<and>
    parse_ip_packet rfc_etherparse pkt = Ok (Udp
      \<lparr>udp_src_ip = V4 0x08080808, udp_dst_ip = V4 0x0A000001, udp_src_port = 53,
       udp_dst_port = 54321, udp_payload = [9]\<rparr>)"
proof -
  let ?data = "[0x45, 0, 0, 30, 0, 0, 0x40, 0, 64, 17, 0, 0, 10, 0, 0, 1, 8, 8, 8, 8,
       0xD4, 0x31, 0, 53, 0, 10, 0, 0, 7, 8] :: bytes"
  have parse: "parse_ip_packet rfc_etherparse ?data =
    Ok (Udp \<lparr>udp_src_ip = V4 0x0A000001, udp_dst_ip = V4 0x08080808, udp_src_port = 54321,
             udp_dst_port = 53, udp_payload = [7, 8]\<rparr>)"
    by (simp add: parse_ip_packet_def parse_ipv4_packet_def parse_transport_def byte_slice_def
        rfc_ipv4_from_slice_def rfc_udp_from_slice_def Let_def u16_at_def from_be_def be_nat_Cons)
  show ?thesis
    using udp_exchange[OF rfc.etherparse_laws_axioms parse, of "(5, 6)" "[9]" "initial_host None"]
    by (simp add: initial_host_def room_def new_chan_def) blast
qed

section \<open>Where the host departs from TCP\<close>

text \<open>
  C33: A SYN that the application retransmits before the remote has answered opens a second
  remote connection: the host asks for two connections under two identifiers that both lead
  to the one key, each report of success is answered by a SYN-ACK, with sequence numbers 1000 and
  1001, and the connection's own next number is 1002, one more than the application expects.
\<close>

theorem syn_retransmission:
  assumes "etherparse_laws ep" "is_syn tcp" "key_family (tcp_key tcp)"
    and "i = next_id (nat_table s)" "room 2 (to_remote s)" "room 2 (to_tun s)"
  shows "\<exists>s' pkts. exec [handle_outbound_tcp ep tcp, handle_outbound_tcp ep tcp,
      handle_remote_message ep (TcpConnected i), handle_remote_message ep (TcpConnected (i + 1))] s
      = (Done, s') \<and>
    ch_queue (to_remote s') = ch_queue (to_remote s) @
      [TcpConnect i (tcp_dst_ip tcp) (tcp_dst_port tcp),
       TcpConnect (i + 1) (tcp_dst_ip tcp) (tcp_dst_port tcp)] \<and>
    ch_queue (to_tun s') = ch_queue (to_tun s) @ pkts \<and>
    parses ep pkts
      [reply_info (tcp_key tcp) 1000 (tcp_seq tcp + 1) (no_flags\<lparr>syn := True, ack := True\<rparr>) 65535 [],
       reply_info (tcp_key tcp) 1001 (tcp_seq tcp + 1) (no_flags\<lparr>syn := True, ack := True\<rparr>) 65535 []] \<and>
    tcp_by_id (nat_table s') i = Some (tcp_key tcp) \<and>
    tcp_by_id (nat_table s') (i + 1) = Some (tcp_key tcp) \<and>
    tcp_by_key (nat_table s') (tcp_key tcp) = Some \<lparr>conn_id = i + 1, conn_state = Established,
      conn_seq = 1002, conn_ack = tcp_seq tcp + 1\<rparr>"
proof -
  let ?key = "tcp_key tcp" and ?create = "create_tcp_connection (tcp_key tcp, tcp_seq tcp)"
  let ?req = "\<lambda>j. TcpConnect j (tcp_dst_ip tcp) (tcp_dst_port tcp)"
  let ?s1 = "s\<lparr>nat_table := snd (?create (nat_table s)),
    to_remote := to_remote s\<lparr>ch_queue := ch_queue (to_remote s) @ [?req i]\<rparr>\<rparr>"
  let ?s2 = "?s1\<lparr>nat_table := snd (?create (nat_table ?s1)),
    to_remote := to_remote ?s1\<lparr>ch_queue := ch_queue (to_remote ?s1) @ [?req (i + 1)]\<rparr>\<rparr>"
  let ?c = "\<lparr>conn_id = i + 1, conn_state = SynSent, conn_seq = 1000, conn_ack = tcp_seq tcp + 1\<rparr>"
  have run1: "handle_outbound_tcp ep tcp s = (Done, ?s1)"
    using outbound_syn_run[OF assms(2), of 1 s ep] assms(4,5) by (simp add: numeral_2_eq_2)
  have run2: "handle_outbound_tcp ep tcp ?s1 = (Done, ?s2)"
    using outbound_syn_run[OF assms(2), of 0 ?s1 ep] assms(4,5)
    by (simp add: flow_simps numeral_2_eq_2 create_simps)
  have room: "room (Suc (Suc 0)) (to_tun ?s2)" using assms(6) by (simp add: numeral_2_eq_2)
  have e2: "tcp_by_id (nat_table ?s2) i = Some ?key" "tcp_by_key (nat_table ?s2) ?key = Some ?c"
    "tcp_by_id (nat_table ?s2) (i + 1) = Some ?key"
    using assms(4) by (simp_all add: create_simps)
  obtain pkt1 s3 where s3: "handle_remote_message ep (TcpConnected i) ?s2 = (Done, s3)"
    "parse_ip_packet ep pkt1 = Ok (Tcp (reply_info ?key (conn_seq ?c) (conn_ack ?c)
       (no_flags\<lparr>syn := True, ack := True\<rparr>) 65535 []))"
    "ch_queue (to_tun s3) = ch_queue (to_tun ?s2) @ [pkt1]" "room (Suc 0) (to_tun s3)"
    "tcp_by_key (nat_table s3) = (tcp_by_key (nat_table ?s2))
       (?key \<mapsto> ?c\<lparr>conn_state := Established, conn_seq := conn_seq ?c + 1\<rparr>)"
    "tcp_by_id (nat_table s3) = tcp_by_id (nat_table ?s2)" "to_remote s3 = to_remote ?s2"
    using connected_run[OF assms(1,3) e2(1,2) room] by metis
  let ?c3 = "?c\<lparr>conn_state := Established, conn_seq := conn_seq ?c + 1\<rparr>"
  have e3: "tcp_by_id (nat_table s3) (i + 1) = Some ?key" "tcp_by_key (nat_table s3) ?key = Some ?c3"
    using e2 s3(5,6) by simp_all
  obtain pkt2 s4 where s4: "handle_remote_message ep (TcpConnected (i + 1)) s3 = (Done, s4)"
    "parse_ip_packet ep pkt2 = Ok (Tcp (reply_info ?key (conn_seq ?c3) (conn_ack ?c3)
       (no_flags\<lparr>syn := True, ack := True\<rparr>) 65535 []))"
    "ch_queue (to_tun s4) = ch_queue (to_tun s3) @ [pkt2]"
    "tcp_by_key (nat_table s4) = (tcp_by_key (nat_table s3))
       (?key \<mapsto> ?c3\<lparr>conn_state := Established, conn_seq := conn_seq ?c3 + 1\<rparr>)"
    "tcp_by_id (nat_table s4) = tcp_by_id (nat_table s3)" "to_remote s4 = to_remote s3"
    using connected_run[OF assms(1,3) e3 s3(4)] by metis
  have run: "exec [handle_outbound_tcp ep tcp, handle_outbound_tcp ep tcp,
      handle_remote_message ep (TcpConnected i), handle_remote_message ep (TcpConnected (i + 1))] s
      = (Done, s4)"
    unfolding exec_Done_iff exec.simps(1) using run1 run2 s3(1) s4(1) by blast
  have "parses ep [pkt1, pkt2]
      [reply_info ?key 1000 (tcp_seq tcp + 1) (no_flags\<lparr>syn := True, ack := True\<rparr>) 65535 [],
       reply_info ?key 1001 (tcp_seq tcp + 1) (no_flags\<lparr>syn := True, ack := True\<rparr>) 65535 []]"
    using s3(2) s4(2) by simp
  then show ?thesis
    using run s3(3,6,7) s4(3-6) e2
    by (intro exI[of _ s4] exI[of _ "[pkt1, pkt2]"]) simp
qed

theorem syn_retransmission_witness:
  "\<exists>s'. exec (let syn = (example_segment [] 0 0)\<lparr>tcp_seq := 7, tcp_flags := no_flags\<lparr>syn := True\<rparr>\<rparr> in
      [handle_outbound_tcp rfc_etherparse syn, handle_outbound_tcp rfc_etherparse syn,
       handle_remote_message rfc_etherparse (TcpConnected 1),
       handle_remote_message rfc_etherparse (TcpConnected 2)]) (initial_host None) = (Done, s') \<and>
    ch_queue (to_remote s') = [TcpConnect 1 (V4 0x08080808) 80, TcpConnect 2 (V4 0x08080808) 80] \<and>
    length (ch_queue (to_tun s')) = 2"
proof -
  let ?syn = "(example_segment [] 0 0)\<lparr>tcp_seq := 7, tcp_flags := no_flags\<lparr>syn := True\<rparr>\<rparr>"
  let ?s = "initial_host None"
  have h: "is_syn ?syn" "key_family (tcp_key ?syn)" "1 = next_id (nat_table ?s)"
    "room 2 (to_remote ?s)" "room 2 (to_tun ?s)"
    by (simp_all add: is_syn_def example_segment_def tcp_key_def key_family_def initial_host_def
        room_def new_chan_def no_flags_def nat_new_def)
  have v: "ch_queue (to_remote ?s) = []" "ch_queue (to_tun ?s) = []"
    "tcp_dst_ip ?syn = V4 0x08080808" "tcp_dst_port ?syn = 80" "(1 + 1 :: u32) = 2"
    by (simp_all add: example_segment_def initial_host_def new_chan_def)
  show ?thesis
    using syn_retransmission[OF rfc.etherparse_laws_axioms h] unfolding v Let_def
    by (auto simp: parses_def list_all2_Cons2)
qed

text \<open>
  C34: Data that a FIN segment repeats is sent to the remote twice: on an established
  connection the sequence number of a FIN is not compared with the expected one. Here the
  application sends its stream in one segment and, not having seen the ACK yet, sends it
  again with its FIN.
\<close>

theorem fin_repeats_data:
  assumes "etherparse_laws ep" "host_wf n s" "receiving key c isn 0 s"
    and "length S \<le> 65535" "S \<noteq> []"
    and "carries S isn key tcp (0, length S)"
    and "room 3 (to_remote s)" "room 3 (to_tun s)"
  shows "\<exists>s' msgs. exec [handle_outbound_tcp ep tcp,
      handle_outbound_tcp ep (tcp\<lparr>tcp_flags := (tcp_flags tcp)\<lparr>fin := True\<rparr>\<rparr>)] s = (Done, s') \<and>
    ch_queue (to_remote s') = ch_queue (to_remote s) @ msgs \<and> forwarded (conn_id c) msgs = S @ S"
proof -
  let ?fin = "tcp\<lparr>tcp_flags := (tcp_flags tcp)\<lparr>fin := True\<rparr>\<rparr>"
  have id: "tcp_by_id (nat_table s) (conn_id c) = Some key" using assms(3) by (simp add: receiving_def)
  have fam: "key_family key" using assms(2) id by (auto simp: on_table_def dest: nat_wf_family)
  have key: "tcp_key tcp = key" "tcp_payload tcp = S" "\<not> syn (tcp_flags tcp)" "\<not> rst (tcp_flags tcp)"
    using assms(6) by auto
  have key': "tcp_key ?fin = key" using key(1) by (simp add: tcp_key_def)
  have S: "length S < 2 ^ 32" using assms(4) by simp
  have r: "room (Suc 2) (to_remote s)" "room (Suc 2) (to_tun s)" using assms(7,8) by simp_all
  obtain s1 msgs where s1: "handle_outbound_tcp ep tcp s = (Done, s1)"
    "receiving key c isn (length S) s1" "ch_queue (to_remote s1) = ch_queue (to_remote s) @ msgs"
    "forwarded (conn_id c) msgs = S" "room 2 (to_remote s1)" "room 2 (to_tun s1)"
    using data_step[OF assms(1) fam assms(3) _ S assms(6) r] by (auto simp: expect_def)
  have "keeps False (host_wf n) (handle_outbound_tcp ep tcp)"
    using assms(1) key(3) by (intro keeps_outbound_tcp) (simp_all add: is_syn_def)
  from keepsD[OF this assms(2)] have wf1: "host_wf n s1" using s1(1) by simp
  let ?c = "c\<lparr>conn_ack := isn + 1 + word_of_nat (length S)\<rparr>"
  have e1: "tcp_by_key (nat_table s1) (tcp_key ?fin) = Some ?c" "conn_state ?c = Established"
    using s1(2) by (simp_all add: receiving_def key')
  have f: "\<not> syn (tcp_flags ?fin)" "\<not> rst (tcp_flags ?fin)" "fin (tcp_flags ?fin)"
    "length (tcp_payload ?fin) \<le> 65535" "room (Suc 0) (to_tun s1)"
    using key assms(4) s1(6) by (auto elim: room_mono)
  obtain pkt s2 where s2: "handle_outbound_tcp ep ?fin s1 = (Done, s2)"
    "ch_queue (to_remote s2) = ch_queue (to_remote s1) @ fin_messages (conn_id c) S"
    using fin_run[OF assms(1) wf1 e1 f(1-4) s1(5) f(5)] key(2) by auto
  have "exec [handle_outbound_tcp ep tcp, handle_outbound_tcp ep ?fin] s = (Done, s2)"
    unfolding exec_Done_iff exec.simps(1) using s1(1) s2(1) by blast
  then show ?thesis
    using s1(3,4) s2(2) assms(5)
    by (intro exI[of _ s2] exI[of _ "msgs @ fin_messages (conn_id c) S"]) (simp add: fin_messages_def)
qed

theorem fin_repeats_data_witness:
  "\<exists>s' msgs. exec [handle_outbound_tcp rfc_etherparse (example_segment [1, 2] 0 2),
      handle_outbound_tcp rfc_etherparse
        ((example_segment [1, 2] 0 2)\<lparr>tcp_flags := (tcp_flags (example_segment [1, 2] 0 2))\<lparr>fin := True\<rparr>\<rparr>)]
      (example_host Established) = (Done, s') \<and>
    ch_queue (to_remote s') = msgs \<and> forwarded 1 msgs = [1, 2, 1, 2]"
proof -
  have "carries [1, 2] 7 example_key (example_segment [1, 2] 0 2) (0, length ([1, 2] :: bytes))"
    using example_segment_carries[of 0 2 "[1, 2]"] by (simp add: numeral_2_eq_2 del: carries.simps)
  from fin_repeats_data[OF rfc.etherparse_laws_axioms example_host_wf example_receiving _ _ this]
  show ?thesis by (simp add: example_host_entry room_def new_chan_def del: exec.simps)
qed

end
