(* ===== verification/Host_Loop.thy ===== *)
theory Host_Loop
  imports Host_Sessions Postcard
begin

text \<open>
  \<open>src/src/host/mod.rs\<close>, lines 101-248: \<open>run_proxy_loop\<close>. One task owns the table, both
  ends of the two outgoing channels, the SSH writer and the TUN device; \<open>select!\<close> picks one
  ready arm per iteration, in any order, which here is a list of events. The handler of an arm
  runs to its end before the next arm is polled, so a handler that waits on a full channel
  waits for its own task.
\<close>

section \<open>The device\<close>

text \<open>
  \<open>AsyncTunDevice\<close> of \<open>src/src/host/tun.rs\<close>: one read takes one packet off the device, of which
  the buffer keeps as much as it can hold; one write hands over one packet, or fails.
\<close>

definition tun_read :: "nat \<Rightarrow> bytes \<Rightarrow> bytes" where
  "tun_read n packet = take n packet"

definition tun_write :: "string option \<Rightarrow> bytes \<Rightarrow> bytes list \<Rightarrow> string + bytes list" where
  "tun_write failure packet written =
     (case failure of Some e \<Rightarrow> Inl e | None \<Rightarrow> Inr (written @ [packet]))"

declare tun_read_def [simp] tun_write_def [simp]

section \<open>One iteration\<close>

text \<open>
  What an arm yields: a read of the TUN device (with the clock readings of its handler), the
  next result of the reader task, a message or a packet to write (the TUN write may fail), a
  datagram on the DNS socket, and ctrl-c. \<open>WriteStalls\<close>: back-pressure; the SSH channel or the
  device takes nothing any more, and the write that an arm has begun is awaited for ever (the part
  of this last message or packet that was taken before is not counted as written).
\<close>

datatype loop_event =
    TunRead "Instant \<times> Instant" "string + bytes"
  | RemoteRecv
  | ToRemoteReady
  | ToTunReady "string option"
  | DnsRecv "string + (bytes \<times> SocketAddr)"
  | CtrlC
  | WriteStalls

text \<open>
  The state: the host, the results that the reader task will still deliver, the SSH writer, and
  the packets written to the TUN device so far.
\<close>

record Loop =
  lp_host :: Host
  lp_incoming :: "(protocol_error + RemoteMessage option) list"
  lp_writer :: writer
  lp_tun :: "bytes list"

text \<open>
  \<open>NotReady\<close>: \<open>select!\<close> does not pick this arm. \<open>Crashed\<close>: a panic, which ends the
  process. \<open>Hung\<close>: the iteration never ends.
\<close>

datatype loop_result = Continue | Break | Crashed | Hung | NotReady

fun after_handler :: "'e flow \<Rightarrow> loop_result" where
  "after_handler Done = Continue"
| "after_handler (Failed e) = Continue"
| "after_handler Panicked = Crashed"
| "after_handler Blocked = Hung"

definition run_handler :: "host_stmt \<Rightarrow> Loop \<Rightarrow> loop_result \<times> Loop" where
  "run_handler m l =
     (case m (lp_host l) of (r, h) \<Rightarrow> (after_handler r, l\<lparr>lp_host := h\<rparr>))"

fun loop_step ::
  "etherparse \<Rightarrow> (HostMessage \<Rightarrow> string + bytes) \<Rightarrow> loop_event \<Rightarrow> Loop \<Rightarrow> loop_result \<times> Loop"
where
  "loop_step ep to_allocvec (TunRead clock (Inr data)) l =
     run_handler (handle_tun_packet ep clock (tun_read 65536 data)) l"
| "loop_step ep to_allocvec (TunRead clock (Inl e)) l = (Break, l)"
| "loop_step ep to_allocvec RemoteRecv l =
     (case lp_incoming l of
        [] \<Rightarrow> (Break, l)
      | Inr (Some msg) # rest \<Rightarrow> run_handler (handle_remote_message ep msg) (l\<lparr>lp_incoming := rest\<rparr>)
      | Inr None # rest \<Rightarrow> (Break, l\<lparr>lp_incoming := rest\<rparr>)
      | Inl e # rest \<Rightarrow> (Break, l\<lparr>lp_incoming := rest\<rparr>))"
| "loop_step ep to_allocvec ToRemoteReady l =
     (case chan_recv (to_remote (lp_host l)) of
        None \<Rightarrow> (NotReady, l)
      | Some (msg, ch) \<Rightarrow>
          (case write_message to_allocvec msg (lp_writer l) of
             (result, w) \<Rightarrow>
               (case result of Inl e \<Rightarrow> Break | Inr _ \<Rightarrow> Continue,
                l\<lparr>lp_host := (lp_host l)\<lparr>to_remote := ch\<rparr>, lp_writer := w\<rparr>)))"
| "loop_step ep to_allocvec (ToTunReady failure) l =
     (case chan_recv (to_tun (lp_host l)) of
        None \<Rightarrow> (NotReady, l)
      | Some (packet, ch) \<Rightarrow>
          (let l1 = l\<lparr>lp_host := (lp_host l)\<lparr>to_tun := ch\<rparr>\<rparr>
           in case tun_write failure packet (lp_tun l) of
                Inl e \<Rightarrow> (Break, l1)
              | Inr written \<Rightarrow> (Continue, l1\<lparr>lp_tun := written\<rparr>)))"
| "loop_step ep to_allocvec (DnsRecv result) l =
     (case dns_state (lp_host l) of
        None \<Rightarrow> (NotReady, l)
      | Some d \<Rightarrow>
          (case result of
             Inl e \<Rightarrow> (Continue, l)
           | Inr (data, sender) \<Rightarrow>
               (case handle_query (take 4096 data) sender (d, to_remote (lp_host l)) of
                  (r, (d', ch)) \<Rightarrow>
                    (after_handler r,
                     l\<lparr>lp_host := (lp_host l)\<lparr>to_remote := ch, dns_state := Some d'\<rparr>\<rparr>))))"
| "loop_step ep to_allocvec CtrlC l = (Break, l)"
| "loop_step ep to_allocvec WriteStalls l =
     (if ch_queue (to_remote (lp_host l)) = [] \<and> ch_queue (to_tun (lp_host l)) = []
      then (NotReady, l) else (Hung, l))"

text \<open>A run of the loop over the arms that \<open>select!\<close> picks, until one of them ends it.\<close>

fun loop_run ::
  "etherparse \<Rightarrow> (HostMessage \<Rightarrow> string + bytes) \<Rightarrow> loop_event list \<Rightarrow> Loop \<Rightarrow> loop_result \<times> Loop"
where
  "loop_run ep to_allocvec [] l = (Continue, l)"
| "loop_run ep to_allocvec (ev # evs) l =
     (case loop_step ep to_allocvec ev l of
        (Continue, l') \<Rightarrow> loop_run ep to_allocvec evs l'
      | (NotReady, l') \<Rightarrow> loop_run ep to_allocvec evs l'
      | (r, l') \<Rightarrow> (r, l'))"

section \<open>The whole function\<close>

text \<open>
  How \<open>run_proxy_loop\<close> is left: it returns an error before its loop, or \<open>Ok(())\<close> after it;
  or it does not return (yet).
\<close>

datatype loop_exit = ReadyError protocol_error | UnexpectedMessage RemoteMessage
  | DisconnectedBeforeReady | Returned | StillRunning | Panics | Hangs

definition run_proxy_loop ::
  "etherparse \<Rightarrow> (HostMessage \<Rightarrow> string + bytes) \<Rightarrow> (bytes \<Rightarrow> string + RemoteMessage) \<Rightarrow>
   reader \<Rightarrow> writer \<Rightarrow> DnsState option \<Rightarrow> loop_event list \<Rightarrow> loop_exit \<times> writer"
where
  "run_proxy_loop ep to_allocvec from_bytes ssh_reader ssh_writer dns evs =
     (case read_message from_bytes ssh_reader of
        (Inl e, _) \<Rightarrow> (ReadyError e, ssh_writer)
      | (Inr (Some Ready), rd) \<Rightarrow>
          (case loop_run ep to_allocvec evs
                  \<lparr>lp_host = initial_host dns, lp_incoming = read_loop from_bytes rd,
                   lp_writer = ssh_writer, lp_tun = []\<rparr> of
             (Break, l) \<Rightarrow> (Returned, snd (write_message to_allocvec Shutdown (lp_writer l)))
           | (Crashed, l) \<Rightarrow> (Panics, lp_writer l)
           | (Hung, l) \<Rightarrow> (Hangs, lp_writer l)
           | (_, l) \<Rightarrow> (StillRunning, lp_writer l))
      | (Inr (Some other), _) \<Rightarrow> (UnexpectedMessage other, ssh_writer)
      | (Inr None, _) \<Rightarrow> (DisconnectedBeforeReady, ssh_writer))"

section \<open>Safety of the loop\<close>

text \<open>
  Events that the theorems below speak about: those that open a connection, and those whose
  packet makes the parser panic. And the message that makes a builder panic: the response to a
  known flow whose data does not fit one IP packet.
\<close>

fun opens_event :: "etherparse \<Rightarrow> loop_event \<Rightarrow> bool" where
  "opens_event ep (TunRead clock (Inr data)) = opens ep (take 65536 data)"
| "opens_event ep _ = False"

fun malformed_event :: "etherparse \<Rightarrow> loop_event \<Rightarrow> bool" where
  "malformed_event ep (TunRead clock (Inr data)) \<longleftrightarrow> parse_ip_packet ep (take 65536 data) = Panic"
| "malformed_event ep _ = False"

definition oversized_next :: "Loop \<Rightarrow> bool" where
  "oversized_next l \<longleftrightarrow>
     (\<exists>msg rest. lp_incoming l = Inr (Some msg) # rest \<and> \<not> response_fits msg)"

lemma after_handler_Crashed: "after_handler r = Crashed \<longleftrightarrow> r = Panicked"
  by (cases r) auto

lemma run_handler_simps:
  "fst (run_handler m l) = after_handler (fst (m (lp_host l)))"
  "snd (run_handler m l) = l\<lparr>lp_host := snd (m (lp_host l))\<rparr>"
  by (simp_all add: run_handler_def split: prod.split)

lemma loop_step_ok:
  assumes laws: "etherparse_laws ep" and ok: "host_wf n (lp_host l)" and n: "n < 2 ^ 32"
  shows "host_wf (if opens_event ep ev then Suc n else n) (lp_host (snd (loop_step ep enc ev l))) \<and>
    (malformed_event ep ev \<longrightarrow> fst (loop_step ep enc ev l) = Crashed) \<and>
    (fst (loop_step ep enc ev l) = Crashed \<longrightarrow> malformed_event ep ev \<or> ev = RemoteRecv \<and> oversized_next l)"
proof (cases "(ep, enc, ev, l)" rule: loop_step.cases)
  case (1 ep' enc' clock data l')
  then show ?thesis
    using tun_packet_safe_step[OF laws _ n, of "lp_host l" "take 65536 data" clock] ok
    by (simp add: run_handler_simps after_handler_Crashed)
next
  case (3 ep' enc' l')
  then have ev: "ev = RemoteRecv" by simp
  show ?thesis
  proof (cases "lp_incoming l")
    case Nil
    with ok show ?thesis by (simp add: ev)
  next
    case (Cons r rest)
    show ?thesis
    proof (cases "\<exists>msg. r = Inr (Some msg)")
      case True
      then obtain msg where r: "r = Inr (Some msg)" by blast
      have "keeps (\<not> response_fits msg) (host_wf n) (handle_remote_message ep msg)"
        using laws by (intro keeps_remote_message) auto
      from keepsD[OF this ok] keeps_no_panic[where s = "lp_host l" and P = "host_wf n" and m = "handle_remote_message ep msg"] this ok show ?thesis
        by (auto simp: ev Cons r oversized_next_def run_handler_simps after_handler_Crashed)
    next
      case False
      with ok show ?thesis by (auto simp: ev Cons split: sum.split option.split)
    qed
  qed
next
  case (6 ep' enc' result l')
  with ok show ?thesis
    by (auto simp: on_table_def handle_query_def Let_def after_handler_Crashed
        split: option.split sum.split prod.split send_result.split)
qed (use ok in \<open>auto simp: on_table_def Let_def split: option.split prod.split sum.split\<close>)

lemma loop_run_step:
  "loop_run ep enc (ev # evs) l =
     (if fst (loop_step ep enc ev l) \<in> {Continue, NotReady}
      then loop_run ep enc evs (snd (loop_step ep enc ev l)) else loop_step ep enc ev l)"
  by (auto split: prod.split loop_result.split)

declare loop_run.simps(2) [simp del]

text \<open>The results of the reader task are taken from the front.\<close>

lemma loop_step_incoming: "\<exists>got. lp_incoming l = got @ lp_incoming (snd (loop_step ep enc ev l))"
  by (cases "(ep, enc, ev, l)" rule: loop_step.cases)
     (auto simp: run_handler_simps Let_def split: option.split list.split sum.split prod.split)

lemma loop_run_incoming: "\<exists>got. lp_incoming l = got @ lp_incoming (snd (loop_run ep enc evs l))"
proof (induction evs arbitrary: l)
  case Nil
  then show ?case by simp
next
  case (Cons ev evs)
  from loop_step_incoming[of l ep enc ev] Cons[of "snd (loop_step ep enc ev l)"] show ?case
    by (auto simp: loop_run_step simp del: loop_step.simps)
qed

lemma loop_run_ok:
  assumes laws: "etherparse_laws ep"
  shows "host_wf n (lp_host l) \<Longrightarrow> n + length (filter (opens_event ep) evs) < 2 ^ 32 \<Longrightarrow>
    (\<exists>k \<le> length (filter (opens_event ep) evs). host_wf (n + k) (lp_host (snd (loop_run ep enc evs l)))) \<and>
    (fst (loop_run ep enc evs l) = Crashed \<longrightarrow> (\<exists>ev\<in>set evs. malformed_event ep ev) \<or>
       (\<exists>msg. Inr (Some msg) \<in> set (lp_incoming l) \<and> \<not> response_fits msg))"
proof (induction evs arbitrary: n l)
  case Nil
  then show ?case by simp
next
  case (Cons ev evs)
  let ?m = "if opens_event ep ev then Suc n else n"
  let ?l = "snd (loop_step ep enc ev l)"
  have step: "host_wf ?m (lp_host ?l)"
    "fst (loop_step ep enc ev l) = Crashed \<Longrightarrow> malformed_event ep ev \<or> oversized_next l"
    using loop_step_ok[OF laws Cons.prems(1), of ev enc] Cons.prems(2) by auto
  show ?case
  proof (cases "fst (loop_step ep enc ev l) \<in> {Continue, NotReady}")
    case True
    have "?m + length (filter (opens_event ep) evs) < 2 ^ 32"
      using Cons.prems(2) by (auto split: if_splits)
    from Cons.IH[OF step(1) this] obtain k where
      "k \<le> length (filter (opens_event ep) evs)" "host_wf (?m + k) (lp_host (snd (loop_run ep enc evs ?l)))"
      "fst (loop_run ep enc evs ?l) = Crashed \<longrightarrow> (\<exists>ev\<in>set evs. malformed_event ep ev) \<or>
         (\<exists>msg. Inr (Some msg) \<in> set (lp_incoming ?l) \<and> \<not> response_fits msg)"
      by blast
    moreover have "set (lp_incoming ?l) \<subseteq> set (lp_incoming l)"
      using loop_step_incoming[of l ep enc ev] by auto
    ultimately show ?thesis using True
      by (intro conjI exI[of _ "if opens_event ep ev then Suc k else k"])
         (auto simp: loop_run_step)
  next
    case False
    have "oversized_next l \<Longrightarrow> \<exists>msg. Inr (Some msg) \<in> set (lp_incoming l) \<and> \<not> response_fits msg"
      by (auto simp: oversized_next_def)
    with False step show ?thesis
      by (intro conjI exI[of _ "if opens_event ep ev then 1 else 0"])
         (auto simp: loop_run_step simp del: loop_step.simps)
  qed
qed

text \<open>
  C10: The host's loop under any order of its arms and any input: with fewer than \<open>2\<^sup>3\<^sup>2\<close> connection
  requests the connection table stays well formed throughout, and the process is only brought
  down by a packet on which the parser panics, or by a UDP response of the remote that is too
  large for one IP packet (which no datagram that a socket has received is).
\<close>

theorem loop_safe:
  assumes "etherparse_laws ep" and "length (filter (opens_event ep) evs) < 2 ^ 32"
    and "loop_run ep enc evs \<lparr>lp_host = initial_host dns, lp_incoming = incoming,
      lp_writer = w, lp_tun = []\<rparr> = (result, l)"
  shows "(\<exists>n \<le> length (filter (opens_event ep) evs). host_wf n (lp_host l)) \<and>
    (result = Crashed \<longrightarrow> (\<exists>ev\<in>set evs. malformed_event ep ev) \<or>
       (\<exists>msg. Inr (Some msg) \<in> set incoming \<and> \<not> response_fits msg))"
proof -
  let ?l = "\<lparr>lp_host = initial_host dns, lp_incoming = incoming, lp_writer = w, lp_tun = []\<rparr>"
  have "host_wf 0 (lp_host ?l)" using initial_host_wf by simp
  from loop_run_ok[OF assms(1) this, of evs enc] assms(2,3) show ?thesis by simp
qed

text \<open>An example: an application connects to 10.0.0.1 port 80, and then sends a packet whose total length is 0.\<close>

definition example_syn :: bytes where
  "example_syn = [0x45, 0, 0, 40, 0, 0, 0x40, 0, 64, 6, 0, 0, 10, 0, 0, 2, 10, 0, 0, 1,
     0x9C, 0x40, 0, 80, 0, 0, 0, 7, 0, 0, 0, 0, 0x50, 2, 0xFF, 0xFF, 0, 0, 0, 0]"

lemma example_syn_parses:
  "parse_ip_packet rfc_etherparse (take 65536 example_syn) = Ok (Tcp
    \<lparr>tcp_src_ip = V4 0x0A000002, tcp_dst_ip = V4 0x0A000001, tcp_src_port = 40000, tcp_dst_port = 80,
     tcp_seq = 7, tcp_ack = 0, tcp_flags = no_flags\<lparr>syn := True\<rparr>, tcp_window = 65535, tcp_payload = []\<rparr>)"
proof -
  have "take 65536 example_syn = example_syn" by (rule take_all) (simp add: example_syn_def)
  then show ?thesis
    by (simp add: example_syn_def no_flags_def parse_ip_packet_def parse_ipv4_packet_def
        parse_transport_def byte_slice_def rfc_ipv4_from_slice_def rfc_tcp_from_slice_def Let_def
        u16_at_def u32_at_def from_be_def be_nat_Cons)
qed

definition example_malformed :: bytes where
  "example_malformed = [0x45, 0, 0, 0, 0, 0, 0, 0, 64, 6, 0, 0, 10, 0, 0, 2, 10, 0, 0, 1]"

lemma example_malformed_panics: "parse_ip_packet rfc_etherparse (take 65536 example_malformed) = Panic"
proof -
  have "take 65536 example_malformed = example_malformed" by (rule take_all) (simp add: example_malformed_def)
  then show ?thesis
    by (simp add: example_malformed_def parse_ip_packet_def parse_ipv4_packet_def byte_slice_def
        rfc_ipv4_from_slice_def Let_def u16_at_def from_be_def be_nat_Cons)
qed

theorem loop_safe_witness:
  "\<exists>l. loop_run rfc_etherparse host_to_allocvec [TunRead (0, 0) (Inr example_syn), TunRead (0, 0) (Inr example_malformed)]
      \<lparr>lp_host = initial_host None, lp_incoming = [], lp_writer = undefined, lp_tun = []\<rparr> = (Crashed, l) \<and>
    tcp_by_id (nat_table (lp_host l)) 1 \<noteq> None \<and> (\<exists>n \<le> 1. host_wf n (lp_host l)) \<and>
    (\<exists>ev \<in> {TunRead (0, 0) (Inr example_syn), TunRead (0, 0) (Inr example_malformed)}. malformed_event rfc_etherparse ev)"
proof -
  let ?evs = "[TunRead (0, 0) (Inr example_syn), TunRead (0, 0) (Inr example_malformed)]"
  let ?run = "loop_run rfc_etherparse host_to_allocvec ?evs \<lparr>lp_host = initial_host None,
       lp_incoming = [], lp_writer = undefined, lp_tun = []\<rparr>"
  have "fst ?run = Crashed \<and> tcp_by_id (nat_table (lp_host (snd ?run))) 1 \<noteq> None"
    by (simp add: loop_run_step run_handler_def handle_tun_packet_def example_syn_parses example_malformed_panics
        handle_outbound_tcp_def Let_def outbound_syn_def create_tcp_connection_def send_remote_def chan_send_def
        initial_host_def nat_new_def new_chan_def no_flags_def)
  then obtain l where l: "?run = (Crashed, l)" "tcp_by_id (nat_table (lp_host l)) 1 \<noteq> None" by (cases ?run) auto
  have "length (filter (opens_event rfc_etherparse) ?evs) \<le> 1"
    using example_malformed_panics by (simp add: opens_def)
  with loop_safe[OF rfc.etherparse_laws_axioms _ l(1)] l show ?thesis
    by (intro exI[of _ l]) (auto intro: order.trans)
qed

end
