(* ===== verification/Host_Progress.thy ===== *)
theory Host_Progress
  imports Host_Loop
begin

text \<open>
  When the host's loop makes progress: how much room in the two channels a handler needs so
  that it does not wait, and what happens when there is none.
\<close>

section \<open>The room a handler needs\<close>

text \<open>
  \<open>spends r t m\<close>: with room for \<open>r\<close> messages and \<open>t\<close> packets, \<open>m\<close> does not wait, and
  leaves what room there was beyond that.
\<close>

definition spends :: "nat \<Rightarrow> nat \<Rightarrow> host_stmt \<Rightarrow> bool" where
  "spends r t m \<longleftrightarrow> (\<forall>s a b. room (r + a) (to_remote s) \<and> room (t + b) (to_tun s) \<longrightarrow>
     fst (m s) \<noteq> Blocked \<and> room a (to_remote (snd (m s))) \<and> room b (to_tun (snd (m s))))"

named_theorems spends_intros "room rules of statements"

lemma spends_Nil [spends_intros]: "spends r t (exec [])"
  by (auto simp: spends_def elim: room_mono)

lemma spendsD:
  "spends r t m \<Longrightarrow> room (r + a) (to_remote s) \<Longrightarrow> room (t + b) (to_tun s) \<Longrightarrow>
   fst (m s) \<noteq> Blocked \<and> room a (to_remote (snd (m s))) \<and> room b (to_tun (snd (m s)))"
  unfolding spends_def by blast

lemma spendsI:
  "(\<And>s a b. room (r + a) (to_remote s) \<Longrightarrow> room (t + b) (to_tun s) \<Longrightarrow>
     fst (m s) \<noteq> Blocked \<and> room a (to_remote (snd (m s))) \<and> room b (to_tun (snd (m s)))) \<Longrightarrow>
   spends r t m"
  unfolding spends_def by blast

lemma spends_Cons:
  assumes m: "spends r t m" and ms: "spends r' t' (exec ms)"
  shows "spends (r + r') (t + t') (exec (m # ms))"
proof (rule spendsI)
  fix s :: Host and a b assume "room (r + r' + a) (to_remote s)" "room (t + t' + b) (to_tun s)"
  then have s1: "fst (m s) \<noteq> Blocked" "room (r' + a) (to_remote (snd (m s)))" "room (t' + b) (to_tun (snd (m s)))"
    using spendsD[OF m, of "r' + a" s "t' + b"] by (simp_all add: add.assoc)
  show "fst (exec (m # ms) s) \<noteq> Blocked \<and> room a (to_remote (snd (exec (m # ms) s))) \<and>
      room b (to_tun (snd (exec (m # ms) s)))"
    using spendsD[OF ms s1(2,3)] s1
    by (cases "m s"; cases "fst (m s)") (auto simp: exec.simps elim: room_mono)
qed

lemma spends_mono: "spends r t m \<Longrightarrow> r \<le> r' \<Longrightarrow> t \<le> t' \<Longrightarrow> spends r' t' m"
  by (rule spendsI) (erule spendsD; erule room_mono; simp)

lemma spends_upd_nat: "spends 0 0 (upd_nat f)"
  by (simp add: spends_def upd_nat_def)

lemma spends_send_remote: "spends 1 0 (send_remote m)"
  by (auto simp: spends_def send_remote_run flow_simps)

lemma spends_send_tun: "spends 0 1 (send_tun pkt)"
  by (auto simp: spends_def send_tun_run flow_simps)

lemma spends_with_built: "(\<And>pkt. spends r t (k pkt)) \<Longrightarrow> spends r t (with_built b k)"
  by (cases b) (auto simp: spends_def with_built_def elim: room_mono)

lemma spends_with_state: "(\<And>s. spends r t (m s)) \<Longrightarrow> spends r t (with_state m)"
  unfolding spends_def with_state_def by blast

lemma spends_if: "spends r t m \<Longrightarrow> spends r t n \<Longrightarrow> spends r t (if b then m else n)"
  by simp

lemma spends_exec0: "spends 0 0 m \<Longrightarrow> spends r t (exec ms) \<Longrightarrow> spends r t (exec (m # ms))"
  using spends_Cons[of 0 0 m r t ms] by simp

lemma spends_exec1: "spends 1 0 m \<Longrightarrow> spends r t (exec ms) \<Longrightarrow> spends (Suc r) t (exec (m # ms))"
  using spends_Cons[of 1 0 m r t ms] by simp

lemma spends_exec2: "spends 0 1 m \<Longrightarrow> spends r t (exec ms) \<Longrightarrow> spends r (Suc t) (exec (m # ms))"
  using spends_Cons[of 0 1 m r t ms] by simp

lemmas spends_rules = spends_Nil spends_upd_nat spends_send_remote spends_send_tun spends_with_built
  spends_with_state spends_if

lemma spends_send_ack: "spends 0 1 (send_ack ep key cid)"
  unfolding send_ack_def by (intro spends_rules)

lemma spends_close: "spends 0 0 (exec [upd_nat (close_tcp_connection key)])"
  by (intro spends_exec0 spends_rules)

lemma spends_fin: "spends (Suc (Suc 0)) (Suc 0) (outbound_established_fin ep key cid tcp)"
  unfolding outbound_established_fin_def
  by (rule spends_exec0[OF spends_upd_nat spends_exec1[OF _ spends_exec2[OF spends_send_ack
        spends_exec1[OF spends_send_remote spends_exec0[OF spends_upd_nat spends_Nil]]]]])
     (use spends_mono[OF spends_send_remote, of 1 0] spends_Nil in auto)

lemma spends_data: "spends (Suc 0) (Suc 0) (outbound_established_data ep key cid tcp)"
proof -
  have "spends 1 0 (forward_in_order cid tcp)"
    unfolding forward_in_order_def
    using spends_exec0[OF spends_upd_nat spends_exec1[OF spends_send_remote spends_Nil[of 0 0]]]
    by (intro spends_with_state spends_if spends_Nil) simp
  then show ?thesis
    unfolding outbound_established_data_def by (intro spends_exec1 spends_exec2 spends_send_ack spends_Nil)
qed

lemma spends_known: "spends 2 2 (outbound_known ep key cid tcp)"
proof -
  have est: "spends 2 2 (outbound_established ep key cid tcp)"
    unfolding outbound_established_def
    by (auto intro: spends_mono[OF spends_fin] spends_mono[OF spends_data] spends_Nil)
  have cw: "spends 2 2 (outbound_close_wait ep key cid tcp)"
    unfolding outbound_close_wait_def
    using spends_mono[OF spends_exec0[OF spends_upd_nat spends_exec2[OF spends_send_ack
        spends_close[of key]]], of 2 2 "update_tcp_ack cid (tcp_seq tcp + 1)" ep key cid]
    by (simp add: spends_Nil)
  have rst: "spends 2 2 (exec [upd_nat (close_tcp_connection key), send_remote (TcpClose cid)])"
    using spends_exec0[OF spends_upd_nat spends_exec1[OF spends_send_remote spends_Nil[of 0 0]]]
    by (rule spends_mono) auto
  show ?thesis
    unfolding outbound_known_def
    by (intro spends_if rst spends_with_state)
       (auto split: option.split ConnectionState.split intro: est cw spends_Nil spends_mono[OF spends_close])
qed

lemma spends_outbound_tcp: "spends 2 2 (handle_outbound_tcp ep tcp)"
proof -
  have syn: "spends 2 2 (outbound_syn key tcp)" for key
  proof (rule spendsI)
    fix s :: Host and a b assume r: "room (2 + a) (to_remote s)" "room (2 + b) (to_tun s)"
    let ?s = "s\<lparr>nat_table := snd (create_tcp_connection (key, tcp_seq tcp) (nat_table s))\<rparr>"
    have "room (1 + a) (to_remote ?s)" "room (0 + b) (to_tun ?s)"
      using r by (auto elim: room_mono)
    from spendsD[OF spends_send_remote this]
    show "fst (outbound_syn key tcp s) \<noteq> Blocked \<and> room a (to_remote (snd (outbound_syn key tcp s))) \<and>
        room b (to_tun (snd (outbound_syn key tcp s)))"
      by (simp add: outbound_syn_def split_beta Let_def)
  qed
  show ?thesis
    unfolding handle_outbound_tcp_def Let_def
    by (intro spends_if syn spends_with_state) (auto intro: spends_known spends_Nil split: option.split)
qed

lemma spends_outbound_udp: "spends 2 2 (handle_outbound_udp clock udp)"
  unfolding handle_outbound_udp_def
  by (rule spends_mono[OF spends_exec0[OF spends_upd_nat spends_exec1[OF spends_send_remote spends_Nil]]])
     auto

lemma spends_const: "r \<noteq> Blocked \<Longrightarrow> spends r' t' (\<lambda>s. (r, s))"
  by (rule spendsI) (auto elim: room_mono)

lemma spends_tun_packet: "spends 2 2 (handle_tun_packet ep clock data)"
  by (auto simp: handle_tun_packet_def intro: spends_const spends_outbound_tcp spends_outbound_udp spends_Nil
      split: outcome.split ParsedPacket.split)

lemma spends_send_chunk: "spends 0 1 (send_chunk ep key i chunk is_last)"
  unfolding send_chunk_def
  using spends_exec0[OF spends_upd_nat spends_exec2[OF spends_send_tun spends_Nil[of 0 0]]]
  by (intro spends_with_state spends_with_built) simp

lemma spends_chunks: "spends 0 (length cs) (exec (chunk_stmts ep key i len off cs))"
  by (induction cs arbitrary: off) (auto intro: spends_Nil spends_exec2[OF spends_send_chunk])

text \<open>The remote reads at most 65536 bytes at a time, which is two segments.\<close>

fun data_fits :: "RemoteMessage \<Rightarrow> bool" where
  "data_fits (RemoteMessage.TcpData i data) \<longleftrightarrow> length data \<le> 65536"
| "data_fits _ \<longleftrightarrow> True"

lemma spends_remote_data:
  assumes "length data \<le> 65536"
  shows "spends 2 2 (remote_tcp_data ep key i data)"
proof -
  have "(length data + 65494) div 65495 < 3"
    using assms by (intro less_mult_imp_div_less) simp
  then have "length (chunks max_tcp_payload data) \<le> 2"
    by (simp add: length_chunks)
  then show ?thesis
    unfolding remote_tcp_data_def by (intro spends_mono[OF spends_chunks]) auto
qed

lemma spends_reply_then:
  "spends 0 1 (with_state (\<lambda>s. with_built (b s) (\<lambda>pkt. exec [upd_nat f, send_tun pkt])))"
  using spends_exec0[OF spends_upd_nat spends_exec2[OF spends_send_tun spends_Nil[of 0 0]]]
  by (intro spends_with_state spends_with_built) simp

lemma spends_send_fin: "spends 2 2 (send_fin ep key i st)"
  unfolding send_fin_def
  by (rule spends_mono[OF spends_exec2[OF spends_reply_then spends_exec0[OF spends_upd_nat spends_Nil]]])
     auto

lemma spends_for_key: "(\<And>key. spends r t (k key)) \<Longrightarrow> spends r t (for_key i k)"
  unfolding for_key_def by (rule spends_with_state) (auto split: option.split intro: spends_Nil)

lemma spends_remote_message:
  assumes "data_fits msg"
  shows "spends 2 2 (handle_remote_message ep msg)"
proof -
  have connected: "spends 2 2 (remote_tcp_connected ep key i)" for key i
    unfolding remote_tcp_connected_def
    by (rule spends_mono[OF spends_exec0[OF spends_upd_nat spends_exec2[OF spends_reply_then spends_Nil]]])
       auto
  have closed: "spends 2 2 (remote_tcp_closed ep key i)" for key i
    unfolding remote_tcp_closed_def
    by (intro spends_with_state)
       (auto split: option.split ConnectionState.split intro: spends_send_fin spends_mono[OF spends_close])
  have error: "spends 2 2 (remote_tcp_error ep key)" for key
    unfolding remote_tcp_error_def
    by (rule spends_mono[OF spends_exec2[OF spends_with_built[OF spends_send_tun] spends_close]]) auto
  have udp: "spends 2 2 (remote_udp_response ep p a q data)" for p a q data
    unfolding remote_udp_response_def
    by (rule spends_with_state)
       (auto split: option.split intro: spends_Nil spends_mono[OF spends_with_built[OF spends_send_tun]])
  have dns: "spends 2 2 (remote_dns_response i data)" for i data
    by (rule spendsI) (auto simp: remote_dns_response_def split: option.split elim: room_mono)
  from assms show ?thesis
    by (cases msg)
       (auto intro: spends_for_key connected spends_remote_data closed error udp dns spends_Nil)
qed

section \<open>Properties: progress and its limit\<close>

text \<open>
  C32: With room for two entries in each of the two channels, and data messages of the remote of
  at most the 65536 bytes that its reads return, no handler waits, whichever arm is taken and
  whatever it yields. So an iteration does not end in one case only: it has begun to write to SSH
  or to the device, and that takes nothing any more. Two is what a FIN with data needs.
\<close>

theorem iteration_ends:
  assumes "room 2 (to_remote (lp_host l))" "room 2 (to_tun (lp_host l))"
    and "\<forall>msg. Inr (Some msg) \<in> set (lp_incoming l) \<longrightarrow> data_fits msg"
  shows "fst (loop_step ep enc ev l) = Hung \<longleftrightarrow> ev = WriteStalls \<and>
    (ch_queue (to_remote (lp_host l)) \<noteq> [] \<or> ch_queue (to_tun (lp_host l)) \<noteq> [])"
proof -
  have handler: "fst (run_handler m l') \<noteq> Hung" if "spends 2 2 m" "lp_host l' = lp_host l" for m l'
  proof -
    have "fst (m (lp_host l)) \<noteq> Blocked"
      using spendsD[OF that(1), of 0 "lp_host l" 0] assms(1,2) by simp
    then show ?thesis by (cases "fst (m (lp_host l))") (auto simp: run_handler_simps that(2))
  qed
  show ?thesis
  proof (cases "(ep, enc, ev, l)" rule: loop_step.cases)
    case (1 ep' enc' clock data l')
    then show ?thesis using handler[OF spends_tun_packet] by simp
  next
    case (3 ep' enc' l')
    show ?thesis
    proof (cases "lp_incoming l")
      case Nil
      with 3 show ?thesis by simp
    next
      case (Cons r rest)
      then have "data_fits msg" if "r = Inr (Some msg)" for msg using assms(3) that by simp
      with 3 Cons handler[OF spends_remote_message] show ?thesis
        by (auto split: sum.split option.split)
    qed
  next
    case (6 ep' enc' result l')
    have "\<not> ch_closed (to_remote (lp_host l))"
      "length (ch_queue (to_remote (lp_host l))) < ch_cap (to_remote (lp_host l))"
      using assms(1) by (auto simp: room_def)
    then have "fst (handle_query data sender (d, to_remote (lp_host l))) = Done" for data sender d
      by (simp add: handle_query_def chan_send_def Let_def split_beta)
    with 6 show ?thesis by (auto simp: split_beta split: option.split sum.split)
  qed (auto simp: Let_def split: option.split prod.split sum.split)
qed

theorem iteration_ends_witness:
  "fst (loop_step rfc_etherparse host_to_allocvec (TunRead (0, 0) (Inr example_syn))
     \<lparr>lp_host = initial_host None, lp_incoming = [Inr (Some (RemoteMessage.TcpData 1 [7]))],
      lp_writer = undefined, lp_tun = []\<rparr>) \<noteq> Hung"
  by (subst iteration_ends) (simp_all add: initial_host_def new_chan_def room_def)

lemma udp_packet_step:
  assumes "parse_ip_packet ep (take 65536 data) = Ok (Udp udp)"
    and "\<not> ch_closed (to_remote (lp_host l))"
    and "st = loop_step ep enc (TunRead clock (Inr data)) l"
  shows "length (ch_queue (to_remote (lp_host l))) < ch_cap (to_remote (lp_host l)) \<Longrightarrow>
      fst st = Continue \<and> \<not> ch_closed (to_remote (lp_host (snd st))) \<and>
      ch_cap (to_remote (lp_host (snd st))) = ch_cap (to_remote (lp_host l)) \<and>
      length (ch_queue (to_remote (lp_host (snd st)))) = Suc (length (ch_queue (to_remote (lp_host l))))"
    and "\<not> length (ch_queue (to_remote (lp_host l))) < ch_cap (to_remote (lp_host l)) \<Longrightarrow> fst st = Hung"
  using assms
  by (simp_all add: run_handler_simps handle_tun_packet_def handle_outbound_udp_def exec.simps
      upd_nat_run send_remote_def chan_send_def)

text \<open>
  C31: The loop can wait for itself: when the application sends UDP datagrams and \<open>select!\<close>,
  which picks a ready arm at random, takes the TUN arm once more than the channel to the remote
  has places, the handler's \<open>send\<close> waits for a receiver that only this task polls, and the
  host hangs. From the start that takes 1025 datagrams.
\<close>

theorem loop_waits_for_itself:
  assumes "parse_ip_packet ep (take 65536 data) = Ok (Udp udp)"
    and "\<not> ch_closed (to_remote (lp_host l))"
    and "length (ch_queue (to_remote (lp_host l))) \<le> ch_cap (to_remote (lp_host l))"
    and "n = ch_cap (to_remote (lp_host l)) - length (ch_queue (to_remote (lp_host l)))"
  shows "fst (loop_run ep enc (replicate k (TunRead clock (Inr data))) l) = (if k \<le> n then Continue else Hung)"
  using assms(2-)
proof (induction k arbitrary: l n)
  case 0
  then show ?case by simp
next
  case (Suc k)
  let ?q = "\<lambda>l. length (ch_queue (to_remote (lp_host l)))"
    and ?cap = "\<lambda>l. ch_cap (to_remote (lp_host l))"
  let ?st = "loop_step ep enc (TunRead clock (Inr data)) l"
  note step = udp_packet_step[OF assms(1) Suc.prems(1) refl, of enc clock]
  show ?case
  proof (cases "?q l < ?cap l")
    case True
    note l' = step(1)[OF True]
    have "?q (snd ?st) \<le> ?cap (snd ?st)" using True l' by simp
    from Suc.IH[OF _ this refl] l'
    have "fst (loop_run ep enc (replicate k (TunRead clock (Inr data))) (snd ?st)) =
        (if k \<le> ?cap l - Suc (?q l) then Continue else Hung)"
      by simp
    moreover have "k \<le> ?cap l - Suc (?q l) \<longleftrightarrow> Suc k \<le> n" using True Suc.prems(3) by auto
    ultimately show ?thesis using l' by (simp add: loop_run_step del: loop_step.simps)
  next
    case False
    with step(2) Suc.prems show ?thesis by (simp add: loop_run_step del: loop_step.simps)
  qed
qed

theorem loop_waits_for_itself_witness:
  "fst (loop_run rfc_etherparse host_to_allocvec (replicate 1025 (TunRead (0, 0) (Inr
      [0x45, 0, 0, 30, 0, 0, 0x40, 0, 64, 17, 0, 0, 10, 0, 0, 1, 8, 8, 8, 8,
       0xD4, 0x31, 0, 53, 0, 10, 0, 0, 7, 8])))
     \<lparr>lp_host = initial_host None, lp_incoming = [], lp_writer = undefined, lp_tun = []\<rparr>) = Hung"
proof -
  let ?data = "[0x45, 0, 0, 30, 0, 0, 0x40, 0, 64, 17, 0, 0, 10, 0, 0, 1, 8, 8, 8, 8,
       0xD4, 0x31, 0, 53, 0, 10, 0, 0, 7, 8] :: bytes"
  let ?l = "\<lparr>lp_host = initial_host None, lp_incoming = [], lp_writer = undefined, lp_tun = []\<rparr>"
  have parse: "parse_ip_packet rfc_etherparse ?data =
    Ok (Udp \<lparr>udp_src_ip = V4 0x0A000001, udp_dst_ip = V4 0x08080808, udp_src_port = 54321,
             udp_dst_port = 53, udp_payload = [7, 8]\<rparr>)"
    by (simp add: parse_ip_packet_def parse_ipv4_packet_def parse_transport_def byte_slice_def
        rfc_ipv4_from_slice_def rfc_udp_from_slice_def Let_def u16_at_def from_be_def be_nat_Cons)
  have "take 65536 ?data = ?data" by (rule take_all) simp
  have "fst (loop_run rfc_etherparse host_to_allocvec (replicate 1025 (TunRead (0, 0) (Inr ?data))) ?l)
      = (if (1025 :: nat) \<le> 1024 then Continue else Hung)"
  proof (rule loop_waits_for_itself)
    show "parse_ip_packet rfc_etherparse (take 65536 ?data) =
      Ok (Udp \<lparr>udp_src_ip = V4 0x0A000001, udp_dst_ip = V4 0x08080808, udp_src_port = 54321,
               udp_dst_port = 53, udp_payload = [7, 8]\<rparr>)"
      using parse by (simp only: \<open>take 65536 ?data = ?data\<close>)
  qed (simp_all add: initial_host_def new_chan_def)
  then show ?thesis by (rule trans) simp
qed

end
