(* ===== verification/Host_Channels.thy ===== *)
theory Host_Channels
  imports Host_Invariants
begin

text \<open>
  What the handlers of the host put on its two outgoing channels: which messages and which
  packets can come from which handler. A predicate on the host that the table does not affect
  and that these messages and packets keep is kept by the whole handler.
\<close>

fun plain :: "HostMessage \<Rightarrow> bool" where
  "plain (HostMessage.TcpData i data) = True"
| "plain (TcpClose i) = True"
| "plain _ = False"

section \<open>Statements over the channels\<close>

lemma keeps_built:
  "(\<And>pkt. b = Ok pkt \<Longrightarrow> keeps True P (k pkt)) \<Longrightarrow> keeps True P (with_built b k)"
  by (auto simp: keeps_def with_built_def split: outcome.splits)

text \<open>
  The contract of the TCP handlers: besides the table, they only send, namely \<open>plain\<close> messages,
  packets without payload, and packets with a payload on the keys \<open>fed\<close>.
\<close>

locale tcp_channels =
  fixes P :: "Host \<Rightarrow> bool" and ep :: etherparse and fed :: "TcpKey \<Rightarrow> bool"
  assumes table: "P s \<Longrightarrow> P (s\<lparr>nat_table := t\<rparr>)"
    and message: "plain m \<Longrightarrow> keeps True P (send_remote m)"
    and reply: "fed key \<or> p = [] \<Longrightarrow> tcp_build ep (reply_packet key sq ak flags win p) = Ok pkt \<Longrightarrow>
      keeps True P (send_tun pkt)"
begin

lemma upd_nat: "keeps True P (upd_nat f)"
  by (simp add: keeps_def upd_nat_def table)

lemma keeps_ack: "keeps True P (send_ack ep key cid)"
  unfolding send_ack_def by (intro keeps_with_state keeps_built) (erule reply[rotated], simp)

lemmas handler_intros = keeps_exec_Nil keeps_exec_Cons keeps_with_state keeps_if upd_nat message keeps_ack

lemma keeps_established: "keeps True P (outbound_established ep key cid tcp)"
  unfolding outbound_established_def outbound_established_fin_def outbound_established_data_def forward_in_order_def
  by (intro handler_intros) simp_all

lemma keeps_known: "keeps True P (outbound_known ep key cid tcp)"
  unfolding outbound_known_def outbound_close_wait_def
  by (auto intro!: handler_intros keeps_established split: option.split ConnectionState.split)

lemma keeps_tcp: "\<not> is_syn tcp \<Longrightarrow> keeps True P (handle_outbound_tcp ep tcp)"
  by (auto simp: handle_outbound_tcp_def is_syn_def Let_def intro!: handler_intros keeps_known split: option.split)

lemma keeps_fin: "keeps True P (send_fin ep key i st)"
  unfolding send_fin_def by (auto intro!: handler_intros keeps_built elim: reply[rotated])

lemma keeps_chunks: "fed key \<Longrightarrow> keeps True P (exec (chunk_stmts ep key i len off cs))"
  by (induction cs arbitrary: off)
     (auto simp: send_chunk_def intro!: handler_intros keeps_built elim: reply[rotated])

lemma keeps_connected: "keeps True P (remote_tcp_connected ep key i)"
  unfolding remote_tcp_connected_def by (auto intro!: handler_intros keeps_built elim: reply[rotated])

lemma keeps_closed: "keeps True P (remote_tcp_closed ep key i)"
  unfolding remote_tcp_closed_def
  by (auto intro!: handler_intros keeps_fin split: option.split ConnectionState.split)

lemma keeps_error: "keeps True P (remote_tcp_error ep key)"
  unfolding remote_tcp_error_def by (auto intro!: handler_intros keeps_built elim: reply[rotated])

text \<open>The handler of a message about a connection, whose data belongs to a key of \<open>fed\<close>.\<close>

lemma connection_message:
  assumes "P s" "message_id msg = Some i"
    and "\<And>i d key. msg = RemoteMessage.TcpData i d \<Longrightarrow> tcp_by_id (nat_table s) i = Some key \<Longrightarrow> fed key"
  shows "P (snd (handle_remote_message ep msg s))"
proof (cases "tcp_by_id (nat_table s) i")
  case None
  with assms(1,2) show ?thesis
    by (cases msg) (simp_all add: for_key_def with_state_def get_tcp_connection_key_def)
next
  case key: (Some key)
  have "\<exists>m. handle_remote_message ep msg s = m s \<and> keeps True P m"
  proof (cases msg)
    case (TcpData j d)
    with assms(2) have j: "j = i" by simp
    have "keeps True P (remote_tcp_data ep key i d)"
      unfolding remote_tcp_data_def using TcpData key j by (intro keeps_chunks assms(3)) simp_all
    with TcpData key j show ?thesis
      by (intro exI[of _ "remote_tcp_data ep key i d"])
         (simp add: for_key_def with_state_def get_tcp_connection_key_def)
  qed (use assms(2) key keeps_connected[of key] keeps_closed[of key] keeps_error[of key] in
    \<open>auto simp: for_key_def with_state_def get_tcp_connection_key_def\<close>)
  with assms(1) show ?thesis using keepsD by metis
qed

end

text \<open>Requests for connections keep it as well: then every segment does.\<close>

locale tcp_channels_syn = tcp_channels +
  assumes connect: "keeps True P (send_remote (TcpConnect i ip port))"
begin

lemma keeps_syn: "P s \<Longrightarrow> P (snd (outbound_syn key tcp s))"
  by (auto simp: outbound_syn_def split_beta Let_def intro: keepsD[OF connect] table)

lemma any_segment: "P s \<Longrightarrow> P (snd (handle_outbound_tcp ep tcp s))"
proof (cases "is_syn tcp")
  case True
  moreover assume "P s"
  ultimately show ?thesis using keeps_syn by (auto simp: handle_outbound_tcp_def is_syn_def Let_def)
next
  case False
  moreover assume "P s"
  ultimately show ?thesis using keepsD[OF keeps_tcp] by blast
qed

end

text \<open>The UDP handlers send datagrams in both directions.\<close>

locale channel_invariant = tcp_channels +
  assumes forward: "keeps True P (send_remote (UdpDatagram src_port ip port data))"
    and datagram: "udp_build ep u = Ok pkt \<Longrightarrow> keeps True P (send_tun pkt)"
begin

lemma keeps_udp: "keeps True P (handle_outbound_udp clock udp)"
  unfolding handle_outbound_udp_def by (intro handler_intros forward)

lemma keeps_response: "keeps True P (remote_udp_response ep dst_port src_ip src_port data)"
  unfolding remote_udp_response_def
  by (auto intro!: handler_intros keeps_built intro: datagram split: option.split)

text \<open>A whole handler, for any message but a DNS response.\<close>

lemma remote_message:
  assumes "P s" "\<forall>i d. msg \<noteq> DnsResponse i d"
    and "\<And>i d key. msg = RemoteMessage.TcpData i d \<Longrightarrow> tcp_by_id (nat_table s) i = Some key \<Longrightarrow> fed key"
  shows "P (snd (handle_remote_message ep msg s))"
proof (cases "message_id msg")
  case None
  then have "keeps True P (handle_remote_message ep msg)"
    using keeps_response keeps_exec_Nil assms(2) by (cases msg) simp_all
  with assms(1) show ?thesis by (rule keepsD[rotated])
next
  case (Some i)
  with assms(1,3) show ?thesis by (intro connection_message)
qed

lemma tun_packet:
  assumes "P s" "\<And>tcp. parse_ip_packet ep data = Ok (Tcp tcp) \<Longrightarrow> \<not> is_syn tcp"
  shows "P (snd (handle_tun_packet ep clock data s))"
  using assms keepsD[OF keeps_tcp assms(1)] keepsD[OF keeps_udp assms(1)]
  by (auto simp: handle_tun_packet_def split: outcome.split ParsedPacket.split)

end

text \<open>A predicate that does not depend on the DNS forwarder holds after every message.\<close>

locale channel_invariant_dns = channel_invariant +
  assumes dns: "P s \<Longrightarrow> P (s\<lparr>dns_state := d\<rparr>)"
begin

lemma any_message:
  assumes "P s"
    and "\<And>i d key. msg = RemoteMessage.TcpData i d \<Longrightarrow> tcp_by_id (nat_table s) i = Some key \<Longrightarrow> fed key"
  shows "P (snd (handle_remote_message ep msg s))"
proof (cases "\<exists>i d. msg = DnsResponse i d")
  case True
  with assms(1) show ?thesis by (auto simp: remote_dns_response_def dns split: option.split)
next
  case False
  with assms show ?thesis by (intro remote_message) auto
qed

end

text \<open>With requests for connections: every packet.\<close>

locale channel_invariant_syn = channel_invariant + tcp_channels_syn
begin

lemma any_packet: "P s \<Longrightarrow> P (snd (handle_tun_packet ep clock data s))"
  using any_segment keepsD[OF keeps_udp]
  by (auto simp: handle_tun_packet_def split: outcome.split ParsedPacket.split)

end

locale channel_invariant_all = channel_invariant_syn + channel_invariant_dns

section \<open>Neither channel is ever closed by the host\<close>

definition opened :: "Host \<Rightarrow> bool" where
  "opened s \<longleftrightarrow> \<not> ch_closed (to_remote s) \<and> \<not> ch_closed (to_tun s)"

lemma keeps_opened: "keeps True opened (send_remote m)" "keeps True opened (send_tun pkt)"
  by (auto simp: keeps_def opened_def send_remote_def send_tun_def chan_send_def)

interpretation opened: channel_invariant_all opened ep "\<lambda>_. True" for ep
  by unfold_locales (simp_all add: opened_def keeps_opened)

end
