(* ===== verification/Host_Frame.thy ===== *)
theory Host_Frame
  imports Host_Loop Host_Channels
begin

text \<open>
  What the theories of one stream through the host share: a data segment of an established
  connection, whatever room the channels have; which identifiers lead to its key; the frame of
  a session, which is the start of \<open>run_proxy_loop\<close>, its writes and its last message; and what a
  reader makes of a stream that has arrived in part.
\<close>

declare exec.simps(2) [simp del]

section \<open>A data segment, whatever the room in the channels\<close>

lemma send_remote_Done_iff:
  "send_remote m s = (Done, s') \<longleftrightarrow>
     \<not> ch_closed (to_remote s) \<and> length (ch_queue (to_remote s)) < ch_cap (to_remote s) \<and>
     s' = s\<lparr>to_remote := to_remote s\<lparr>ch_queue := ch_queue (to_remote s) @ [m]\<rparr>\<rparr>"
  by (auto simp: send_remote_def chan_send_def)

lemma send_tun_Done: "send_tun pkt s = (Done, s') \<Longrightarrow> \<exists>ch. s' = s\<lparr>to_tun := ch\<rparr>"
  by (auto simp: send_tun_def chan_send_def split: if_splits)

lemma send_ack_Done_state: "send_ack ep key cid s = (Done, s') \<Longrightarrow> \<exists>ch. s' = s\<lparr>to_tun := ch\<rparr>"
  by (auto simp: send_ack_def with_state_def with_built_Done dest: send_tun_Done)

lemma receiving_to_tun [simp]: "receiving key c isn n (s\<lparr>to_tun := ch\<rparr>) = receiving key c isn n s"
  by (simp add: receiving_def)

lemma data_step_Done:
  assumes rcv: "receiving key c isn n s" and n: "n \<le> length S" and S: "length S < 2 ^ 32"
    and seg: "carries S isn key tcp (off, len)"
    and run: "handle_outbound_tcp ep tcp s = (Done, s')"
  shows "receiving key c isn (expect n (off, len)) s' \<and>
    (\<exists>msgs. ch_queue (to_remote s') = ch_queue (to_remote s) @ msgs \<and>
      set msgs \<subseteq> {HostMessage.TcpData (conn_id c) (tcp_payload tcp)} \<and>
      forwarded (conn_id c) msgs = drop n (take (expect n (off, len)) S))"
proof -
  let ?c = "\<lambda>n. c\<lparr>conn_ack := isn + 1 + word_of_nat n\<rparr>"
  have entry: "tcp_by_key (nat_table s) key = Some (?c n)"
    "tcp_by_id (nat_table s) (conn_id c) = Some key" and est: "conn_state c = Established"
    using rcv by (auto simp: receiving_def)
  have key: "tcp_key tcp = key" "\<not> is_syn tcp" "\<not> rst (tcp_flags tcp)" "\<not> fin (tcp_flags tcp)"
    "length (tcp_payload tcp) = len" "tcp_payload tcp = take len (drop off S)"
    using seg by (auto simp: is_syn_def)
  have step: "handle_outbound_tcp ep tcp s = outbound_established ep key (conn_id c) tcp s"
    using outbound_known_run[OF key(1) entry(1) key(2,3), of ep] est by simp
  show ?thesis
  proof (cases "len = 0")
    case True
    then have "s' = s" using run step key by (simp add: outbound_established_def)
    with True rcv show ?thesis by (auto simp: expect_def)
  next
    case False
    then have data: "tcp_payload tcp \<noteq> []" using key(5) by auto
    obtain s1 where s1: "forward_in_order (conn_id c) tcp s = (Done, s1)"
      "send_ack ep key (conn_id c) s1 = (Done, s')"
      using run[unfolded step] data key(4)
      by (auto simp: outbound_established_def outbound_established_data_def exec_Done_iff)
    obtain ch where s': "s' = s1\<lparr>to_tun := ch\<rparr>" using send_ack_Done_state[OF s1(2)] by blast
    have plen: "payload_len_u32 (length (tcp_payload tcp)) = word_of_nat len"
      using key(5) seg S by (intro trans[OF payload_len_exact]) auto
    have in_order: "tcp_seq tcp = get_tcp_ack (conn_id c) (nat_table s) \<longleftrightarrow> off = n"
      using seg entry n S offset_eq[of off n] by (simp add: nat_simps)
    show ?thesis
    proof (cases "off = n")
      case True
      let ?s = "s\<lparr>nat_table := update_tcp_ack (conn_id c) (tcp_seq tcp + word_of_nat len) (nat_table s)\<rparr>"
      have "s1 = ?s\<lparr>to_remote := to_remote s\<lparr>ch_queue := ch_queue (to_remote s)
          @ [HostMessage.TcpData (conn_id c) (tcp_payload tcp)]\<rparr>\<rparr>"
        using s1(1) in_order True plen
        by (auto simp: forward_in_order_def with_state_def exec_Done_iff upd_nat_run send_remote_Done_iff)
      with True entry est seg key(6) show ?thesis
        by (simp add: s' receiving_def nat_simps expect_def algebra_simps drop_take)
    next
      case False
      then have "s1 = s" using s1(1) in_order by (simp add: forward_in_order_def with_state_def)
      with False rcv show ?thesis by (simp add: s' expect_def)
    qed
  qed
qed

text \<open>
  On open channels a handler that only replies on a key of one family completes or waits; it
  does not fail, and the channels stay open.
\<close>

definition smooth :: "host_stmt \<Rightarrow> bool" where
  "smooth m \<longleftrightarrow> (\<forall>s. opened s \<longrightarrow> fst (m s) \<in> {Done, Blocked} \<and> opened (snd (m s)))"

lemma smooth_exec: "(\<And>m. m \<in> set ms \<Longrightarrow> smooth m) \<Longrightarrow> smooth (exec ms)"
proof (induction ms)
  case Nil
  then show ?case by (simp add: smooth_def)
next
  case (Cons m ms)
  then have m: "smooth m" and ms: "smooth (exec ms)" by simp_all
  show ?case
    unfolding smooth_def
  proof (intro allI impI)
    fix s assume "opened s"
    with m have "fst (m s) \<in> {Done, Blocked}" "opened (snd (m s))" by (auto simp: smooth_def)
    with ms show "fst (exec (m # ms) s) \<in> {Done, Blocked} \<and> opened (snd (exec (m # ms) s))"
      by (cases "m s"; cases "fst (m s)") (auto simp: smooth_def exec.simps)
  qed
qed

lemma smooth_basic:
  "smooth (upd_nat f)" "smooth (send_remote msg)" "smooth (send_tun pkt)"
  by (auto simp: smooth_def opened_def upd_nat_def send_remote_def send_tun_def chan_send_def)

lemma smooth_with_state: "(\<And>s. smooth (m s)) \<Longrightarrow> smooth (with_state m)"
  unfolding smooth_def with_state_def by blast

lemma smooth_send_ack:
  assumes "etherparse_laws ep" "key_family key"
  shows "smooth (send_ack ep key cid)"
  unfolding send_ack_def
proof (rule smooth_with_state)
  fix s
  obtain pkt where "tcp_build ep (reply_packet key (get_tcp_seq cid (nat_table s))
      (get_tcp_ack cid (nat_table s)) (no_flags\<lparr>ack := True\<rparr>) 65535 []) = Ok pkt"
    using with_reply_run[OF assms] by metis
  then show "smooth (with_built (tcp_build ep (reply_packet key (get_tcp_seq cid (nat_table s))
      (get_tcp_ack cid (nat_table s)) (no_flags\<lparr>ack := True\<rparr>) 65535 [])) send_tun)"
    by (simp add: with_built_Ok smooth_basic)
qed

lemma smooth_data:
  assumes "etherparse_laws ep" "key_family key"
  shows "smooth (outbound_established_data ep key cid tcp)"
proof -
  have "smooth (forward_in_order cid tcp)"
    unfolding forward_in_order_def
    by (rule smooth_with_state) (auto intro!: smooth_exec smooth_basic)
  then show ?thesis
    unfolding outbound_established_data_def by (auto intro!: smooth_exec smooth_send_ack assms)
qed

section \<open>Which identifiers lead to a connection\<close>

text \<open>No identifier of an older connection leads to the key.\<close>

definition leads_only :: "TcpKey \<Rightarrow> u32 \<Rightarrow> NatTable \<Rightarrow> bool" where
  "leads_only key i t \<longleftrightarrow> (\<forall>j. tcp_by_id t j = Some key \<longrightarrow> j = i)"

interpretation leads_only: table_invariant "leads_only key i" k j for key i k j
proof unfold_locales
  fix t
  assume "leads_only key i t"
  then show "leads_only key i (close_tcp_connection k t)"
    by (auto simp: leads_only_def nat_simps split: option.split if_splits)
qed (auto simp: leads_only_def nat_simps)

lemma keeps_leads_message: "keeps True (on_table (leads_only key i)) (handle_remote_message ep msg)"
proof -
  have pk: "panics_ok True ep k" for k by (simp add: panics_ok_def)
  show ?thesis
    by (cases msg)
       (auto simp: for_key_def remote_udp_response_def split: option.split
         intro!: keeps_intros keeps_dns_response pk leads_only.keeps_connected
           leads_only.keeps_data leads_only.keeps_closed leads_only.keeps_error)
qed

lemma leads_outbound:
  assumes "leads_only key i (nat_table s)" "tcp_key tcp = key \<longrightarrow> \<not> is_syn tcp"
  shows "leads_only key i (nat_table (snd (handle_outbound_tcp ep tcp s)))"
proof (cases "is_syn tcp")
  case True
  with assms show ?thesis
    by (auto simp: handle_outbound_tcp_def is_syn_def Let_def outbound_syn_def split_beta send_remote_def
        leads_only_def nat_simps split: send_result.split if_splits)
next
  case False
  have "keeps True (on_table (leads_only key i)) (outbound_known ep (tcp_key tcp) j tcp)" for j
    by (rule leads_only.keeps_known) (simp add: panics_ok_def)
  then have "keeps True (on_table (leads_only key i)) (handle_outbound_tcp ep tcp)"
    using False by (auto simp: handle_outbound_tcp_def is_syn_def Let_def intro!: keeps_intros split: option.split)
  with assms(1) show ?thesis by (auto simp: on_table_def dest: keepsD)
qed

section \<open>The frame of a session\<close>

lemma write_message_ok_writer:
  assumes "wr_accepts w = None" "\<not> wr_flush_fails w" "write_message enc m w = (r, w')"
  shows "wr_accepts w' = None \<and> \<not> wr_flush_fails w' \<and>
    ((\<exists>d. enc m = Inr d) \<and> r = Inr () \<or> (\<exists>e. r = Inl e) \<and> w' = w)"
  using assms by (auto simp: write_message_def write_all_def flush_def Let_def split: sum.splits)

lemma loop_step_wrote:
  assumes "wr_accepts (lp_writer l) = None" "\<not> wr_flush_fails (lp_writer l)"
  shows "\<exists>sent. wrote enc (lp_writer l) sent (lp_writer (snd (loop_step ep enc ev l))) \<and>
    wr_accepts (lp_writer (snd (loop_step ep enc ev l))) = None \<and>
    \<not> wr_flush_fails (lp_writer (snd (loop_step ep enc ev l)))"
proof (cases "ev = ToRemoteReady")
  case True
  show ?thesis
  proof (cases "chan_recv (to_remote (lp_host l))")
    case None
    with True assms show ?thesis by (auto intro: wrote_Nil)
  next
    case (Some mc)
    obtain r w' where w: "write_message enc (fst mc) (lp_writer l) = (r, w')"
      by (cases "write_message enc (fst mc) (lp_writer l)")
    then have "\<exists>sent. wrote enc (lp_writer l) sent w'"
      using write_message_ok_writer[OF assms w] wrote_snoc[OF wrote_Nil, of enc "fst mc" "lp_writer l" w']
      by (auto intro: wrote_Nil)
    with True Some w write_message_ok_writer[OF assms w] show ?thesis by (auto simp: split_beta)
  qed
next
  case False
  then have "lp_writer (snd (loop_step ep enc ev l)) = lp_writer l"
    by (cases "(ep, enc, ev, l)" rule: loop_step.cases)
       (auto simp: run_handler_simps Let_def split: option.split list.split sum.split prod.split)
  with assms show ?thesis by (auto intro: wrote_Nil)
qed

lemma wrote_append:
  assumes "wrote enc w1 ys w2" "wrote enc w xs w1"
  shows "wrote enc w (xs @ ys) w2"
  using assms by (induction rule: wrote.induct) (auto intro: wrote_snoc simp flip: append_assoc)

lemma loop_run_wrote:
  "wr_accepts (lp_writer l) = None \<Longrightarrow> \<not> wr_flush_fails (lp_writer l) \<Longrightarrow>
   \<exists>sent. wrote enc (lp_writer l) sent (lp_writer (snd (loop_run ep enc evs l))) \<and>
    wr_accepts (lp_writer (snd (loop_run ep enc evs l))) = None \<and>
    \<not> wr_flush_fails (lp_writer (snd (loop_run ep enc evs l)))"
proof (induction evs arbitrary: l)
  case Nil
  then show ?case by (auto intro: wrote_Nil)
next
  case (Cons ev evs)
  obtain sent1 where s1: "wrote enc (lp_writer l) sent1 (lp_writer (snd (loop_step ep enc ev l)))"
    "wr_accepts (lp_writer (snd (loop_step ep enc ev l))) = None"
    "\<not> wr_flush_fails (lp_writer (snd (loop_step ep enc ev l)))"
    using loop_step_wrote[OF Cons.prems] by blast
  from Cons.IH[OF s1(2,3)] s1 show ?case
    by (auto simp: loop_run_step simp del: loop_step.simps dest: wrote_append)
qed

text \<open>
  The frame of a session: nothing is written to SSH unless the first message from the
  remote is \<open>Ready\<close> (any other beginning is the error that names it), and over a writer that
  does not fail everything written is whole frames of messages, of which the last is
  \<open>Shutdown\<close> whenever the loop has ended, for whatever reason.
\<close>

theorem session_frame:
  assumes "run_proxy_loop ep enc from_bytes rd w dns evs = (exit, w')"
    and "wr_accepts w = None" "\<not> wr_flush_fails w" "enc Shutdown = Inr d"
  shows "\<exists>sent. wr_out w' = wr_out w @ stream enc sent \<and>
    (exit = Returned \<longrightarrow> sent \<noteq> [] \<and> last sent = Shutdown) \<and>
    (fst (read_message from_bytes rd) \<noteq> Inr (Some Ready) \<longrightarrow> w' = w \<and>
      exit = (case fst (read_message from_bytes rd) of Inl e \<Rightarrow> ReadyError e
        | Inr None \<Rightarrow> DisconnectedBeforeReady | Inr (Some m) \<Rightarrow> UnexpectedMessage m))"
proof (cases "fst (read_message from_bytes rd) = Inr (Some Ready)")
  case False
  then have "w' = w \<and> exit = (case fst (read_message from_bytes rd) of Inl e \<Rightarrow> ReadyError e
        | Inr None \<Rightarrow> DisconnectedBeforeReady | Inr (Some m) \<Rightarrow> UnexpectedMessage m)"
    using assms(1) by (auto simp: run_proxy_loop_def split: prod.splits sum.splits option.splits RemoteMessage.splits)
  then show ?thesis
    by (intro exI[of _ "[]"]) (auto simp: stream_def split: sum.split option.split)
next
  case True
  then obtain rd' where rd: "read_message from_bytes rd = (Inr (Some Ready), rd')"
    by (cases "read_message from_bytes rd") auto
  let ?l = "\<lparr>lp_host = initial_host dns, lp_incoming = read_loop from_bytes rd', lp_writer = w, lp_tun = []\<rparr>"
  obtain r l where run: "loop_run ep enc evs ?l = (r, l)" by (cases "loop_run ep enc evs ?l")
  obtain sent where sent: "wrote enc w sent (lp_writer l)" "wr_accepts (lp_writer l) = None"
    "\<not> wr_flush_fails (lp_writer l)"
    using loop_run_wrote[of ?l enc ep evs] assms(2,3) run by auto
  show ?thesis
  proof (cases "r = Break")
    case True
    obtain q w2 where w2: "write_message enc Shutdown (lp_writer l) = (q, w2)"
      by (cases "write_message enc Shutdown (lp_writer l)")
    then have "q = Inr ()"
      using assms(4) sent(2,3)
      by (simp add: write_message_def write_all_def flush_def Let_def)
    with wrote_snoc[OF sent(1)] w2 have "wrote enc w (sent @ [Shutdown]) w2" by simp
    from wrote_stream[OF this] show ?thesis
      using True rd run w2 assms(1) by (intro exI[of _ "sent @ [Shutdown]"]) (auto simp: run_proxy_loop_def)
  next
    case False
    with rd run assms(1) have "w' = lp_writer l \<and> exit \<noteq> Returned"
      by (cases r) (auto simp: run_proxy_loop_def)
    with wrote_stream[OF sent(1)] True show ?thesis by blast
  qed
qed

theorem session_frame_witness:
  "\<exists>w'. run_proxy_loop rfc_etherparse host_to_allocvec remote_from_bytes
      \<lparr>rd_bytes = frame [6], rd_end = None\<rparr>
      \<lparr>wr_out = [], wr_accepts = None, wr_error = UnexpectedEof, wr_flush_fails = False\<rparr> None [CtrlC]
      = (Returned, w') \<and> (\<exists>sent. wr_out w' = stream host_to_allocvec sent \<and> last sent = Shutdown)"
proof -
  let ?rd = "\<lparr>rd_bytes = frame [6], rd_end = None\<rparr>"
  let ?w = "\<lparr>wr_out = [], wr_accepts = None, wr_error = UnexpectedEof, wr_flush_fails = False\<rparr>"
  have ready: "remote_from_bytes [6] = Inr Ready" by code_simp
  have shut: "host_to_allocvec Shutdown = Inr [5]"
    by (simp add: host_to_allocvec_def enc_varint.simps)
  have "fst (read_message remote_from_bytes ?rd) = Inr (Some Ready)"
    using read_message_frame[of ?rd "[6]" "[]" remote_from_bytes] ready by simp
  then obtain w' where run: "run_proxy_loop rfc_etherparse host_to_allocvec remote_from_bytes ?rd ?w None [CtrlC]
      = (Returned, w')"
    by (cases "read_message remote_from_bytes ?rd") (auto simp: run_proxy_loop_def loop_run_step)
  from session_frame[OF run _ _ shut] run show ?thesis by auto
qed

section \<open>What a reader makes of it\<close>

text \<open>
  From any beginning of a stream of frames, the reader delivers a beginning of the messages and
  then the result that ends it: the end, an error, or an oversized frame.
\<close>

context message_codec
begin

lemma read_loop_beginning:
  assumes "encodes to_allocvec ms ds" "\<And>d. d \<in> set ds \<Longrightarrow> length d < 2 ^ 64"
    and "rd_bytes r = take n (concat (map frame ds))"
  shows "\<exists>k last. read_loop from_bytes r = map (Inr \<circ> Some) (take k ms) @ [last] \<and> (\<forall>m. last \<noteq> Inr (Some m)) \<and>
    (length (concat (map frame ds)) \<le> n \<and> last = Inr None \<longrightarrow> length ms \<le> k)"
  using assms
proof (induction ms arbitrary: ds n r)
  case Nil
  then have "read_message from_bytes r = (Inl (Io e), r') \<or> read_message from_bytes r = (Inr None, r')"
    if "read_exact 8 r = (Inl e, r')" for e r'
    using that by (auto simp: read_message_def)
  moreover have "\<exists>e r'. read_exact 8 r = (Inl e, r')"
    using Nil by (auto simp: encodes_def read_exact_def)
  ultimately obtain r' where "read_message from_bytes r = (Inr None, r') \<or> (\<exists>e. read_message from_bytes r = (Inl (Io e), r'))"
    by blast
  then show ?case
    by (intro exI[of _ 0]) (auto simp: read_loop.simps[of from_bytes r])
next
  case (Cons m ms)
  then obtain d ds' where ds: "ds = d # ds'" and d: "to_allocvec m = Inr d"
    and ds': "encodes to_allocvec ms ds'"
    by (auto simp: encodes_def list_all2_Cons1)
  have len: "length d < 2 ^ 64" using Cons.prems(2) ds by simp
  show ?case
  proof (cases "length (frame d) \<le> n \<and> length d \<le> max_message")
    case True
    let ?n = "n - length (frame d)" and ?r = "r\<lparr>rd_bytes := take (n - length (frame d)) (concat (map frame ds'))\<rparr>"
    have "rd_bytes r = frame d @ take ?n (concat (map frame ds'))"
      using Cons.prems(3) True by (simp add: ds)
    from read_message_frame[OF this, of from_bytes] True codec[OF d]
    have "read_loop from_bytes r = Inr (Some m) # read_loop from_bytes ?r"
      by (simp add: read_loop.simps[of from_bytes r])
    moreover obtain k last where "read_loop from_bytes ?r = map (Inr \<circ> Some) (take k ms) @ [last]"
      "\<forall>m. last \<noteq> Inr (Some m)" "length (concat (map frame ds')) \<le> ?n \<and> last = Inr None \<longrightarrow> length ms \<le> k"
      using Cons.IH[OF ds', of ?r ?n] Cons.prems(2) ds by (auto simp: comp_def)
    ultimately show ?thesis using True by (intro exI[of _ "Suc k"] exI[of _ last]) (auto simp: ds)
  next
    case False
    have "\<exists>last. fst (read_message from_bytes r) = last \<and> (\<forall>m. last \<noteq> Inr (Some m)) \<and>
        (length (concat (map frame ds)) \<le> n \<longrightarrow> last \<noteq> Inr None)"
    proof (cases "length (frame d) \<le> n")
      case True
      have "rd_bytes r = frame d @ take (n - length (frame d)) (concat (map frame ds'))"
        using Cons.prems(3) True by (simp add: ds)
      from read_message_frame_too_large[OF this _ len, of from_bytes] True False show ?thesis by simp
    next
      case False
      then have r: "rd_bytes r = take n (frame d)" using Cons.prems(3) by (simp add: ds)
      have "\<not> length (concat (map frame ds)) \<le> n" using False by (simp add: ds)
      with r show ?thesis
        using False unat_u64[OF len]
        by (auto simp: read_message_def read_exact_def frame_def Let_def from_be_to_be_word min_def)
    qed
    then obtain last where "fst (read_message from_bytes r) = last" "\<forall>m. last \<noteq> Inr (Some m)"
      "length (concat (map frame ds)) \<le> n \<longrightarrow> last \<noteq> Inr None" by blast
    then have "read_loop from_bytes r = [last]"
      by (cases "read_message from_bytes r") (auto simp: read_loop.simps[of from_bytes r] split: sum.split option.split)
    with \<open>\<forall>m. last \<noteq> _\<close> \<open>_ \<longrightarrow> last \<noteq> _\<close> show ?thesis by (intro exI[of _ 0]) auto
  qed
qed

end

lemma wrote_beginning:
  assumes "message_codec enc dec" "wrote enc w ms w'" "rd_bytes r = take n (drop (length (wr_out w)) (wr_out w'))"
    and "length (wr_out w') < 2 ^ 64"
  shows "\<exists>k last. read_loop dec r = map (Inr \<circ> Some) (take k ms) @ [last] \<and> (\<forall>m. last \<noteq> Inr (Some m)) \<and>
    (length (wr_out w') \<le> length (wr_out w) + n \<and> last = Inr None \<longrightarrow> length ms \<le> k)"
proof -
  obtain ds where ds: "encodes enc ms ds" "wr_out w' = wr_out w @ concat (map frame ds)"
    using wrote_frames[OF assms(2)] by blast
  have "length d < 2 ^ 64" if d: "d \<in> set ds" for d
  proof -
    have "length d \<le> length (frame d)" by (simp add: frame_def)
    also have "\<dots> \<le> length (concat (map frame ds))"
      using d by (simp add: length_concat member_le_sum_list)
    finally show ?thesis using ds(2) assms(4) by simp
  qed
  then show ?thesis
    using message_codec.read_loop_beginning[OF assms(1) ds(1)] assms(3) ds(2) by simp
qed

section \<open>An example\<close>

text \<open>The example connection's packet with the two bytes 1 and 2 from offset 0, as captured.\<close>

definition example_packet :: bytes where
  "example_packet = [0x45, 0, 0, 42, 0, 0, 0x40, 0, 64, 6, 0, 0, 10, 0, 0, 1, 8, 8, 8, 8,
     0x9C, 0x40, 0, 80, 0, 0, 0, 8, 0, 0, 3, 0xE9, 0x50, 0x10, 0xFF, 0xFF, 0, 0, 0, 0, 1, 2]"

lemma example_packet_parses:
  "parse_ip_packet rfc_etherparse (take 65536 example_packet) = Ok (Tcp (example_segment [1, 2] 0 2))"
proof -
  have "take 65536 example_packet = example_packet" by (rule take_all) (simp add: example_packet_def)
  moreover have "parse_ip_packet rfc_etherparse example_packet = Ok (Tcp (example_segment [1, 2] 0 2))"
    by (simp add: example_packet_def example_segment_def no_flags_def parse_ip_packet_def parse_ipv4_packet_def
        parse_transport_def byte_slice_def rfc_ipv4_from_slice_def rfc_tcp_from_slice_def Let_def
        u16_at_def u32_at_def from_be_def be_nat_Cons)
  ultimately show ?thesis by simp
qed

lemma host_data_fits:
  assumes "length d \<le> 65535"
  shows "all_fit host_to_allocvec [HostMessage.TcpData i d]"
proof -
  have "unat i < 128 ^ 5" using unsigned_less[of i, where ?'a = nat] by simp
  then have "length (enc_varint (unat i)) \<le> 5" by (rule length_enc_varint) simp
  moreover have "length (enc_varint (length d)) \<le> 5"
    using assms by (intro length_enc_varint) simp_all
  moreover have "length (enc_varint 1) \<le> 1" by (rule length_enc_varint) simp_all
  ultimately have "length (enc_host (HostMessage.TcpData i d)) \<le> max_message"
    using assms by (simp add: e_uint_def e_bytes_def)
  with assms show ?thesis by (simp add: all_fit_def host_to_allocvec_def)
qed

definition example_loop :: Loop where
  "example_loop = \<lparr>lp_host = example_host Established, lp_incoming = [],
     lp_writer = \<lparr>wr_out = [], wr_accepts = None, wr_error = UnexpectedEof, wr_flush_fails = False\<rparr>, lp_tun = []\<rparr>"

end
