(* ===== verification/Host_Upload.thy ===== *)
theory Host_Upload
  imports Host_Frame
begin

text \<open>
  An upload through the whole loop: the application's segments of one connection, read from the
  TUN device between packets, messages and queries of any other connection, the SSH byte stream
  that comes out, and what the remote's reader task decodes from it.
\<close>

section \<open>What is queued for the remote\<close>

text \<open>The data of one connection in the channel to the remote, and the statements that leave it alone.\<close>

definition feeds :: "u32 \<Rightarrow> bytes \<Rightarrow> Host \<Rightarrow> bool" where
  "feeds i bs s \<longleftrightarrow> forwarded i (ch_queue (to_remote s)) = bs"

lemma feeds_basic:
  "keeps True (feeds i bs) (upd_nat f)" "keeps True (feeds i bs) (send_tun pkt)"
  "forwarded i [m] = [] \<Longrightarrow> keeps True (feeds i bs) (send_remote m)"
  by (auto simp: keeps_def feeds_def upd_nat_def send_tun_def send_remote_def chan_send_def)

lemma feeds_built: "(\<And>pkt. keeps True (feeds i bs) (k pkt)) \<Longrightarrow> keeps True (feeds i bs) (with_built b k)"
  by (auto simp: keeps_def with_built_def split: outcome.split)

lemmas feeds_intros = feeds_basic feeds_built keeps_exec_Nil keeps_exec_Cons keeps_with_state keeps_if

lemma feeds_known:
  assumes "j \<noteq> i"
  shows "keeps True (feeds i bs) (outbound_known ep key j tcp)"
proof -
  have msg: "forwarded i [HostMessage.TcpData j d] = []" "forwarded i [TcpClose j] = []" for d
    using assms by simp_all
  have ack: "keeps True (feeds i bs) (send_ack ep key j)"
    unfolding send_ack_def by (intro feeds_intros)
  have "keeps True (feeds i bs) (outbound_established ep key j tcp)"
    unfolding outbound_established_def outbound_established_fin_def outbound_established_data_def forward_in_order_def
    by (intro feeds_intros ack msg)
  moreover have "keeps True (feeds i bs) (outbound_close_wait ep key j tcp)"
    unfolding outbound_close_wait_def by (intro feeds_intros ack)
  ultimately show ?thesis
    unfolding outbound_known_def
    by (auto intro!: feeds_intros msg split: option.split ConnectionState.split)
qed

lemma feeds_outbound:
  assumes wf: "nat_wf n (nat_table s)" and entry: "tcp_by_key (nat_table s) key = Some c"
    and other: "tcp_key tcp \<noteq> key" and q: "feeds (conn_id c) bs s"
  shows "feeds (conn_id c) bs (snd (handle_outbound_tcp ep tcp s))"
proof (cases "is_syn tcp")
  case True
  have syn: "keeps True (feeds (conn_id c) bs) (send_remote (TcpConnect j a p))" for j a p
    by (rule feeds_basic) simp
  have "feeds (conn_id c) bs (s\<lparr>nat_table := t\<rparr>)" for t using q by (simp add: feeds_def)
  from keepsD[OF syn this] True show ?thesis
    by (simp add: handle_outbound_tcp_def is_syn_def Let_def outbound_syn_def split_beta)
next
  case False
  show ?thesis
  proof (cases "tcp_by_key (nat_table s) (tcp_key tcp)")
    case None
    with False q show ?thesis
      by (auto simp: handle_outbound_tcp_def is_syn_def Let_def with_state_def get_tcp_connection_id_def)
  next
    case (Some c')
    have "conn_id c' \<noteq> conn_id c"
      using nat_wf_link[OF wf Some] nat_wf_link[OF wf entry] other by auto
    from keepsD[OF feeds_known[OF this] q] Some False show ?thesis
      by (auto simp: handle_outbound_tcp_def is_syn_def Let_def with_state_def get_tcp_connection_id_def)
  qed
qed

lemma feeds_chunks: "keeps True (feeds i bs) (exec (chunk_stmts ep key j len off cs))"
  by (induction cs arbitrary: off) (auto simp: send_chunk_def intro!: feeds_intros)

lemma feeds_message: "keeps True (feeds i bs) (handle_remote_message ep msg)"
proof -
  have fin: "keeps True (feeds i bs) (send_fin ep key j st)" for key j st
    unfolding send_fin_def by (intro feeds_intros)
  have "keeps True (feeds i bs) (remote_dns_response j d)" for j d
    by (auto simp: keeps_def feeds_def remote_dns_response_def split: option.split)
  then show ?thesis
    by (cases msg)
       (auto simp: for_key_def remote_tcp_connected_def remote_tcp_data_def remote_tcp_closed_def
          remote_tcp_error_def remote_udp_response_def
         intro!: feeds_intros feeds_chunks fin split: option.split ConnectionState.split)
qed

section \<open>The entry of the connection\<close>

text \<open>The established connection \<open>i\<close>, which expects the sequence number \<open>ak\<close> next.\<close>

definition accepts :: "TcpKey \<Rightarrow> u32 \<Rightarrow> u32 \<Rightarrow> NatTable \<Rightarrow> bool" where
  "accepts key i ak t \<longleftrightarrow>
     (\<exists>c. tcp_by_key t key = Some c \<and> conn_id c = i \<and> conn_state c = Established \<and> conn_ack c = ak)"

lemma accepts_receiving:
  assumes "nat_wf m (nat_table s)" "accepts key i (isn + 1 + word_of_nat n) (nat_table s)"
  obtains c where "receiving key c isn n s" "conn_id c = i"
proof -
  obtain c where "tcp_by_key (nat_table s) key = Some c" "conn_id c = i" "conn_state c = Established"
    "conn_ack c = isn + 1 + word_of_nat n"
    using assms(2) by (auto simp: accepts_def)
  with nat_wf_link[OF assms(1), of key c] that[of c] show thesis
    by (simp add: receiving_def)
qed

lemma receiving_accepts: "receiving key c isn n s \<Longrightarrow> accepts key (conn_id c) (isn + 1 + word_of_nat n) (nat_table s)"
  by (auto simp: receiving_def accepts_def)

text \<open>Data from the remote moves only the sequence number.\<close>

lemma accepts_advance: "accepts key i ak t \<Longrightarrow> accepts key i ak (advance_tcp_seq j n t)"
  by (cases "tcp_by_id t j") (auto simp: accepts_def nat_simps)

lemma accepts_data: "keeps True (on_table (accepts key i ak)) (handle_remote_message ep (RemoteMessage.TcpData j d))"
proof -
  have "keeps True (on_table (accepts key i ak)) (exec (chunk_stmts ep k j len off cs))" for k len off cs
    by (induction cs arbitrary: off)
       (auto simp: send_chunk_def intro!: keeps_intros accepts_advance)
  then show ?thesis
    by (auto simp: for_key_def remote_tcp_data_def intro!: keeps_intros split: option.split)
qed

section \<open>A run of the loop that uploads\<close>

fun packet_of :: "etherparse \<Rightarrow> TcpKey \<Rightarrow> loop_event \<Rightarrow> bool" where
  "packet_of ep key (TunRead clock (Inr data)) \<longleftrightarrow>
     (case parse_ip_packet ep (take 65536 data) of Ok (Tcp tcp) \<Rightarrow> tcp_key tcp = key | _ \<Rightarrow> False)"
| "packet_of ep key _ \<longleftrightarrow> False"

text \<open>
  \<open>upload ep S isn key evs xs\<close>: among the events, which may be any, the packets of this
  connection are data segments that carry the pieces \<open>xs\<close> of the stream \<open>S\<close>.
\<close>

inductive upload ::
  "etherparse \<Rightarrow> bytes \<Rightarrow> u32 \<Rightarrow> TcpKey \<Rightarrow> loop_event list \<Rightarrow> (nat \<times> nat) list \<Rightarrow> bool"
  for ep S isn key
where
  upload_Nil: "upload ep S isn key [] []"
| upload_packet: "parse_ip_packet ep (take 65536 data) = Ok (Tcp tcp) \<Longrightarrow> carries S isn key tcp x \<Longrightarrow>
    upload ep S isn key evs xs \<Longrightarrow> upload ep S isn key (TunRead clock (Inr data) # evs) (x # xs)"
| upload_other: "\<not> packet_of ep key ev \<Longrightarrow>
    upload ep S isn key evs xs \<Longrightarrow> upload ep S isn key (ev # evs) xs"

text \<open>
  The state of an upload: \<open>n\<close> bytes of the stream are received, and what was written to SSH since
  \<open>w\<close> and what is still queued hold exactly these bytes for this connection.
\<close>

definition uploaded ::
  "(HostMessage \<Rightarrow> string + bytes) \<Rightarrow> writer \<Rightarrow> bytes \<Rightarrow> u32 \<Rightarrow> TcpKey \<Rightarrow> u32 \<Rightarrow>
   nat \<Rightarrow> nat \<Rightarrow> HostMessage list \<Rightarrow> Loop \<Rightarrow> bool"
where
  "uploaded enc w S isn key i m n sent l \<longleftrightarrow>
     host_wf m (lp_host l) \<and> opened (lp_host l) \<and> leads_only key i (nat_table (lp_host l)) \<and>
     accepts key i (isn + 1 + word_of_nat n) (nat_table (lp_host l)) \<and> n \<le> length S \<and>
     wrote enc w sent (lp_writer l) \<and> forwarded i (sent @ ch_queue (to_remote (lp_host l))) = take n S"

text \<open>A step that changes only the host, and neither the entry nor what is queued of this connection.\<close>

lemma uploaded_host:
  assumes "uploaded enc w S isn key i m n sent l" "lp_writer l' = lp_writer l" "host_wf m' (lp_host l')"
    and "opened (lp_host l')" "leads_only key i (nat_table (lp_host l'))"
    and "accepts key i (isn + 1 + word_of_nat n) (nat_table (lp_host l'))"
    and "feeds i (forwarded i (ch_queue (to_remote (lp_host l)))) (lp_host l')"
  shows "uploaded enc w S isn key i m' n sent l'"
  using assms by (simp add: uploaded_def feeds_def)

lemma uploaded_own:
  assumes up: "uploaded enc w S isn key i m n sent l" and laws: "etherparse_laws ep" and S: "length S < 2 ^ 32"
    and m: "m < 2 ^ 32" and parse: "parse_ip_packet ep (take 65536 data) = Ok (Tcp tcp)"
    and seg: "carries S isn key tcp x"
    and step: "loop_step ep enc (TunRead clock (Inr data)) l = (r, l')" "r \<in> {Continue, NotReady}"
  shows "uploaded enc w S isn key i m (expect n x) sent l'"
proof -
  obtain off len where x: "x = (off, len)" by (cases x)
  have st: "host_wf m (lp_host l)" "opened (lp_host l)" "n \<le> length S"
    "leads_only key i (nat_table (lp_host l))"
    using up by (simp_all add: uploaded_def)
  have flags: "\<not> is_syn tcp" "\<not> fin (tcp_flags tcp)" "\<not> rst (tcp_flags tcp)" and key: "tcp_key tcp = key"
    using seg by (simp_all add: x is_syn_def)
  have fam: "key_family key" using parsed_tcp_family[OF parse] key by simp
  obtain c where c: "receiving key c isn n (lp_host l)" "conn_id c = i"
    using accepts_receiving[of m "lp_host l" key i isn n] up by (auto simp: uploaded_def on_table_def)
  obtain q h where h: "handle_outbound_tcp ep tcp (lp_host l) = (q, h)"
    by (cases "handle_outbound_tcp ep tcp (lp_host l)")
  have l': "l' = l\<lparr>lp_host := h\<rparr>" and r: "r = after_handler q"
    using step(1) parse h by (auto simp: run_handler_def handle_tun_packet_def)
  have "smooth (outbound_established ep key i tcp)"
    using smooth_data[OF laws fam] flags(2) by (auto simp: outbound_established_def intro: smooth_exec)
  moreover have "handle_outbound_tcp ep tcp (lp_host l) = outbound_established ep key i tcp (lp_host l)"
    using c outbound_known_run[OF key _ flags(1,3), of "lp_host l" _ ep] by (auto simp: receiving_def)
  ultimately have q: "q \<in> {Done, Blocked}" "opened h"
    using st(2) h unfolding smooth_def by (metis fst_conv, metis snd_conv)
  then have "q = Done" using step(2) r by auto
  with h have run: "handle_outbound_tcp ep tcp (lp_host l) = (Done, h)" by simp
  note bounds = expect_bounds[OF seg st(3)]
  obtain msgs where d: "receiving key c isn (expect n x) h"
    "ch_queue (to_remote h) = ch_queue (to_remote (lp_host l)) @ msgs"
    "forwarded i msgs = drop n (take (expect n x) S)"
    using data_step_Done[OF c(1) st(3) S seg[unfolded x] run] x c(2) by blast
  have "take n S @ drop n (take (expect n x) S) = take (expect n x) S"
    using drop_take_join[of 0 n "expect n x" S] bounds by simp
  moreover have "host_wf m h"
    using outbound_tcp_safe[OF laws st(1) m, of tcp] fam key flags(1) run by simp
  moreover have "leads_only key i (nat_table h)"
    using leads_outbound[OF st(4), of tcp ep] flags(1) run by simp
  ultimately show ?thesis
    using up d q(2) bounds receiving_accepts[OF d(1)] c(2)
    by (auto simp: uploaded_def l' simp flip: append_assoc)
qed

lemma uploaded_packet:
  assumes up: "uploaded enc w S isn key i m n sent l" and laws: "etherparse_laws ep" and m: "m < 2 ^ 32"
    and other: "\<not> packet_of ep key (TunRead clock (Inr data))"
  shows "uploaded enc w S isn key i (if opens ep (take 65536 data) then Suc m else m) n sent
    (l\<lparr>lp_host := snd (handle_tun_packet ep clock (take 65536 data) (lp_host l))\<rparr>)"
proof (rule uploaded_host[OF up])
  let ?h = "lp_host l" and ?d = "take 65536 data"
  let ?q = "forwarded i (ch_queue (to_remote ?h))" and ?ak = "isn + 1 + word_of_nat n"
  let ?l = "l\<lparr>lp_host := snd (handle_tun_packet ep clock ?d ?h)\<rparr>"
  have st: "host_wf m ?h" "opened ?h" "leads_only key i (nat_table ?h)" "accepts key i ?ak (nat_table ?h)"
    using up by (simp_all add: uploaded_def)
  have wf: "nat_wf m (nat_table ?h)" using st(1) by (simp add: on_table_def)
  obtain c where c: "tcp_by_key (nat_table ?h) key = Some c" "conn_id c = i"
    using st(4) by (auto simp: accepts_def)
  have q: "feeds (conn_id c) ?q ?h" by (simp add: feeds_def c(2))
  show "host_wf (if opens ep ?d then Suc m else m) (lp_host ?l)"
    using tun_packet_safe_step[OF laws st(1) m, of ?d clock] by simp
  show "opened (lp_host ?l)" using opened.any_packet[OF st(2)] by simp
  have "leads_only key i (nat_table (snd (handle_tun_packet ep clock ?d ?h))) \<and>
      accepts key i ?ak (nat_table (snd (handle_tun_packet ep clock ?d ?h))) \<and>
      feeds i ?q (snd (handle_tun_packet ep clock ?d ?h))"
  proof (cases "parse_ip_packet ep ?d")
    case (Ok pkt)
    show ?thesis
    proof (cases pkt)
      case (Tcp tcp)
      with Ok other have k: "tcp_key tcp \<noteq> key" by simp
      with st(4) have "accepts key i ?ak (nat_table (snd (handle_outbound_tcp ep tcp ?h)))"
        using other_keys_outbound[OF wf, of key tcp ep] by (simp add: accepts_def)
      with Ok Tcp k feeds_outbound[OF wf c(1) k q, of ep] leads_outbound[OF st(3), of tcp ep] c(2) show ?thesis
        by (simp add: handle_tun_packet_def)
    next
      case (Udp udp)
      have "keeps True (on_table (\<lambda>t. tcp_by_key t = a \<and> tcp_by_id t = f)) (handle_outbound_udp clock udp)" for a f
        unfolding handle_outbound_udp_def
        by (intro keeps_intros) (simp add: track_udp_def cleanup_udp_mappings_def Let_def)
      from keepsD[OF this, of "tcp_by_key (nat_table ?h)" "tcp_by_id (nat_table ?h)" ?h]
      have "leads_only key i (nat_table (snd (handle_outbound_udp clock udp ?h)))"
        "accepts key i ?ak (nat_table (snd (handle_outbound_udp clock udp ?h)))"
        using st(3,4) by (simp_all add: on_table_def accepts_def leads_only_def)
      moreover have "keeps True (feeds i ?q) (handle_outbound_udp clock udp)"
        unfolding handle_outbound_udp_def by (intro feeds_intros) simp
      from keepsD[OF this] q c(2) have "feeds i ?q (snd (handle_outbound_udp clock udp ?h))" by simp
      ultimately show ?thesis using Ok Udp by (simp add: handle_tun_packet_def)
    qed (use Ok st q c(2) in \<open>simp add: handle_tun_packet_def\<close>)
  qed (use st q c(2) in \<open>simp_all add: handle_tun_packet_def\<close>)
  then show "leads_only key i (nat_table (lp_host ?l))" "accepts key i ?ak (nat_table (lp_host ?l))"
    "feeds i ?q (lp_host ?l)" by simp_all
qed simp

lemma uploaded_message:
  assumes up: "uploaded enc w S isn key i m n sent l"
    and data: "message_id msg = Some i \<Longrightarrow> \<exists>d. msg = RemoteMessage.TcpData i d"
  shows "uploaded enc w S isn key i m n sent
    (l\<lparr>lp_host := snd (handle_remote_message ep msg (lp_host l)), lp_incoming := rest\<rparr>)"
proof (rule uploaded_host[OF up])
  let ?h = "lp_host l" and ?ak = "isn + 1 + word_of_nat n"
  let ?l = "l\<lparr>lp_host := snd (handle_remote_message ep msg ?h), lp_incoming := rest\<rparr>"
  have st: "host_wf m ?h" "opened ?h" "leads_only key i (nat_table ?h)" "accepts key i ?ak (nat_table ?h)"
    using up by (simp_all add: uploaded_def)
  show "host_wf m (lp_host ?l)" using keepsD[OF keeps_remote_message[of True] st(1)] by simp
  show "opened (lp_host ?l)" using opened.any_message[OF st(2)] by simp
  show "leads_only key i (nat_table (lp_host ?l))"
    using keepsD[OF keeps_leads_message, of key i ?h ep msg] st(3) by (simp add: on_table_def)
  show "feeds i (forwarded i (ch_queue (to_remote ?h))) (lp_host ?l)"
    using keepsD[OF feeds_message, of i _ ?h ep msg] by (simp add: feeds_def)
  show "accepts key i ?ak (nat_table (lp_host ?l))"
  proof (cases "message_id msg = Some i")
    case True
    with data obtain d where "msg = RemoteMessage.TcpData i d" by blast
    with keepsD[OF accepts_data, of key i ?ak ?h ep i d] st(4) show ?thesis by (simp add: on_table_def)
  next
    case False
    then have "tcp_by_key (nat_table (snd (handle_remote_message ep msg ?h))) key = tcp_by_key (nat_table ?h) key"
      using st(3) by (intro other_keys_remote) (auto simp: leads_only_def)
    with st(4) show ?thesis by (simp add: accepts_def)
  qed
qed simp

lemma uploaded_send:
  assumes "uploaded enc w S isn key i m n sent l"
    and "loop_step ep enc ToRemoteReady l = (r, l')" "r \<in> {Continue, NotReady}"
  shows "\<exists>sent'. uploaded enc w S isn key i m n sent' l'"
proof (cases "ch_queue (to_remote (lp_host l))")
  case Nil
  with assms show ?thesis by (auto simp: chan_recv_def)
next
  case (Cons msg ms)
  with assms(2,3) obtain w' where "write_message enc msg (lp_writer l) = (Inr (), w')"
    "l' = l\<lparr>lp_host := (lp_host l)\<lparr>to_remote := (to_remote (lp_host l))\<lparr>ch_queue := ms\<rparr>\<rparr>, lp_writer := w'\<rparr>"
    by (auto simp: chan_recv_def split: prod.splits sum.splits)
  with assms(1) Cons show ?thesis
    by (intro exI[of _ "sent @ [msg]"]) (auto simp: uploaded_def on_table_def opened_def intro: wrote_snoc)
qed

lemma uploaded_step:
  assumes up: "uploaded enc w S isn key i m n sent l" and laws: "etherparse_laws ep" and m: "m < 2 ^ 32"
    and other: "\<not> packet_of ep key ev"
    and step: "loop_step ep enc ev l = (r, l')" "r \<in> {Continue, NotReady}"
    and got: "lp_incoming l = got @ lp_incoming l'"
    and data: "\<And>msg. Inr (Some msg) \<in> set got \<Longrightarrow> message_id msg = Some i \<Longrightarrow>
      \<exists>d. msg = RemoteMessage.TcpData i d"
  shows "\<exists>sent'. uploaded enc w S isn key i (if opens_event ep ev then Suc m else m) n sent' l'"
proof (cases "(ep, enc, ev, l)" rule: loop_step.cases)
  case (1 ep' enc' clock data l1)
  then have ev: "ev = TunRead clock (Inr data)" by simp
  then have "l' = l\<lparr>lp_host := snd (handle_tun_packet ep clock (take 65536 data) (lp_host l))\<rparr>"
    using step(1) by (auto simp: run_handler_def split: prod.splits)
  with uploaded_packet[OF up laws m other[unfolded ev]] ev show ?thesis by auto
next
  case (3 ep' enc' l1)
  then have ev: "ev = RemoteRecv" by simp
  then obtain msg rest where inc: "lp_incoming l = Inr (Some msg) # rest"
    using step by (auto split: list.splits sum.splits option.splits)
  with step(1) ev have l': "l' = l\<lparr>lp_host := snd (handle_remote_message ep msg (lp_host l)), lp_incoming := rest\<rparr>"
    by (auto simp: run_handler_def split: prod.splits)
  with got inc have "got = [Inr (Some msg)]" by simp
  with uploaded_message[OF up, where msg = msg and ep = ep and rest = rest] data[of msg] ev l' show ?thesis by auto
next
  case (4 ep' enc' l1)
  then have "ev = ToRemoteReady" by simp
  with uploaded_send[OF up] step show ?thesis by (simp del: loop_step.simps)
next
  case (5 ep' enc' failure l1)
  with step up show ?thesis
    by (intro exI[of _ sent])
       (auto simp: uploaded_def opened_def on_table_def chan_recv_def Let_def split: option.splits list.splits)
next
  case (6 ep' enc' result l1)
  with step up show ?thesis
    by (intro exI[of _ sent])
       (auto simp: uploaded_def opened_def on_table_def handle_query_def register_query_def chan_send_def Let_def
        split: option.splits prod.splits sum.splits send_result.splits if_splits)
next
  case (8 ep' enc' l1)
  with step up show ?thesis by (intro exI[of _ sent]) (auto split: if_splits)
qed (use step in auto)

lemma uploaded_run:
  assumes "upload ep S isn key evs xs" and laws: "etherparse_laws ep" and S: "length S < 2 ^ 32"
  shows "uploaded enc w S isn key i m n sent l \<Longrightarrow> m + length (filter (opens_event ep) evs) < 2 ^ 32 \<Longrightarrow>
    loop_run ep enc evs l = (Continue, l') \<Longrightarrow> lp_incoming l = got @ lp_incoming l' \<Longrightarrow>
    (\<And>msg. Inr (Some msg) \<in> set got \<Longrightarrow> message_id msg = Some i \<Longrightarrow> \<exists>d. msg = RemoteMessage.TcpData i d) \<Longrightarrow>
    \<exists>m' sent'. uploaded enc w S isn key i m' (foldl expect n xs) sent' l'"
  using assms(1)
proof (induction evs xs arbitrary: m n sent l got rule: upload.induct)
  case upload_Nil
  then show ?case by auto
next
  case (upload_packet data tcp x evs xs clock)
  obtain r l1 where step: "loop_step ep enc (TunRead clock (Inr data)) l = (r, l1)"
    by (cases "loop_step ep enc (TunRead clock (Inr data)) l")
  with upload_packet.prems(3) have run: "r \<in> {Continue, NotReady}" "loop_run ep enc evs l1 = (Continue, l')"
    by (auto simp: loop_run_step simp del: loop_step.simps split: if_splits)
  have "m < 2 ^ 32" "m + length (filter (opens_event ep) evs) < 2 ^ 32"
    using upload_packet.prems(2) by (auto split: if_splits)
  note rest = uploaded_own[OF upload_packet.prems(1) laws S this(1) upload_packet.hyps(1,2) step run(1)] this(2)
  have "lp_incoming l1 = lp_incoming l"
    using step by (auto simp: run_handler_def split: prod.splits)
  with upload_packet.IH[OF rest run(2), where got = got] upload_packet.prems(4,5) show ?case by simp
next
  case (upload_other ev evs xs)
  obtain r l1 where step: "loop_step ep enc ev l = (r, l1)" by (cases "loop_step ep enc ev l")
  with upload_other.prems(3) have run: "r \<in> {Continue, NotReady}" "loop_run ep enc evs l1 = (Continue, l')"
    by (auto simp: loop_run_step simp del: loop_step.simps split: if_splits)
  obtain got1 got2 where g: "lp_incoming l = got1 @ lp_incoming l1" "lp_incoming l1 = got2 @ lp_incoming l'"
    using loop_step_incoming[of l ep enc ev] loop_run_incoming[of l1 ep enc evs] step run(2) by auto
  then have got: "got = got1 @ got2" using upload_other.prems(4) by simp
  let ?m = "if opens_event ep ev then Suc m else m"
  have m: "m < 2 ^ 32" "?m + length (filter (opens_event ep) evs) < 2 ^ 32"
    using upload_other.prems(2) by (auto split: if_splits)
  obtain sent1 where "uploaded enc w S isn key i ?m n sent1 l1"
    using uploaded_step[OF upload_other.prems(1) laws m(1) upload_other.hyps(1) step run(1) g(1)]
      upload_other.prems(5) got by auto
  from upload_other.IH[OF this m(2) run(2) g(2)] upload_other.prems(5) got show ?case by auto
qed

section \<open>Property: an upload\<close>

lemma upload_arrives:
  assumes "etherparse_laws ep" "message_codec enc dec" "host_wf m (lp_host l)"
    and "m + length (filter (opens_event ep) evs) < 2 ^ 32" "opened (lp_host l)"
    and "accepts key i (isn + 1) (nat_table (lp_host l))" "leads_only key i (nat_table (lp_host l))"
    and "forwarded i (ch_queue (to_remote (lp_host l))) = []"
    and "length S < 2 ^ 32" "upload ep S isn key evs xs"
    and "loop_run ep enc evs l = (Continue, l')" "lp_incoming l = got @ lp_incoming l'"
    and "\<forall>msg. Inr (Some msg) \<in> set got \<and> message_id msg = Some i \<longrightarrow> (\<exists>d. msg = RemoteMessage.TcpData i d)"
    and "rd_bytes r = take n (drop (length (wr_out (lp_writer l))) (wr_out (lp_writer l')))"
    and "length (wr_out (lp_writer l')) < 2 ^ 64"
  shows "\<exists>msgs last. read_loop dec r = map (Inr \<circ> Some) msgs @ [last] \<and> (\<forall>msg. last \<noteq> Inr (Some msg)) \<and>
    foldl expect 0 xs \<le> length S \<and> prefix (forwarded i msgs) (take (foldl expect 0 xs) S) \<and>
    (length (wr_out (lp_writer l')) \<le> length (wr_out (lp_writer l)) + n \<and> last = Inr None \<longrightarrow>
      forwarded i msgs @ forwarded i (ch_queue (to_remote (lp_host l'))) = take (foldl expect 0 xs) S)"
proof -
  have "uploaded enc (lp_writer l) S isn key i m 0 [] l"
    using assms(3,5-8) by (simp add: uploaded_def wrote_Nil)
  then obtain m' sent where up: "uploaded enc (lp_writer l) S isn key i m' (foldl expect 0 xs) sent l'"
    using uploaded_run[OF assms(10,1,9) _ assms(4,11,12)] assms(13) by blast
  then have sent: "wrote enc (lp_writer l) sent (lp_writer l')"
    "forwarded i sent @ forwarded i (ch_queue (to_remote (lp_host l'))) = take (foldl expect 0 xs) S"
    "foldl expect 0 xs \<le> length S"
    by (simp_all add: uploaded_def)
  obtain k e where k: "read_loop dec r = map (Inr \<circ> Some) (take k sent) @ [e]" "\<forall>msg. e \<noteq> Inr (Some msg)"
    "length (wr_out (lp_writer l')) \<le> length (wr_out (lp_writer l)) + n \<and> e = Inr None \<longrightarrow> length sent \<le> k"
    using wrote_beginning[OF assms(2) sent(1) assms(14,15)] by blast
  have "prefix (forwarded i (take k sent)) (forwarded i sent)"
    by (metis append_take_drop_id forwarded_append prefixI)
  then have "prefix (forwarded i (take k sent)) (take (foldl expect 0 xs) S)"
    using sent(2) by (metis prefix_order.trans prefixI)
  with k sent(2,3) show ?thesis by (intro exI[of _ "take k sent"] exI[of _ e]) auto
qed

text \<open>
  C7: An upload end to end. The connection is established, at most its identifier leads to its
  key, nothing of the stream has been received or is queued; of its own packets only data
  segments of the stream \<open>S\<close> come, and of the remote's messages about it only data. Between
  them the loop may do anything else, in any order: packets, messages and queries of all others,
  and writes. Then the messages that the remote's reader task decodes, from whatever part of the
  SSH bytes has arrived, carry for this connection a beginning of what an in-order receiver
  accepts of the stream (\<open>expect\<close>: a segment counts only when it begins at the next expected
  byte); and once all bytes have arrived, they and the messages still queued carry exactly this.
\<close>

theorem upload_end_to_end:
  assumes "etherparse_laws ep" "message_codec enc dec" "host_wf m (lp_host l)"
    and "m + length (filter (opens_event ep) evs) < 2 ^ 32" "opened (lp_host l)"
    and "accepts key i (isn + 1) (nat_table (lp_host l))" "leads_only key i (nat_table (lp_host l))"
    and "forwarded i (ch_queue (to_remote (lp_host l))) = []"
    and "length S < 2 ^ 32" "upload ep S isn key evs xs"
    and "loop_run ep enc evs l = (Continue, l')" "lp_incoming l = got @ lp_incoming l'"
    and "\<forall>msg. Inr (Some msg) \<in> set got \<and> message_id msg = Some i \<longrightarrow> (\<exists>d. msg = RemoteMessage.TcpData i d)"
    and "rd_bytes r = take n (drop (length (wr_out (lp_writer l))) (wr_out (lp_writer l')))"
    and "length (wr_out (lp_writer l')) < 2 ^ 64"
  shows "\<exists>msgs last. read_loop dec r = map (Inr \<circ> Some) msgs @ [last] \<and> (\<forall>msg. last \<noteq> Inr (Some msg)) \<and>
    foldl expect 0 xs \<le> length S \<and> prefix (forwarded i msgs) (take (foldl expect 0 xs) S) \<and>
    (length (wr_out (lp_writer l')) \<le> length (wr_out (lp_writer l)) + n \<and> last = Inr None \<longrightarrow>
      forwarded i msgs @ forwarded i (ch_queue (to_remote (lp_host l'))) = take (foldl expect 0 xs) S)"
  using assms by (rule upload_arrives)

lemma example_segment_forwards:
  assumes "handle_outbound_tcp rfc_etherparse (example_segment [1, 2] 0 2) (example_host Established) = (Done, h)"
  shows "to_remote h = \<lparr>ch_queue = [HostMessage.TcpData 1 [1, 2]], ch_cap = 1024, ch_closed = False\<rparr>"
  using assms
  by (auto simp: exec.simps(2) handle_outbound_tcp_def Let_def with_state_def example_segment_def tcp_key_def no_flags_def
      get_tcp_connection_id_def outbound_known_def get_tcp_state_def outbound_established_def get_tcp_ack_def
      conn_of_id_def outbound_established_data_def forward_in_order_def example_host_entry send_remote_def
      chan_send_def new_chan_def upd_nat_def send_ack_def with_built_def send_tun_def
      split: outcome.splits send_result.splits if_splits)

text \<open>The example: a packet with data is read and sent on, and then another application connects.\<close>

definition example_upload :: "loop_event list" where
  "example_upload = [TunRead (0, 0) (Inr example_packet), ToRemoteReady, TunRead (0, 0) (Inr example_syn)]"

lemma example_upload_is: "upload rfc_etherparse [1, 2] 7 example_key example_upload [(0, 2)]"
proof -
  have "carries [1, 2] 7 example_key (example_segment [1, 2] 0 2) (0, 2)"
    by (rule example_segment_carries) simp
  then show ?thesis
    unfolding example_upload_def
    by (intro upload_packet[OF example_packet_parses] upload_other upload_Nil)
       (simp_all add: example_syn_parses tcp_key_def)
qed

lemma example_upload_run:
  obtains l' where "loop_run rfc_etherparse host_to_allocvec example_upload example_loop = (Continue, l')"
    "wr_out (lp_writer l') = stream host_to_allocvec [HostMessage.TcpData 1 [1, 2]]"
    "forwarded 1 (ch_queue (to_remote (lp_host l'))) = []" "lp_incoming l' = []"
proof -
  have fam: "key_family example_key" by (simp add: key_family_def)
  have seg: "carries [1, 2] 7 example_key (example_segment [1, 2] 0 2) (0, 2)"
    by (rule example_segment_carries) simp
  have room: "room (Suc 0) (to_remote (example_host Established))" "room (Suc 0) (to_tun (example_host Established))"
    by (simp_all add: example_host_entry room_def new_chan_def)
  obtain h where h: "handle_outbound_tcp rfc_etherparse (example_segment [1, 2] 0 2) (example_host Established) = (Done, h)"
    using data_step[OF rfc.etherparse_laws_axioms fam example_receiving _ _ seg room] by auto
  have "loop_step rfc_etherparse host_to_allocvec (TunRead (0, 0) (Inr example_packet)) example_loop
      = (Continue, example_loop\<lparr>lp_host := h\<rparr>)"
    using h by (simp add: example_loop_def run_handler_def handle_tun_packet_def example_packet_parses)
  moreover note example_segment_forwards[OF h]
  then obtain l1 where "loop_step rfc_etherparse host_to_allocvec ToRemoteReady (example_loop\<lparr>lp_host := h\<rparr>) = (Continue, l1)"
    "wr_out (lp_writer l1) = stream host_to_allocvec [HostMessage.TcpData 1 [1, 2]]"
    "to_remote (lp_host l1) = new_chan 1024" "lp_incoming l1 = []"
    by (simp add: example_loop_def chan_recv_def write_message_def host_to_allocvec_def write_all_def flush_def
        stream_def frame_of_def frame_def Let_def new_chan_def)
  moreover from this(3,4) obtain l' where
    "loop_step rfc_etherparse host_to_allocvec (TunRead (0, 0) (Inr example_syn)) l1 = (Continue, l')"
    "lp_writer l' = lp_writer l1" "forwarded 1 (ch_queue (to_remote (lp_host l'))) = []" "lp_incoming l' = []"
    by (simp add: run_handler_def handle_tun_packet_def example_syn_parses handle_outbound_tcp_def Let_def no_flags_def
        outbound_syn_def split_beta send_remote_def chan_send_def new_chan_def)
  ultimately show ?thesis
    using that by (simp add: example_upload_def loop_run_step del: loop_step.simps)
qed

lemmas example_upload_simps = example_loop_def example_host_entry new_chan_def opened_def

lemma example_upload_start:
  "host_wf 1 (lp_host example_loop)" "opened (lp_host example_loop)"
  "accepts example_key 1 (7 + 1) (nat_table (lp_host example_loop))"
  "leads_only example_key 1 (nat_table (lp_host example_loop))"
  "forwarded 1 (ch_queue (to_remote (lp_host example_loop))) = []"
  using example_host_wf[of Established]
  by (simp_all add: example_upload_simps accepts_def leads_only_def)

lemma example_upload_short: "length (stream host_to_allocvec [HostMessage.TcpData 1 [1, 2]]) < 2 ^ 64"
  by (simp add: stream_def frame_of_def frame_def host_to_allocvec_def e_uint_def e_bytes_def enc_varint.simps)

theorem upload_end_to_end_witness:
  "\<exists>l' msgs. loop_run rfc_etherparse host_to_allocvec example_upload example_loop = (Continue, l') \<and>
    read_loop host_from_bytes \<lparr>rd_bytes = wr_out (lp_writer l'), rd_end = None\<rparr>
      = map (Inr \<circ> Some) msgs @ [Inr None] \<and> forwarded 1 msgs = [1, 2]"
proof -
  obtain l' where run: "loop_run rfc_etherparse host_to_allocvec example_upload example_loop = (Continue, l')"
    "wr_out (lp_writer l') = stream host_to_allocvec [HostMessage.TcpData 1 [1, 2]]"
    "forwarded 1 (ch_queue (to_remote (lp_host l'))) = []" "lp_incoming l' = []"
    by (rule example_upload_run)
  let ?r = "\<lparr>rd_bytes = wr_out (lp_writer l'), rd_end = None\<rparr>"
  have "all_fit host_to_allocvec [HostMessage.TcpData 1 [1, 2]]" by (rule host_data_fits) simp
  from host_codec.read_loop_stream[OF this, of ?r] run(2)
  have rl: "read_loop host_from_bytes ?r = map (Inr \<circ> Some) [HostMessage.TcpData 1 [1, 2]] @ [Inr None]" by simp
  have opens: "1 + length (filter (opens_event rfc_etherparse) example_upload) < 2 ^ 32"
    by (simp add: example_upload_def)
  have short: "length (wr_out (lp_writer l')) < 2 ^ 64" using example_upload_short by (simp only: run(2))
  have calm: "\<forall>msg. Inr (Some msg) \<in> set [] \<and> message_id msg = Some 1 \<longrightarrow> (\<exists>d. msg = RemoteMessage.TcpData 1 d)"
    by simp
  have wr: "wr_out (lp_writer example_loop) = []" "lp_incoming example_loop = []" by (simp_all add: example_loop_def)
  obtain msgs e where arrived: "read_loop host_from_bytes ?r = map (Inr \<circ> Some) msgs @ [e]"
    "e = Inr None \<longrightarrow> forwarded 1 msgs @ [] = take (foldl expect 0 [(0, 2)]) [1, 2]"
    using upload_end_to_end[OF rfc.etherparse_laws_axioms host_codec.message_codec_axioms example_upload_start(1) opens
        example_upload_start(2-5) _ example_upload_is run(1) _ calm, of ?r "length (wr_out (lp_writer l'))"] short wr run(3,4)
    by auto
  from arrived(1) rl have "last (map (Inr \<circ> Some) msgs @ [e]) = Inr None" by simp
  then have "e = Inr None" by simp
  with arrived run(1) show ?thesis by (intro exI[of _ l'] exI[of _ msgs]) (simp add: expect_def)
qed

end
