(* ===== verification/Host_Download.thy ===== *)
theory Host_Download
  imports Host_Frame
begin

text \<open>
  A download through the whole loop: the data messages of one connection, handled between
  packets and messages of any other connection, become the segments that the application gets
  on the TUN device; no other packet that the host writes looks like one of them.
\<close>

section \<open>The data segments towards an application\<close>

definition mirror :: "TcpKey \<Rightarrow> TcpKey" where
  "mirror key = (case key of (k0, k1, k2, k3) \<Rightarrow> (k2, k3, k0, k1))"

lemma mirror_inj [simp]: "mirror k = mirror k' \<longleftrightarrow> k = k'"
  by (cases k; cases k') (auto simp: mirror_def)

text \<open>The segments with data among the packets of the device that belong to the connection.\<close>

definition data_segment :: "etherparse \<Rightarrow> TcpKey \<Rightarrow> bytes \<Rightarrow> TcpPacketInfo option" where
  "data_segment ep key pkt =
     (case parse_ip_packet ep pkt of
        Ok (Tcp info) \<Rightarrow> if tcp_key info = mirror key \<and> tcp_payload info \<noteq> [] then Some info else None
      | _ \<Rightarrow> None)"

definition delivered :: "etherparse \<Rightarrow> TcpKey \<Rightarrow> bytes list \<Rightarrow> TcpPacketInfo list" where
  "delivered ep key pkts = List.map_filter (data_segment ep key) pkts"

lemma delivered_simps [simp]:
  "delivered ep key [] = []" "delivered ep key (xs @ ys) = delivered ep key xs @ delivered ep key ys"
  "delivered ep key (p # xs) = (case data_segment ep key p of None \<Rightarrow> [] | Some x \<Rightarrow> [x]) @ delivered ep key xs"
  by (simp_all add: delivered_def List.map_filter_def split: option.split)

text \<open>Segments without gap or overlap from the sequence number \<open>sq\<close> on.\<close>

fun consecutive :: "u32 \<Rightarrow> TcpPacketInfo list \<Rightarrow> bool" where
  "consecutive sq [] = True"
| "consecutive sq (x # xs) \<longleftrightarrow>
     tcp_seq x = sq \<and> consecutive (sq + word_of_nat (length (tcp_payload x))) xs"

abbreviation payloads :: "TcpPacketInfo list \<Rightarrow> bytes" where
  "payloads xs \<equiv> concat (map tcp_payload xs)"

lemma consecutive_append:
  "consecutive sq (xs @ ys) \<longleftrightarrow>
     consecutive sq xs \<and> consecutive (sq + word_of_nat (length (payloads xs))) ys"
  by (induction xs arbitrary: sq) (auto simp: algebra_simps)

lemma reply_info_simps:
  "tcp_key (reply_info key sq ak flags win p) = mirror key"
  "tcp_payload (reply_info key sq ak flags win p) = p" "tcp_seq (reply_info key sq ak flags win p) = sq"
  by (cases key; simp add: reply_info_def reply_packet_def tcp_info_of_def tcp_key_def mirror_def)+

lemma segments_consecutive: "consecutive sq (segments key ak sq cs)"
  by (induction cs arbitrary: sq) (simp_all add: reply_info_simps)

lemma delivered_segments:
  assumes "parses ep pkts (segments key ak sq cs)" "[] \<notin> set cs"
  shows "delivered ep key pkts = segments key ak sq cs"
  using assms
proof (induction cs arbitrary: pkts sq)
  case Nil
  then show ?case by (simp add: parses_def)
next
  case (Cons c cs)
  then obtain p ps where pkts: "pkts = p # ps" by (cases pkts) (simp_all add: parses_def)
  with Cons.prems have "data_segment ep key p =
      Some (reply_info key sq ak (no_flags\<lparr>ack := True, psh := (cs = [])\<rparr>) 65535 c)"
    by (auto simp: data_segment_def reply_info_simps)
  with Cons.IH[of ps] Cons.prems pkts show ?case
    by simp
qed

section \<open>Nothing else adds a data segment\<close>

definition shown :: "etherparse \<Rightarrow> TcpKey \<Rightarrow> TcpPacketInfo list \<Rightarrow> Host \<Rightarrow> bool" where
  "shown ep key xs s \<longleftrightarrow> delivered ep key (ch_queue (to_tun s)) = xs"

lemma keeps_shown: "data_segment ep key pkt = None \<Longrightarrow> keeps True (shown ep key xs) (send_tun pkt)"
  by (auto simp: keeps_def shown_def send_tun_def chan_send_def)

lemma shown_invariant:
  assumes "etherparse_laws ep"
  shows "channel_invariant_all (shown ep key xs) ep (\<lambda>k. k \<noteq> key)"
proof
  fix k p sq ak flags win pkt
  assume "k \<noteq> key \<or> p = []" "tcp_build ep (reply_packet k sq ak flags win p) = Ok pkt"
  then show "keeps True (shown ep key xs) (send_tun pkt)"
    using etherparse_laws.tcp_built[OF assms, of "reply_packet k sq ak flags win p" pkt]
    by (intro keeps_shown) (auto simp: data_segment_def reply_info_simps simp flip: reply_info_def)
next
  fix u pkt
  assume "udp_build ep u = Ok pkt"
  then show "keeps True (shown ep key xs) (send_tun pkt)"
    using etherparse_laws.udp_built[OF assms] by (intro keeps_shown) (simp add: data_segment_def)
qed (auto simp: shown_def keeps_def send_remote_def split: send_result.splits)

lemmas shown_packet = channel_invariant_syn.any_packet[OF channel_invariant_all.axioms(1)[OF shown_invariant]]
lemmas shown_message = channel_invariant_dns.any_message[OF channel_invariant_all.axioms(2)[OF shown_invariant]]

section \<open>The entry of the connection\<close>

definition relays :: "TcpKey \<Rightarrow> u32 \<Rightarrow> u32 \<Rightarrow> NatTable \<Rightarrow> bool" where
  "relays key i sq t \<longleftrightarrow>
     (\<exists>c. tcp_by_key t key = Some c \<and> conn_id c = i \<and> conn_state c = Established \<and> conn_seq c = sq)"

lemma keeps_relays:
  assumes "\<not> fin (tcp_flags tcp)"
  shows "keeps True (on_table (relays key i sq)) (outbound_established ep key i tcp)"
proof -
  have "relays key i sq (update_tcp_ack j a t)" if "relays key i sq t" for j a t
    using that by (cases "tcp_by_id t j") (auto simp: relays_def nat_simps)
  with assms show ?thesis
    unfolding outbound_established_def outbound_established_data_def forward_in_order_def send_ack_def
    by (auto intro!: keeps_intros)
qed

lemma relays_outbound:
  assumes "relays key i sq (nat_table s)" "nat_wf n (nat_table s)"
    and "tcp_key tcp = key \<longrightarrow> \<not> is_syn tcp \<and> \<not> rst (tcp_flags tcp) \<and> \<not> fin (tcp_flags tcp)"
  shows "relays key i sq (nat_table (snd (handle_outbound_tcp ep tcp s)))"
proof (cases "tcp_key tcp = key")
  case True
  then have "handle_outbound_tcp ep tcp s = outbound_established ep key i tcp s"
    using outbound_known_run[OF True, of s _ ep] assms(1,3) by (auto simp: relays_def)
  with keepsD[OF keeps_relays, of tcp key i sq s ep] assms(1,3) True show ?thesis
    by (simp add: on_table_def)
next
  case False
  then show ?thesis
    using other_keys_outbound[OF assms(2), of key tcp ep] assms(1) by (simp add: relays_def)
qed

section \<open>One iteration\<close>

text \<open>The state: so far the data \<open>xs\<close> have been delivered, after the packets \<open>base\<close>.\<close>

definition downloading ::
  "etherparse \<Rightarrow> TcpKey \<Rightarrow> u32 \<Rightarrow> u32 \<Rightarrow> TcpPacketInfo list \<Rightarrow> nat \<Rightarrow> TcpPacketInfo list \<Rightarrow> Loop \<Rightarrow> bool"
where
  "downloading ep key i sq base n xs l \<longleftrightarrow>
     host_wf n (lp_host l) \<and> opened (lp_host l) \<and> leads_only key i (nat_table (lp_host l)) \<and>
     relays key i (sq + word_of_nat (length (payloads xs))) (nat_table (lp_host l)) \<and>
     consecutive sq xs \<and> delivered ep key (lp_tun l @ ch_queue (to_tun (lp_host l))) = base @ xs"

text \<open>The data of one connection among the results of the reader task.\<close>

definition incoming_data :: "u32 \<Rightarrow> (protocol_error + RemoteMessage option) list \<Rightarrow> bytes" where
  "incoming_data i rs = concat (map (\<lambda>r. case r of
     Inr (Some (RemoteMessage.TcpData j d)) \<Rightarrow> if j = i then d else [] | _ \<Rightarrow> []) rs)"

text \<open>Packets that end or reopen the connection.\<close>

fun disturbs :: "etherparse \<Rightarrow> TcpKey \<Rightarrow> loop_event \<Rightarrow> bool" where
  "disturbs ep key (TunRead clock (Inr data)) \<longleftrightarrow>
     (case parse_ip_packet ep (take 65536 data) of
        Ok (Tcp tcp) \<Rightarrow> tcp_key tcp = key \<and> (is_syn tcp \<or> rst (tcp_flags tcp) \<or> fin (tcp_flags tcp))
      | _ \<Rightarrow> False)"
| "disturbs ep key _ \<longleftrightarrow> False"

lemma tun_packet_entry:
  assumes "relays key i sq (nat_table s)" "leads_only key i (nat_table s)" "nat_wf n (nat_table s)"
    and "\<not> disturbs ep key (TunRead clock (Inr data))"
  shows "relays key i sq (nat_table (snd (handle_tun_packet ep clock (take 65536 data) s))) \<and>
    leads_only key i (nat_table (snd (handle_tun_packet ep clock (take 65536 data) s)))"
proof (cases "parse_ip_packet ep (take 65536 data)")
  case (Ok pkt)
  show ?thesis
  proof (cases pkt)
    case (Tcp tcp)
    with Ok assms(4) relays_outbound[OF assms(1,3), of tcp ep] leads_outbound[OF assms(2), of tcp ep]
    show ?thesis by (auto simp: handle_tun_packet_def)
  next
    case (Udp udp)
    have "keeps True (on_table (\<lambda>t. tcp_by_key t = m \<and> tcp_by_id t = f)) (handle_outbound_udp clock udp)" for m f
      unfolding handle_outbound_udp_def by (intro keeps_intros) (simp add: track_udp_def cleanup_udp_mappings_def Let_def)
    from keepsD[OF this, of "tcp_by_key (nat_table s)" "tcp_by_id (nat_table s)" s] Ok Udp assms(1,2)
    show ?thesis by (simp add: handle_tun_packet_def on_table_def relays_def leads_only_def)
  qed (use Ok assms(1,2) in \<open>simp add: handle_tun_packet_def\<close>)
qed (use assms(1,2) in \<open>simp_all add: handle_tun_packet_def\<close>)

text \<open>A message that is not about this connection.\<close>

lemma other_message_entry:
  assumes "relays key i sq (nat_table s)" "leads_only key i (nat_table s)" "message_id msg \<noteq> Some i"
  shows "relays key i sq (nat_table (snd (handle_remote_message ep msg s))) \<and>
    leads_only key i (nat_table (snd (handle_remote_message ep msg s)))"
proof -
  have "tcp_by_key (nat_table (snd (handle_remote_message ep msg s))) key = tcp_by_key (nat_table s) key"
    using assms(2,3) by (intro other_keys_remote) (auto simp: leads_only_def)
  moreover have "leads_only key i (nat_table (snd (handle_remote_message ep msg s)))"
    using keepsD[OF keeps_leads_message, of key i s ep msg] assms(2) by (simp add: on_table_def)
  ultimately show ?thesis using assms(1) by (simp add: relays_def)
qed

section \<open>The data of this connection\<close>

lemma smooth_chunks:
  assumes "etherparse_laws ep" "key_family key"
  shows "(\<And>c. c \<in> set cs \<Longrightarrow> length c \<le> max_tcp_payload) \<Longrightarrow> smooth (exec (chunk_stmts ep key i len off cs))"
proof -
  have "smooth (send_chunk ep key i c b)" if c: "length c \<le> max_tcp_payload" for c b
    unfolding send_chunk_def
  proof (rule smooth_with_state)
    fix s
    obtain pkt where "tcp_build ep (reply_packet key (get_tcp_seq i (nat_table s)) (get_tcp_ack i (nat_table s))
        (no_flags\<lparr>ack := True, psh := b\<rparr>) 65535 c) = Ok pkt"
      using reply_Ok[OF assms c] by metis
    then show "smooth (with_built (tcp_build ep (reply_packet key (get_tcp_seq i (nat_table s))
        (get_tcp_ack i (nat_table s)) (no_flags\<lparr>ack := True, psh := b\<rparr>) 65535 c))
        (\<lambda>pkt. exec [upd_nat (advance_tcp_seq i (payload_len_u32 (length c))), send_tun pkt]))"
      by (auto simp: with_built_Ok intro!: smooth_exec smooth_basic)
  qed
  moreover assume "\<And>c. c \<in> set cs \<Longrightarrow> length c \<le> max_tcp_payload"
  ultimately have "m \<in> set (chunk_stmts ep key i len off cs) \<Longrightarrow> smooth m" for m
    by (induction cs arbitrary: off) auto
  then show ?thesis by (rule smooth_exec)
qed

text \<open>A loop over the chunks that ends had room for all of them.\<close>

lemma chunks_room:
  assumes "exec (chunk_stmts ep key i len off cs) s = (Done, s')" "\<not> ch_closed (to_tun s)" "cs \<noteq> []"
  shows "room (length cs) (to_tun s)"
  using assms
proof (induction cs arbitrary: off s)
  case Nil
  then show ?case by simp
next
  case (Cons c cs)
  then obtain s1 where s1: "send_chunk ep key i c (off + length c = len) s = (Done, s1)"
    "exec (chunk_stmts ep key i len (off + length c) cs) s1 = (Done, s')"
    by (auto simp: exec_Done_iff)
  then obtain pkt where "room (Suc 0) (to_tun s)"
    "to_tun s1 = to_tun s\<lparr>ch_queue := ch_queue (to_tun s) @ [pkt]\<rparr>"
    using Cons.prems(2)
    by (auto simp: send_chunk_def with_state_def with_built_Done exec_Done_iff upd_nat_run send_tun_def
        chan_send_def room_def split: if_splits)
  with Cons.IH[OF s1(2)] show ?case by (cases "cs = []") (simp_all add: room_def)
qed

lemma data_message_run:
  assumes laws: "etherparse_laws ep" and fam: "key_family key" and op: "opened s"
    and entry: "tcp_by_id (nat_table s) i = Some key" "tcp_by_key (nat_table s) key = Some c"
    and run: "handle_remote_message ep (RemoteMessage.TcpData i d) s = (r, s')" "r \<noteq> Blocked"
  shows "\<exists>pkts. ch_queue (to_tun s') = ch_queue (to_tun s) @ pkts \<and>
    parses ep pkts (segments key (conn_ack c) (conn_seq c) (chunks max_tcp_payload d)) \<and>
    tcp_by_key (nat_table s') = advanced key c (length d) s \<and> tcp_by_id (nat_table s') = tcp_by_id (nat_table s)"
proof -
  have h: "handle_remote_message ep (RemoteMessage.TcpData i d) s =
      exec (chunk_stmts ep key i (length d) 0 (chunks max_tcp_payload d)) s"
    using entry by (simp add: for_key_def with_state_def get_tcp_connection_key_def remote_tcp_data_def)
  have "smooth (exec (chunk_stmts ep key i (length d) 0 (chunks max_tcp_payload d)))"
    by (intro smooth_chunks laws fam) (rule chunks_bounds)
  with op run h have r: "r = Done" unfolding smooth_def by (metis empty_iff fst_conv insert_iff)
  show ?thesis
  proof (cases "d = []")
    case True
    with run(1) h entry(2) show ?thesis by (auto simp: advanced_def fun_upd_idem)
  next
    case False
    then have "chunks max_tcp_payload d \<noteq> []" by (simp add: chunks.simps[of _ d])
    then have "room (length (chunks max_tcp_payload d)) (to_tun s)"
      using chunks_room[of ep key i "length d" 0 _ s s'] run(1) h r op by (simp add: opened_def)
    from remote_tcp_data_run[OF laws fam entry this] run(1) show ?thesis by auto
  qed
qed

lemma data_message:
  assumes laws: "etherparse_laws ep" and st: "downloading ep key i sq base n xs l"
    and run: "handle_remote_message ep (RemoteMessage.TcpData i d) (lp_host l) = (r, s')" "r \<noteq> Blocked"
  shows "\<exists>ys. downloading ep key i sq base n (xs @ ys) (l\<lparr>lp_host := s', lp_incoming := rest\<rparr>) \<and> payloads ys = d"
proof -
  let ?s = "lp_host l" and ?cs = "chunks max_tcp_payload d"
  have wf: "host_wf n ?s" and op: "opened ?s" and lead: "leads_only key i (nat_table ?s)"
    and cons: "consecutive sq xs" and deliv: "delivered ep key (lp_tun l @ ch_queue (to_tun ?s)) = base @ xs"
    using st by (simp_all add: downloading_def)
  obtain c where c: "tcp_by_key (nat_table ?s) key = Some c" "conn_id c = i" "conn_state c = Established"
    "conn_seq c = sq + word_of_nat (length (payloads xs))"
    using st by (auto simp: downloading_def relays_def)
  have link: "tcp_by_id (nat_table ?s) i = Some key" "key_family key"
    using wf c(1,2) by (auto simp: on_table_def dest: nat_wf_link nat_wf_family)
  obtain pkts where pkts: "ch_queue (to_tun s') = ch_queue (to_tun ?s) @ pkts"
    "parses ep pkts (segments key (conn_ack c) (conn_seq c) ?cs)"
    "tcp_by_key (nat_table s') = advanced key c (length d) ?s" "tcp_by_id (nat_table s') = tcp_by_id (nat_table ?s)"
    using data_message_run[OF laws link(2) op link(1) c(1) run] by blast
  let ?ys = "segments key (conn_ack c) (conn_seq c) ?cs"
  have pay: "payloads ?ys = d" using concat_chunks[of max_tcp_payload d] by (simp add: segments_payload)
  have "host_wf n s'" "opened s'"
    using keepsD[OF keeps_remote_message, of True ep _ n ?s] opened.any_message[OF op] wf run(1)
    by (metis snd_conv)+
  moreover have "delivered ep key pkts = ?ys"
    using delivered_segments[OF pkts(2)] chunks_nonempty by blast
  moreover have "relays key i (sq + word_of_nat (length (payloads (xs @ ?ys)))) (nat_table s')"
    using c pay by (simp add: relays_def pkts(3) advanced_def add.assoc)
  moreover have "consecutive sq (xs @ ?ys)"
    using cons c(4) segments_consecutive by (simp add: consecutive_append)
  ultimately show ?thesis
    using lead deliv pkts(1,4) pay by (intro exI[of _ ?ys]) (simp add: downloading_def leads_only_def)
qed

section \<open>A run of the loop that downloads\<close>

lemma downloading_host:
  assumes "downloading ep key i sq base n xs l" "lp_tun l' = lp_tun l" "host_wf m (lp_host l')"
    and "opened (lp_host l')" "shown ep key (delivered ep key (ch_queue (to_tun (lp_host l)))) (lp_host l')"
    and "\<And>sq. relays key i sq (nat_table (lp_host l)) \<Longrightarrow> leads_only key i (nat_table (lp_host l)) \<Longrightarrow>
      nat_wf n (nat_table (lp_host l)) \<Longrightarrow>
      relays key i sq (nat_table (lp_host l')) \<and> leads_only key i (nat_table (lp_host l'))"
  shows "downloading ep key i sq base m xs l'"
  using assms(1-5) assms(6)[of "sq + word_of_nat (length (payloads xs))"]
  by (simp add: downloading_def shown_def on_table_def)

lemma downloading_packet:
  assumes laws: "etherparse_laws ep" and st: "downloading ep key i sq base n xs l" and n: "n < 2 ^ 32"
    and calm: "\<not> disturbs ep key (TunRead clock (Inr data))"
  shows "downloading ep key i sq base (if opens ep (take 65536 data) then Suc n else n) xs
    (l\<lparr>lp_host := snd (handle_tun_packet ep clock (take 65536 data) (lp_host l))\<rparr>)"
proof (rule downloading_host[OF st])
  have wf: "host_wf n (lp_host l)" and op: "opened (lp_host l)"
    using st by (simp_all add: downloading_def)
  show "host_wf (if opens ep (take 65536 data) then Suc n else n)
      (lp_host (l\<lparr>lp_host := snd (handle_tun_packet ep clock (take 65536 data) (lp_host l))\<rparr>))"
    using tun_packet_safe_step[OF laws wf n, of "take 65536 data" clock] by simp
  show "opened (lp_host (l\<lparr>lp_host := snd (handle_tun_packet ep clock (take 65536 data) (lp_host l))\<rparr>))"
    using opened.any_packet[OF op] by simp
  show "shown ep key (delivered ep key (ch_queue (to_tun (lp_host l))))
      (lp_host (l\<lparr>lp_host := snd (handle_tun_packet ep clock (take 65536 data) (lp_host l))\<rparr>))"
    using shown_packet[OF laws] by (simp add: shown_def)
qed (use tun_packet_entry[OF _ _ _ calm] in simp_all)

lemma downloading_other:
  assumes laws: "etherparse_laws ep" and st: "downloading ep key i sq base n xs l"
    and other: "message_id msg \<noteq> Some i"
  shows "downloading ep key i sq base n xs
    (l\<lparr>lp_host := snd (handle_remote_message ep msg (lp_host l)), lp_incoming := rest\<rparr>)"
proof (rule downloading_host[OF st])
  let ?l = "l\<lparr>lp_host := snd (handle_remote_message ep msg (lp_host l)), lp_incoming := rest\<rparr>"
  have wf: "host_wf n (lp_host l)" and op: "opened (lp_host l)" and lead: "leads_only key i (nat_table (lp_host l))"
    using st by (simp_all add: downloading_def)
  show "host_wf n (lp_host ?l)" using keepsD[OF keeps_remote_message[of True] wf] by simp
  show "opened (lp_host ?l)" using opened.any_message[OF op] by simp
  show "shown ep key (delivered ep key (ch_queue (to_tun (lp_host l)))) (lp_host ?l)"
    using lead other by (auto simp: shown_def leads_only_def intro!: shown_message[OF laws, unfolded shown_def])
qed (use other_message_entry[OF _ _ other] in simp_all)

lemma downloading_recv:
  assumes laws: "etherparse_laws ep" and st: "downloading ep key i sq base n xs l"
    and step: "loop_step ep enc RemoteRecv l = (r, l')" "r \<in> {Continue, NotReady}"
    and got: "lp_incoming l = got @ lp_incoming l'"
    and data: "\<And>msg. Inr (Some msg) \<in> set got \<Longrightarrow> message_id msg = Some i \<Longrightarrow>
      \<exists>d. msg = RemoteMessage.TcpData i d"
  shows "\<exists>ys. downloading ep key i sq base n (xs @ ys) l' \<and> payloads ys = incoming_data i got"
proof -
  obtain msg rest where inc: "lp_incoming l = Inr (Some msg) # rest"
    using step by (auto split: list.splits sum.splits option.splits)
  obtain q s' where run: "handle_remote_message ep msg (lp_host l) = (q, s')"
    by (cases "handle_remote_message ep msg (lp_host l)")
  have l': "l' = l\<lparr>lp_host := s', lp_incoming := rest\<rparr>" and r: "r = after_handler q"
    using step(1) inc run by (auto simp: run_handler_def)
  have got: "got = [Inr (Some msg)]" using got inc l' by simp
  show ?thesis
  proof (cases "message_id msg = Some i")
    case True
    then obtain d where msg: "msg = RemoteMessage.TcpData i d" using data got by auto
    have "q \<noteq> Blocked" using step(2) r by auto
    from data_message[OF laws st run[unfolded msg] this, of rest] show ?thesis
      by (simp add: l' got msg incoming_data_def)
  next
    case False
    have "incoming_data i got = []" using False by (cases msg) (auto simp: got incoming_data_def)
    with downloading_other[OF laws st False, of rest] run show ?thesis
      by (intro exI[of _ "[]"]) (simp add: l')
  qed
qed

lemma downloading_step:
  assumes laws: "etherparse_laws ep" and st: "downloading ep key i sq base n xs l" and n: "n < 2 ^ 32"
    and calm: "\<not> disturbs ep key ev"
    and step: "loop_step ep enc ev l = (r, l')" "r \<in> {Continue, NotReady}"
    and got: "lp_incoming l = got @ lp_incoming l'"
    and data: "\<And>msg. Inr (Some msg) \<in> set got \<Longrightarrow> message_id msg = Some i \<Longrightarrow>
      \<exists>d. msg = RemoteMessage.TcpData i d"
  shows "\<exists>ys. downloading ep key i sq base (if opens_event ep ev then Suc n else n) (xs @ ys) l' \<and>
    payloads ys = incoming_data i got"
proof (cases "ev = RemoteRecv")
  case True
  then show ?thesis using downloading_recv[OF laws st step[unfolded True] got data] by simp
next
  case False
  have "downloading ep key i sq base (if opens_event ep ev then Suc n else n) xs l' \<and> lp_incoming l' = lp_incoming l"
  proof (cases "(ep, enc, ev, l)" rule: loop_step.cases)
    case (1 ep' enc' clock data l1)
    then have ev: "ev = TunRead clock (Inr data)" by simp
    then have "l' = l\<lparr>lp_host := snd (handle_tun_packet ep clock (take 65536 data) (lp_host l))\<rparr>"
      using step(1) by (auto simp: run_handler_def split: prod.splits)
    with downloading_packet[OF laws st n calm[unfolded ev]] ev show ?thesis by simp
  next
    case (4 ep' enc' l1)
    with step st show ?thesis
      by (auto simp: downloading_def opened_def on_table_def chan_recv_def
          split: option.splits list.splits prod.splits sum.splits)
  next
    case (5 ep' enc' failure l1)
    with step st show ?thesis
      by (auto simp: downloading_def opened_def on_table_def chan_recv_def Let_def
          split: option.splits list.splits)
  next
    case (6 ep' enc' result l1)
    with step st show ?thesis
      by (auto simp: downloading_def opened_def on_table_def handle_query_def register_query_def chan_send_def Let_def
          split: option.splits prod.splits sum.splits send_result.splits if_splits)
  next
    case (8 ep' enc' l1)
    with step st show ?thesis by (auto split: if_splits)
  qed (use step False in auto)
  moreover from this got have "got = []" by simp
  ultimately show ?thesis by (intro exI[of _ "[]"]) (simp add: incoming_data_def)
qed

lemma downloading_run:
  assumes laws: "etherparse_laws ep"
  shows "downloading ep key i sq base n xs l \<Longrightarrow> n + length (filter (opens_event ep) evs) < 2 ^ 32 \<Longrightarrow>
    \<forall>ev\<in>set evs. \<not> disturbs ep key ev \<Longrightarrow> loop_run ep enc evs l = (Continue, l') \<Longrightarrow>
    lp_incoming l = got @ lp_incoming l' \<Longrightarrow>
    (\<And>msg. Inr (Some msg) \<in> set got \<Longrightarrow> message_id msg = Some i \<Longrightarrow> \<exists>d. msg = RemoteMessage.TcpData i d) \<Longrightarrow>
    \<exists>m ys. downloading ep key i sq base m (xs @ ys) l' \<and> payloads ys = incoming_data i got"
proof (induction evs arbitrary: n xs l got)
  case Nil
  then have "got = []" by simp
  with Nil show ?case by (intro exI[of _ n] exI[of _ "[]"]) (simp add: incoming_data_def)
next
  case (Cons ev evs)
  obtain r l1 where step: "loop_step ep enc ev l = (r, l1)" by (cases "loop_step ep enc ev l")
  with Cons.prems(4) have run: "r \<in> {Continue, NotReady}" "loop_run ep enc evs l1 = (Continue, l')"
    by (auto simp: loop_run_step simp del: loop_step.simps split: if_splits)
  obtain got1 got2 where g: "lp_incoming l = got1 @ lp_incoming l1" "lp_incoming l1 = got2 @ lp_incoming l'"
    using loop_step_incoming[of l ep enc ev] loop_run_incoming[of l1 ep enc evs] step run(2) by auto
  then have got: "got = got1 @ got2" using Cons.prems(5) by simp
  let ?n = "if opens_event ep ev then Suc n else n"
  have "n < 2 ^ 32" "\<not> disturbs ep key ev" using Cons.prems(2,3) by simp_all
  then obtain ys1 where ys1: "downloading ep key i sq base ?n (xs @ ys1) l1" "payloads ys1 = incoming_data i got1"
    using downloading_step[OF laws Cons.prems(1) _ _ step run(1) g(1)] Cons.prems(6) got by auto
  have "?n + length (filter (opens_event ep) evs) < 2 ^ 32" using Cons.prems(2) by (auto split: if_splits)
  with Cons.IH[OF ys1(1) _ _ run(2) g(2)] Cons.prems(3,6) got obtain m ys2 where
    "downloading ep key i sq base m ((xs @ ys1) @ ys2) l'" "payloads ys2 = incoming_data i got2"
    by auto
  with ys1(2) got show ?case
    by (intro exI[of _ m] exI[of _ "ys1 @ ys2"]) (simp add: incoming_data_def)
qed

section \<open>Property: a download\<close>

lemma download_delivered:
  assumes "etherparse_laws ep" "host_wf n (lp_host l)" "n + length (filter (opens_event ep) evs) < 2 ^ 32"
    and "opened (lp_host l)" "relays key i sq (nat_table (lp_host l))" "leads_only key i (nat_table (lp_host l))"
    and "\<forall>ev\<in>set evs. \<not> disturbs ep key ev" "loop_run ep enc evs l = (Continue, l')"
    and "lp_incoming l = got @ lp_incoming l'"
    and "\<forall>msg. Inr (Some msg) \<in> set got \<and> message_id msg = Some i \<longrightarrow> (\<exists>d. msg = RemoteMessage.TcpData i d)"
  shows "\<exists>segs. delivered ep key (lp_tun l' @ ch_queue (to_tun (lp_host l'))) =
      delivered ep key (lp_tun l @ ch_queue (to_tun (lp_host l))) @ segs \<and>
    consecutive sq segs \<and> payloads segs = incoming_data i got"
proof -
  have "downloading ep key i sq (delivered ep key (lp_tun l @ ch_queue (to_tun (lp_host l)))) n [] l"
    using assms(2,4-6) by (simp add: downloading_def)
  from downloading_run[OF assms(1) this assms(3,7-9)] assms(10) show ?thesis
    by (auto simp: downloading_def)
qed

text \<open>
  C8: A download end to end. The connection is established, only its identifier leads to its key,
  and fewer than \<open>2\<^sup>3\<^sup>2\<close> connections are opened. As long as no SYN, RST or FIN of this connection is
  read from the device and the remote says of it nothing but data, then under any order of the
  loop's arms, and whatever happens on all other connections meanwhile, the data messages of the
  connection that the loop takes from SSH become, on the device and in its queue, segments of
  exactly these bytes, without gap or overlap in their sequence numbers; and no other packet that
  the host writes, for this or another connection, looks like a segment with data of this one.
\<close>

theorem download_end_to_end:
  assumes "etherparse_laws ep" "host_wf n (lp_host l)" "n + length (filter (opens_event ep) evs) < 2 ^ 32"
    and "opened (lp_host l)" "relays key i sq (nat_table (lp_host l))" "leads_only key i (nat_table (lp_host l))"
    and "\<forall>ev\<in>set evs. \<not> disturbs ep key ev" "loop_run ep enc evs l = (Continue, l')"
    and "lp_incoming l = got @ lp_incoming l'"
    and "\<forall>msg. Inr (Some msg) \<in> set got \<and> message_id msg = Some i \<longrightarrow> (\<exists>d. msg = RemoteMessage.TcpData i d)"
  shows "\<exists>segs. delivered ep key (lp_tun l' @ ch_queue (to_tun (lp_host l'))) =
      delivered ep key (lp_tun l @ ch_queue (to_tun (lp_host l))) @ segs \<and>
    consecutive sq segs \<and> concat (map tcp_payload segs) = incoming_data i got"
  using assms by (rule download_delivered)

definition example_download :: Loop where
  "example_download = example_loop\<lparr>lp_incoming :=
     [Inr (Some (RemoteMessage.TcpData 1 [104, 105])), Inr (Some (RemoteMessage.TcpData 9 [7])), Inr None]\<rparr>"

lemma example_data_run:
  obtains s where "handle_remote_message rfc_etherparse (RemoteMessage.TcpData 1 [104, 105]) (example_host Established) = (Done, s)"
    "tcp_by_id (nat_table s) = [1 \<mapsto> example_key]"
proof -
  let ?h = "example_host Established"
  have fam: "key_family example_key" by (simp add: key_family_def)
  have "chunks max_tcp_payload [104, 105 :: u8] = [[104, 105]]"
    by (simp add: chunks.simps[of _ "[104, 105]"])
  then have room: "room (length (chunks max_tcp_payload [104, 105 :: u8])) (to_tun ?h)"
    by (simp add: example_host_entry room_def new_chan_def)
  have entry: "tcp_by_id (nat_table ?h) 1 = Some example_key"
    "tcp_by_key (nat_table ?h) example_key = Some \<lparr>conn_id = 1, conn_state = Established, conn_seq = 1000, conn_ack = 8\<rparr>"
    by (simp_all add: example_host_entry)
  show thesis
    using remote_tcp_data_run[OF rfc.etherparse_laws_axioms fam entry room] that by (auto simp: example_host_entry)
qed

lemma example_relays:
  "relays example_key 1 1000 (nat_table (example_host Established))"
  "leads_only example_key 1 (nat_table (example_host Established))" "opened (example_host Established)"
  by (simp_all add: relays_def leads_only_def opened_def example_host_entry new_chan_def)

theorem download_end_to_end_witness:
  "\<exists>l'. loop_run rfc_etherparse host_to_allocvec [RemoteRecv, RemoteRecv] example_download = (Continue, l') \<and>
    (\<exists>segs. delivered rfc_etherparse example_key (ch_queue (to_tun (lp_host l'))) = segs \<and>
      consecutive 1000 segs \<and> concat (map tcp_payload segs) = [104, 105])"
proof -
  let ?l = example_download
  have host: "lp_host ?l = example_host Established" "lp_tun ?l = []"
    by (simp_all add: example_download_def example_loop_def)
  obtain s where s: "handle_remote_message rfc_etherparse (RemoteMessage.TcpData 1 [104, 105]) (example_host Established) = (Done, s)"
    "tcp_by_id (nat_table s) = [1 \<mapsto> example_key]"
    by (rule example_data_run)
  have run: "loop_run rfc_etherparse host_to_allocvec [RemoteRecv, RemoteRecv] ?l
      = (Continue, ?l\<lparr>lp_host := s, lp_incoming := [Inr None]\<rparr>)"
    using s by (simp add: loop_run_step example_download_def example_loop_def run_handler_def for_key_def
        with_state_def get_tcp_connection_key_def)
  have "\<forall>msg. Inr (Some msg) \<in> set [Inr (Some (RemoteMessage.TcpData 1 [104, 105])),
      Inr (Some (RemoteMessage.TcpData 9 [7]))] \<and> message_id msg = Some 1 \<longrightarrow>
      (\<exists>d. msg = RemoteMessage.TcpData 1 d)"
    by auto
  then show ?thesis
    using download_end_to_end[OF rfc.etherparse_laws_axioms _ _ _ _ _ _ run, of 1 example_key 1 1000
        "[Inr (Some (RemoteMessage.TcpData 1 [104, 105])), Inr (Some (RemoteMessage.TcpData 9 [7]))]"]
      example_host_wf[of Established] run example_relays
    by (simp add: host example_host_entry new_chan_def example_download_def example_loop_def incoming_data_def)
qed

end
