(* ===== verification/Host_Dns.thy ===== *)
theory Host_Dns
  imports Host_Loop Host_Channels
begin

text \<open>
  The DNS forwarder inside the loop: over every run, what goes to the remote as a query came
  from a local client, and what goes to a client as a response answers a query of that client.
\<close>

section \<open>Handlers leave the forwarder alone\<close>

fun is_query :: "HostMessage \<Rightarrow> bool" where
  "is_query (DnsQuery i server data) = True"
| "is_query _ = False"

definition forwarder :: "DnsState option \<Rightarrow> HostMessage list \<Rightarrow> Host \<Rightarrow> bool" where
  "forwarder d ms s \<longleftrightarrow> dns_state s = d \<and> filter is_query (ch_queue (to_remote s)) = ms"

interpretation forwarder: channel_invariant_syn "forwarder d ms" ep "\<lambda>_. True" for d ms ep
proof unfold_locales
  fix m :: HostMessage
  assume "plain m"
  then show "keeps True (forwarder d ms) (send_remote m)"
    by (cases m) (auto simp: keeps_def send_remote_def forwarder_def chan_send_def split: send_result.splits if_splits)
qed (auto simp: forwarder_def keeps_def send_tun_def send_remote_def chan_send_def split: send_result.splits if_splits)

section \<open>The log of the queries\<close>

text \<open>
  The queries in the order of their numbers, with their clients. \<open>served\<close>: the forwarder, after
  these events and results of the reader task, knows and has answered only logged clients.
\<close>

type_synonym query_log = "(bytes \<times> SocketAddr) list"

definition asked_of :: "loop_event list \<Rightarrow> query_log \<Rightarrow> bool" where
  "asked_of evs log \<longleftrightarrow>
     (\<forall>(q, a) \<in> set log. \<exists>q0. DnsRecv (Inr (q0, a)) \<in> set evs \<and> q = take 4096 q0)"

text \<open>The query \<open>q\<close> of the client \<open>a\<close> has the number \<open>i\<close>.\<close>

definition query_entry :: "query_log \<Rightarrow> u32 \<Rightarrow> bytes \<Rightarrow> SocketAddr \<Rightarrow> bool" where
  "query_entry log i q a \<longleftrightarrow> (\<exists>j<length log. i = word_of_nat j \<and> log ! j = (q, a))"

lemma entry_more [intro]: "query_entry log i q a \<Longrightarrow> query_entry (log @ [x]) i q a"
  unfolding query_entry_def by (metis length_append nth_append trans_less_add1)

lemma entry_new [intro]: "query_entry (log @ [(q, a)]) (word_of_nat (length log)) q a"
  unfolding query_entry_def by (intro exI[of _ "length log"]) simp

lemma entry_unique:
  assumes "length log \<le> 2 ^ 32" "query_entry log i q a" "query_entry log i q' a'"
  shows "q = q' \<and> a = a'"
proof -
  obtain j k where "j < length log" "k < length log" "word_of_nat j = (word_of_nat k :: u32)"
    "log ! j = (q, a)" "log ! k = (q', a')"
    using assms(2,3) by (auto simp: query_entry_def)
  moreover from this assms(1) have "j = k" by (simp add: word_of_nat_eq_iff take_bit_eq_mod)
  ultimately show ?thesis by simp
qed

lemma entry_asked: "asked_of evs log \<Longrightarrow> query_entry log i q a \<Longrightarrow>
    \<exists>q0. DnsRecv (Inr (q0, a)) \<in> set evs \<and> q = take 4096 q0"
  by (force simp: asked_of_def query_entry_def dest: nth_mem)

definition served ::
  "(protocol_error + RemoteMessage option) list \<Rightarrow> query_log \<Rightarrow> DnsState \<Rightarrow> bool"
where
  "served got log d \<longleftrightarrow> dns_next_id d = word_of_nat (length log) \<and>
     (\<forall>i a. pending d i = Some a \<longrightarrow> (\<exists>q. query_entry log i q a)) \<and>
     (\<forall>data a. (data, a) \<in> set (dns_sent d) \<longrightarrow>
        (\<exists>i q. query_entry log i q a \<and> Inr (Some (DnsResponse i data)) \<in> set got))"

definition logged :: "IpAddr \<Rightarrow> query_log \<Rightarrow> HostMessage list \<Rightarrow> bool" where
  "logged server log ms \<longleftrightarrow>
     (\<forall>m \<in> set ms. is_query m \<longrightarrow> (\<exists>i q a. m = DnsQuery i server q \<and> query_entry log i q a))"

lemma logged_simps [simp]:
  "logged server log []" "logged server log (xs @ ys) \<longleftrightarrow> logged server log xs \<and> logged server log ys"
  "logged server log (filter is_query ms) \<longleftrightarrow> logged server log ms"
  by (auto simp: logged_def)

lemma logged_more: "logged server log ms \<Longrightarrow> logged server (log @ [x]) ms"
  unfolding logged_def by blast

lemma served_query:
  assumes "served got log d"
  shows "served got (log @ [(q, a)]) (snd (register_query a d))"
  using assms unfolding served_def register_query_def
  by (auto simp: add.commute) blast+

lemma served_forget: "served got log d \<Longrightarrow> served got log (d\<lparr>pending := (pending d)(i := None)\<rparr>)"
  by (auto simp: served_def)

lemma served_response:
  assumes "served got log d"
  shows "served (got @ [Inr (Some (DnsResponse i data))]) log (handle_response i data d)"
  using assms by (fastforce simp: served_def handle_response_def Let_def split: option.splits)

lemma served_more: "served got log d \<Longrightarrow> served (got @ rest) log d"
  by (fastforce simp: served_def)

section \<open>A run of the loop\<close>

definition forwards ::
  "(HostMessage \<Rightarrow> string + bytes) \<Rightarrow> writer \<Rightarrow> IpAddr \<Rightarrow> loop_event list \<Rightarrow>
   (protocol_error + RemoteMessage option) list \<Rightarrow> query_log \<Rightarrow> Loop \<Rightarrow> bool"
where
  "forwards enc w server evs got log l \<longleftrightarrow> asked_of evs log \<and>
     (\<exists>d. dns_state (lp_host l) = Some d \<and> dns_server d = server \<and> served got log d) \<and>
     (\<exists>sent. wrote enc w sent (lp_writer l) \<and> logged server log (sent @ ch_queue (to_remote (lp_host l))))"

fun is_dns_read :: "loop_event \<Rightarrow> bool" where
  "is_dns_read (DnsRecv (Inr x)) = True"
| "is_dns_read _ = False"

lemma forwards_host:
  assumes "forwards enc w server evs got log l" "lp_writer l' = lp_writer l"
    and "forwarder (dns_state (lp_host l)) (filter is_query (ch_queue (to_remote (lp_host l)))) (lp_host l')"
  shows "forwards enc w server (evs @ [ev]) (got @ rest) log l'"
proof -
  have q: "logged server log (ch_queue (to_remote (lp_host l'))) = logged server log (ch_queue (to_remote (lp_host l)))"
    using assms(3) logged_simps(3)[of server log] by (metis forwarder_def)
  have "asked_of (evs @ [ev]) log" using assms(1) by (fastforce simp: forwards_def asked_of_def)
  with assms q show ?thesis
    by (auto simp: forwards_def forwarder_def intro: served_more)
qed

lemma forwards_recv:
  assumes st: "forwards enc w server evs got log l"
    and step: "loop_step ep enc RemoteRecv l = (r, l')" "r \<in> {Continue, NotReady}"
    and inc: "lp_incoming l = new @ lp_incoming l'"
  shows "forwards enc w server (evs @ [RemoteRecv]) (got @ new) log l'"
proof -
  obtain msg rest where l: "lp_incoming l = Inr (Some msg) # rest"
    using step by (auto split: list.splits sum.splits option.splits)
  then have l': "lp_host l' = snd (handle_remote_message ep msg (lp_host l))" "lp_incoming l' = rest"
    "lp_writer l' = lp_writer l"
    using step(1) by (auto simp: run_handler_def split: prod.splits)
  with inc l have new: "new = [Inr (Some msg)]" by simp
  show ?thesis
  proof (cases "\<exists>i data. msg = DnsResponse i data")
    case True
    then obtain i data where msg: "msg = DnsResponse i data" by blast
    obtain d sent where d: "dns_state (lp_host l) = Some d" "dns_server d = server" "served got log d"
      "wrote enc w sent (lp_writer l)" "logged server log (sent @ ch_queue (to_remote (lp_host l)))" "asked_of evs log"
      using st by (auto simp: forwards_def)
    have h: "lp_host l' = (lp_host l)\<lparr>dns_state := Some (handle_response i data d)\<rparr>"
      using l'(1) msg d(1) by (simp add: remote_dns_response_def)
    have "dns_server (handle_response i data d) = server"
      using d(2) by (simp add: handle_response_def Let_def split: option.split)
    with d h l'(3) served_response[OF d(3), of i data] show ?thesis
      by (fastforce simp: forwards_def new msg asked_of_def)
  next
    case False
    have "forwarder (dns_state (lp_host l)) (filter is_query (ch_queue (to_remote (lp_host l))))
        (snd (handle_remote_message ep msg (lp_host l)))"
      using False by (intro forwarder.remote_message) (auto simp: forwarder_def)
    then show ?thesis by (intro forwards_host[OF st l'(3)]) (simp add: l'(1))
  qed
qed

lemma forwards_query:
  assumes st: "forwards enc w server evs got log l"
    and step: "loop_step ep enc (DnsRecv (Inr (data, a))) l = (r, l')" "r \<in> {Continue, NotReady}"
  shows "\<exists>x. forwards enc w server (evs @ [DnsRecv (Inr (data, a))]) got (log @ [x]) l'"
proof -
  obtain d sent where d: "dns_state (lp_host l) = Some d" "dns_server d = server" "served got log d"
    "wrote enc w sent (lp_writer l)" "logged server log (sent @ ch_queue (to_remote (lp_host l)))" "asked_of evs log"
    using st by (auto simp: forwards_def)
  let ?q = "take 4096 data" and ?i = "dns_next_id d"
  let ?d = "snd (register_query a d)" and ?log = "log @ [(take 4096 data, a)]"
  have i: "fst (register_query a d) = word_of_nat (length log)"
    using d(3) by (simp add: register_query_def served_def)
  have srv: "dns_server ?d = server" using d(2) by (simp add: register_query_def)
  have asked: "asked_of (evs @ [DnsRecv (Inr (data, a))]) ?log" using d(6) by (fastforce simp: asked_of_def)
  have sent: "logged server ?log sent" "logged server ?log (ch_queue (to_remote (lp_host l)))"
    using d(5) logged_more by auto
  have new: "logged server ?log [DnsQuery (word_of_nat (length log)) server ?q]"
    unfolding logged_def using entry_new[of log ?q a] by (metis empty_iff insert_iff list.set)
  consider "ch_closed (to_remote (lp_host l))"
      "l' = l\<lparr>lp_host := (lp_host l)\<lparr>dns_state := Some (?d\<lparr>pending := (pending ?d)(fst (register_query a d) := None)\<rparr>)\<rparr>\<rparr>"
    | "l' = l\<lparr>lp_host := (lp_host l)\<lparr>to_remote := (to_remote (lp_host l))\<lparr>ch_queue := ch_queue (to_remote (lp_host l)) @
          [DnsQuery (fst (register_query a d)) server ?q]\<rparr>, dns_state := Some ?d\<rparr>\<rparr>"
    using step d(1,2) by (auto simp: handle_query_def chan_send_def split_beta Let_def split: if_splits)
  then have "forwards enc w server (evs @ [DnsRecv (Inr (data, a))]) got ?log l'"
  proof cases
    case 1
    with d asked srv sent served_forget[OF served_query[OF d(3)]] show ?thesis
      by (auto simp: forwards_def)
  next
    case 2
    with d asked srv sent new served_query[OF d(3), of ?q a] i show ?thesis
      by (auto simp: forwards_def)
  qed
  then show ?thesis by blast
qed

lemma forwards_step:
  assumes st: "forwards enc w server evs got log l"
    and step: "loop_step ep enc ev l = (r, l')" "r \<in> {Continue, NotReady}" and inc: "lp_incoming l = new @ lp_incoming l'"
  shows "\<exists>log'. forwards enc w server (evs @ [ev]) (got @ new) log' l' \<and>
    length log' = (if is_dns_read ev then Suc (length log) else length log)"
proof (cases "is_dns_read ev")
  case True
  then obtain x where ev: "ev = DnsRecv (Inr x)" by (cases ev rule: is_dns_read.cases) auto
  have "lp_incoming l' = lp_incoming l"
    using step(1) ev by (cases x) (auto split: option.splits prod.splits)
  with inc forwards_query[OF st, of ep "fst x" "snd x"] step ev show ?thesis
    by (cases x) (fastforce simp del: loop_step.simps)
next
  case other: False
  have "forwards enc w server (evs @ [ev]) (got @ new) log l'"
  proof (cases "(ep, enc, ev, l)" rule: loop_step.cases)
    case (1 ep' enc' clock data l1)
    then have "lp_host l' = snd (handle_tun_packet ep clock (take 65536 data) (lp_host l))" "lp_writer l' = lp_writer l"
      using step(1) by (auto simp: run_handler_def split: prod.splits)
    with forwarder.any_packet[of "dns_state (lp_host l)" _ "lp_host l" ep clock "take 65536 data"] show ?thesis
      by (intro forwards_host[OF st]) (simp_all add: forwarder_def)
  next
    case (3 ep' enc' l1)
    with forwards_recv[OF st _ step(2) inc] step(1) show ?thesis by (auto simp del: loop_step.simps)
  next
    case (4 ep' enc' l1)
    show ?thesis
    proof (cases "ch_queue (to_remote (lp_host l))")
      case Nil
      with 4 step(1) have "l' = l" by (auto simp: chan_recv_def)
      then show ?thesis by (intro forwards_host[OF st]) (simp_all add: forwarder_def)
    next
      case (Cons m ms)
      with 4 step obtain w' where "write_message enc m (lp_writer l) = (Inr (), w')"
        "l' = l\<lparr>lp_host := (lp_host l)\<lparr>to_remote := (to_remote (lp_host l))\<lparr>ch_queue := ms\<rparr>\<rparr>, lp_writer := w'\<rparr>"
        by (auto simp: chan_recv_def split: prod.splits sum.splits)
      moreover obtain d sent where d: "dns_state (lp_host l) = Some d" "dns_server d = server" "served got log d"
        "wrote enc w sent (lp_writer l)" "logged server log (sent @ m # ms)" "asked_of evs log"
        using st Cons by (auto simp: forwards_def)
      moreover have "logged server log (sent @ [m] @ ms)" using d(5) by simp
      moreover have "asked_of (evs @ [ev]) log" using d(6) by (fastforce simp: asked_of_def)
      ultimately show ?thesis
        using wrote_snoc[OF d(4), of m w'] served_more[OF d(3), of new]
        by (auto simp: forwards_def intro!: exI[of _ "sent @ [m]"] simp del: logged_simps)
    qed
  next
    case (5 ep' enc' failure l1)
    with step have "lp_writer l' = lp_writer l" "dns_state (lp_host l') = dns_state (lp_host l)"
      "to_remote (lp_host l') = to_remote (lp_host l)"
      by (auto simp: chan_recv_def Let_def split: option.splits list.splits)
    then show ?thesis by (intro forwards_host[OF st]) (simp_all add: forwarder_def)
  next
    case (6 ep' enc' result l1)
    with step other have "l' = l" by (cases result) (auto split: option.splits)
    then show ?thesis by (intro forwards_host[OF st]) (simp_all add: forwarder_def)
  next
    case (8 ep' enc' l1)
    with step have "l' = l" by (auto split: if_splits)
    then show ?thesis by (intro forwards_host[OF st]) (simp_all add: forwarder_def)
  qed (use step in auto)
  with other show ?thesis by auto
qed

lemma forwards_run:
  "forwards enc w server past got log l \<Longrightarrow> loop_run ep enc evs l = (Continue, l') \<Longrightarrow>
   lp_incoming l = new @ lp_incoming l' \<Longrightarrow>
   \<exists>log'. forwards enc w server (past @ evs) (got @ new) log' l' \<and>
     length log' = length log + length (filter is_dns_read evs)"
proof (induction evs arbitrary: past got log l new)
  case Nil
  then show ?case by (intro exI[of _ log]) simp
next
  case (Cons ev evs)
  obtain r l1 where step: "loop_step ep enc ev l = (r, l1)" by (cases "loop_step ep enc ev l")
  with Cons.prems(2) have run: "r \<in> {Continue, NotReady}" "loop_run ep enc evs l1 = (Continue, l')"
    by (auto simp: loop_run_step simp del: loop_step.simps split: if_splits)
  obtain new1 new2 where n: "lp_incoming l = new1 @ lp_incoming l1" "lp_incoming l1 = new2 @ lp_incoming l'"
    using loop_step_incoming[of l ep enc ev] loop_run_incoming[of l1 ep enc evs] step run(2) by auto
  then have new: "new = new1 @ new2" using Cons.prems(3) by simp
  obtain log1 where log1: "forwards enc w server (past @ [ev]) (got @ new1) log1 l1"
    "length log1 = (if is_dns_read ev then Suc (length log) else length log)"
    using forwards_step[OF Cons.prems(1) step run(1) n(1)] by blast
  from Cons.IH[OF log1(1) run(2) n(2)] log1(2) new show ?case by auto
qed

text \<open>Every datagram sent to a client answers a query of that client that was given to the remote.\<close>

lemma dns_run:
  assumes "loop_run ep enc evs \<lparr>lp_host = initial_host (Some (dns_new server)), lp_incoming = incoming,
      lp_writer = w, lp_tun = []\<rparr> = (Continue, l)"
  shows "\<exists>got log d sent. incoming = got @ lp_incoming l \<and> length log = length (filter is_dns_read evs) \<and>
    asked_of evs log \<and> dns_state (lp_host l) = Some d \<and> served got log d \<and>
    wrote enc w sent (lp_writer l) \<and> logged server log sent"
proof -
  let ?l = "\<lparr>lp_host = initial_host (Some (dns_new server)), lp_incoming = incoming, lp_writer = w, lp_tun = []\<rparr>"
  have "forwards enc w server [] [] [] ?l"
    by (auto simp: forwards_def asked_of_def served_def initial_host_def dns_new_def new_chan_def
        intro!: exI[of _ "[]"] wrote_Nil)
  moreover obtain got where "incoming = got @ lp_incoming l"
    using loop_run_incoming[of ?l ep enc evs] assms by auto
  ultimately show ?thesis
    using forwards_run[of enc w server "[]" "[]" "[]" ?l ep evs l got] assms
    by (auto simp: forwards_def)
qed

end
