(* ===== verification/Host_Datagrams.thy ===== *)
theory Host_Datagrams
  imports Host_Loop Host_Channels
begin

text \<open>
  UDP through the whole loop: what goes to the remote is what applications have sent, and what
  an application gets comes from an address and port that it has itself sent to.
\<close>

section \<open>Datagrams among packets and messages\<close>

definition datagram_in :: "etherparse \<Rightarrow> bytes \<Rightarrow> UdpPacketInfo option" where
  "datagram_in ep pkt = (case parse_ip_packet ep pkt of Ok (Udp u) \<Rightarrow> Some u | _ \<Rightarrow> None)"

definition datagrams :: "etherparse \<Rightarrow> bytes list \<Rightarrow> UdpPacketInfo list" where
  "datagrams ep pkts = List.map_filter (datagram_in ep) pkts"

lemma datagrams_simps [simp]:
  "datagrams ep [] = []" "datagrams ep (xs @ ys) = datagrams ep xs @ datagrams ep ys"
  "datagrams ep (p # xs) = (case datagram_in ep p of None \<Rightarrow> [] | Some u \<Rightarrow> [u]) @ datagrams ep xs"
  by (simp_all add: datagrams_def List.map_filter_def split: option.split)

fun is_datagram :: "HostMessage \<Rightarrow> bool" where
  "is_datagram (UdpDatagram src_port ip port data) = True"
| "is_datagram _ = False"

section \<open>The TCP handlers do not touch them\<close>

definition apart :: "etherparse \<Rightarrow> UdpPacketInfo list \<Rightarrow> HostMessage list \<Rightarrow> Host \<Rightarrow> bool" where
  "apart ep us ms s \<longleftrightarrow>
     datagrams ep (ch_queue (to_tun s)) = us \<and> filter is_datagram (ch_queue (to_remote s)) = ms"

lemma apart_invariant:
  assumes "etherparse_laws ep"
  shows "tcp_channels_syn (apart ep us ms) ep (\<lambda>_. True)"
proof
  fix m :: HostMessage
  assume "plain m"
  then show "keeps True (apart ep us ms) (send_remote m)"
    by (cases m) (auto simp: keeps_def apart_def send_remote_def chan_send_def split: send_result.splits if_splits)
next
  fix key p sq ak flags win pkt
  assume "tcp_build ep (reply_packet key sq ak flags win p) = Ok pkt"
  then have "datagram_in ep pkt = None"
    using etherparse_laws.tcp_built[OF assms, of "reply_packet key sq ak flags win p" pkt] by (simp add: datagram_in_def)
  then show "keeps True (apart ep us ms) (send_tun pkt)"
    by (auto simp: keeps_def apart_def send_tun_def chan_send_def split: send_result.splits if_splits)
qed (auto simp: apart_def keeps_def send_remote_def chan_send_def split: send_result.splits if_splits)

lemmas apart_segment = tcp_channels_syn.any_segment[OF apart_invariant]
lemmas apart_message = tcp_channels.connection_message[OF tcp_channels_syn.axioms(1)[OF apart_invariant]]

text \<open>Nor do they touch the return addresses.\<close>

interpretation mapped: table_invariant "\<lambda>t. udp_mappings t = m" k j for m k j
  by unfold_locales (simp_all add: nat_simps)

lemma mapped_segment:
  "udp_mappings (nat_table (snd (handle_outbound_tcp ep tcp s))) = udp_mappings (nat_table s)"
proof (cases "is_syn tcp")
  case True
  then show ?thesis
    by (auto simp: handle_outbound_tcp_def is_syn_def Let_def outbound_syn_def split_beta send_remote_def
        nat_simps split: send_result.split)
next
  case False
  have "keeps True (on_table (\<lambda>t. udp_mappings t = m)) (outbound_known ep (tcp_key tcp) j tcp)" for j m
    by (rule mapped.keeps_known) (simp add: panics_ok_def)
  then have "keeps True (on_table (\<lambda>t. udp_mappings t = m)) (handle_outbound_tcp ep tcp)" for m
    using False by (auto simp: handle_outbound_tcp_def is_syn_def Let_def intro!: keeps_intros split: option.split)
  from keepsD[OF this, of "udp_mappings (nat_table s)" s] show ?thesis by (simp add: on_table_def)
qed

lemma mapped_message:
  "udp_mappings (nat_table (snd (handle_remote_message ep msg s))) = udp_mappings (nat_table s)"
proof -
  have pk: "panics_ok True ep k" for k by (simp add: panics_ok_def)
  have "keeps True (on_table (\<lambda>t. udp_mappings t = m)) (handle_remote_message ep msg)" for m
    by (cases msg)
       (auto simp: for_key_def remote_udp_response_def split: option.split
         intro!: keeps_intros keeps_dns_response pk mapped.keeps_connected
           mapped.keeps_data mapped.keeps_closed mapped.keeps_error)
  from keepsD[OF this, of "udp_mappings (nat_table s)" s] show ?thesis by (simp add: on_table_def)
qed

section \<open>The invariant\<close>

text \<open>An application has sent the datagram \<open>u\<close>.\<close>

definition app_sent :: "etherparse \<Rightarrow> loop_event list \<Rightarrow> UdpPacketInfo \<Rightarrow> bool" where
  "app_sent ep evs u \<longleftrightarrow>
     (\<exists>clock raw. TunRead clock (Inr raw) \<in> set evs \<and> parse_ip_packet ep (take 65536 raw) = Ok (Udp u))"

definition addressed :: "etherparse \<Rightarrow> loop_event list \<Rightarrow> IpAddr \<Rightarrow> u16 \<Rightarrow> IpAddr \<Rightarrow> u16 \<Rightarrow> bool" where
  "addressed ep evs a p b q \<longleftrightarrow>
     (\<exists>u. app_sent ep evs u \<and> udp_src_ip u = a \<and> udp_src_port u = p \<and> udp_dst_ip u = b \<and> udp_dst_port u = q)"

definition known :: "etherparse \<Rightarrow> loop_event list \<Rightarrow> NatTable \<Rightarrow> bool" where
  "known ep evs t \<longleftrightarrow> (\<forall>p b q m. udp_mappings t (p, b, q) = Some m \<longrightarrow> addressed ep evs (map_src_ip m) p b q)"

definition solicited ::
  "etherparse \<Rightarrow> loop_event list \<Rightarrow> (protocol_error + RemoteMessage option) list \<Rightarrow> UdpPacketInfo \<Rightarrow> bool"
where
  "solicited ep evs got x \<longleftrightarrow> addressed ep evs (udp_dst_ip x) (udp_dst_port x) (udp_src_ip x) (udp_src_port x) \<and>
     Inr (Some (UdpResponse (udp_dst_port x) (udp_src_ip x) (udp_src_port x) (udp_payload x))) \<in> set got"

definition passed_on :: "etherparse \<Rightarrow> loop_event list \<Rightarrow> HostMessage list \<Rightarrow> bool" where
  "passed_on ep evs ms \<longleftrightarrow> (\<forall>p b q d. UdpDatagram p b q d \<in> set ms \<longrightarrow>
     (\<exists>u. app_sent ep evs u \<and> udp_src_port u = p \<and> udp_dst_ip u = b \<and> udp_dst_port u = q \<and> udp_payload u = d))"

lemma passed_on_simps [simp]:
  "passed_on ep evs []" "passed_on ep evs (xs @ ys) \<longleftrightarrow> passed_on ep evs xs \<and> passed_on ep evs ys"
  by (auto simp: passed_on_def)

lemma passed_on_filter: "passed_on ep evs (filter is_datagram ms) \<longleftrightarrow> passed_on ep evs ms"
  by (auto simp: passed_on_def)

lemma app_sent_more: "app_sent ep evs u \<Longrightarrow> app_sent ep (evs @ [ev]) u"
  by (auto simp: app_sent_def)

lemma addressed_more: "addressed ep evs a p b q \<Longrightarrow> addressed ep (evs @ [ev]) a p b q"
  using app_sent_more unfolding addressed_def by blast

lemma known_more: "known ep evs t \<Longrightarrow> udp_mappings t' = udp_mappings t \<Longrightarrow> known ep (evs @ [ev]) t'"
  using addressed_more by (auto simp: known_def)

lemma solicited_more: "solicited ep evs got x \<Longrightarrow> solicited ep (evs @ [ev]) (got @ new) x"
  using addressed_more by (auto simp: solicited_def)

lemma passed_on_more: "passed_on ep evs ms \<Longrightarrow> passed_on ep (evs @ [ev]) ms"
  unfolding passed_on_def using app_sent_more by meson

definition exchanges ::
  "etherparse \<Rightarrow> (HostMessage \<Rightarrow> string + bytes) \<Rightarrow> writer \<Rightarrow> loop_event list \<Rightarrow>
   (protocol_error + RemoteMessage option) list \<Rightarrow> Loop \<Rightarrow> bool"
where
  "exchanges ep enc w evs got l \<longleftrightarrow> known ep evs (nat_table (lp_host l)) \<and>
     (\<forall>x\<in>set (datagrams ep (lp_tun l @ ch_queue (to_tun (lp_host l)))). solicited ep evs got x) \<and>
     (\<exists>sent. wrote enc w sent (lp_writer l) \<and> passed_on ep evs (sent @ ch_queue (to_remote (lp_host l))))"

text \<open>What an iteration may do.\<close>

lemma exchanges_step:
  assumes st: "exchanges ep enc w evs got l"
    and tab: "known ep (evs @ [ev]) (nat_table (lp_host l'))"
    and tun: "\<And>x. x \<in> set (datagrams ep (lp_tun l' @ ch_queue (to_tun (lp_host l')))) \<Longrightarrow>
      x \<in> set (datagrams ep (lp_tun l @ ch_queue (to_tun (lp_host l)))) \<or> solicited ep (evs @ [ev]) (got @ new) x"
    and rem: "lp_writer l' = lp_writer l" "passed_on ep (evs @ [ev]) (ch_queue (to_remote (lp_host l)))
      \<Longrightarrow> passed_on ep (evs @ [ev]) (ch_queue (to_remote (lp_host l')))"
  shows "exchanges ep enc w (evs @ [ev]) (got @ new) l'"
proof -
  obtain sent where sent: "wrote enc w sent (lp_writer l)" "passed_on ep evs sent"
    "passed_on ep evs (ch_queue (to_remote (lp_host l)))"
    using st by (auto simp: exchanges_def)
  have "passed_on ep (evs @ [ev]) (sent @ ch_queue (to_remote (lp_host l')))"
    using sent(2,3) rem(2) passed_on_more by simp
  moreover have "solicited ep (evs @ [ev]) (got @ new) x"
    if "x \<in> set (datagrams ep (lp_tun l' @ ch_queue (to_tun (lp_host l'))))" for x
    using tun[OF that] st solicited_more by (auto simp: exchanges_def)
  ultimately show ?thesis using tab sent(1) rem(1) by (auto simp: exchanges_def)
qed

text \<open>Without any of this, for instance in a handler of TCP.\<close>

lemma exchanges_apart:
  assumes st: "exchanges ep enc w evs got l"
    and "apart ep (datagrams ep (ch_queue (to_tun (lp_host l)))) (filter is_datagram (ch_queue (to_remote (lp_host l)))) (lp_host l')"
    and "udp_mappings (nat_table (lp_host l')) = udp_mappings (nat_table (lp_host l))"
    and "lp_tun l' = lp_tun l" "lp_writer l' = lp_writer l"
  shows "exchanges ep enc w (evs @ [ev]) (got @ new) l'"
proof (rule exchanges_step[OF st])
  show "known ep (evs @ [ev]) (nat_table (lp_host l'))"
    using st assms(3) known_more by (auto simp: exchanges_def)
  show "passed_on ep (evs @ [ev]) (ch_queue (to_remote (lp_host l)))
      \<Longrightarrow> passed_on ep (evs @ [ev]) (ch_queue (to_remote (lp_host l')))"
    using assms(2) passed_on_filter by (metis apart_def)
qed (use assms in \<open>auto simp: apart_def\<close>)

section \<open>One iteration\<close>

lemma exchanges_packet:
  assumes laws: "etherparse_laws ep" and st: "exchanges ep enc w evs got l"
    and l': "l' = l\<lparr>lp_host := snd (handle_tun_packet ep clock (take 65536 raw) (lp_host l))\<rparr>"
  shows "exchanges ep enc w (evs @ [TunRead clock (Inr raw)]) (got @ new) l'"
proof -
  let ?s = "lp_host l" and ?evs = "evs @ [TunRead clock (Inr raw)]"
  have quiet: ?thesis if "snd (handle_tun_packet ep clock (take 65536 raw) ?s) = ?s"
    by (rule exchanges_apart[OF st]) (simp_all add: l' that apart_def)
  show ?thesis
  proof (cases "parse_ip_packet ep (take 65536 raw)")
    case (Ok pkt)
    show ?thesis
    proof (cases pkt)
      case (Tcp tcp)
      with Ok have h: "handle_tun_packet ep clock (take 65536 raw) ?s = handle_outbound_tcp ep tcp ?s"
        by (simp add: handle_tun_packet_def)
      show ?thesis
        by (rule exchanges_apart[OF st])
           (simp_all add: l' h mapped_segment apart_segment[OF laws] apart_def[of ep _ _ ?s])
    next
      case (Udp u)
      let ?t = "track_udp clock (udp_src_ip u) (udp_src_port u) (udp_dst_ip u) (udp_dst_port u) (nat_table ?s)"
      let ?m = "UdpDatagram (udp_src_port u) (udp_dst_ip u) (udp_dst_port u) (udp_payload u)"
      have app: "app_sent ep ?evs u" using Ok Udp unfolding app_sent_def by (intro exI[of _ clock] exI[of _ raw]) simp
      have h: "nat_table (lp_host l') = ?t" "to_tun (lp_host l') = to_tun ?s"
        "ch_queue (to_remote (lp_host l')) = ch_queue (to_remote ?s) \<or>
         ch_queue (to_remote (lp_host l')) = ch_queue (to_remote ?s) @ [?m]"
        using Ok Udp by (auto simp: l' handle_tun_packet_def handle_outbound_udp_def upd_nat_def send_remote_def
            chan_send_def split: send_result.splits if_splits)
      have "known ep evs (nat_table ?s)" using st by (simp add: exchanges_def)
      then have "known ep ?evs (nat_table ?s)" by (rule known_more) simp
      moreover have "addressed ep ?evs (udp_src_ip u) (udp_src_port u) (udp_dst_ip u) (udp_dst_port u)"
        using app by (auto simp: addressed_def)
      ultimately have tab: "known ep ?evs ?t"
        by (auto simp: known_def track_udp_def cleanup_udp_mappings_def split: option.splits if_splits)
      have "passed_on ep ?evs [?m]" using app by (auto simp: passed_on_def)
      with h tab show ?thesis by (intro exchanges_step[OF st]) (auto simp: l')
    qed (use Ok quiet in \<open>simp add: handle_tun_packet_def\<close>)
  qed (use quiet in \<open>simp_all add: handle_tun_packet_def\<close>)
qed

lemma exchanges_message:
  assumes laws: "etherparse_laws ep" and st: "exchanges ep enc w evs got l"
    and l': "l' = l\<lparr>lp_host := snd (handle_remote_message ep msg (lp_host l)), lp_incoming := rest\<rparr>"
  shows "exchanges ep enc w (evs @ [RemoteRecv]) (got @ [Inr (Some msg)]) l'"
proof (cases "\<exists>p b q d. msg = UdpResponse p b q d")
  case True
  then obtain p b q d where msg: "msg = UdpResponse p b q d" by blast
  let ?s = "lp_host l" and ?evs = "evs @ [RemoteRecv]"
  have known: "known ep evs (nat_table ?s)" using st by (simp add: exchanges_def)
  show ?thesis
  proof (rule exchanges_step[OF st])
    show "known ep ?evs (nat_table (lp_host l'))"
      using known by (rule known_more) (simp add: l' mapped_message)
    show "passed_on ep ?evs (ch_queue (to_remote ?s)) \<Longrightarrow> passed_on ep ?evs (ch_queue (to_remote (lp_host l')))"
      by (auto simp: l' msg remote_udp_response_def with_state_def with_built_def send_tun_def
          split: option.splits outcome.splits send_result.splits)
    fix x
    assume x: "x \<in> set (datagrams ep (lp_tun l' @ ch_queue (to_tun (lp_host l'))))"
    show "x \<in> set (datagrams ep (lp_tun l @ ch_queue (to_tun ?s))) \<or> solicited ep ?evs (got @ [Inr (Some msg)]) x"
    proof (rule disjCI)
      assume new: "\<not> solicited ep ?evs (got @ [Inr (Some msg)]) x"
      have "False" if pkt: "get_udp_src_ip p b q (nat_table ?s) = Some a"
        "udp_build ep \<lparr>up_src_ip = b, up_dst_ip = a, up_src_port = q, up_dst_port = p, up_payload = d\<rparr> = Ok pkt"
        "datagram_in ep pkt = Some x" for a pkt
      proof -
        have "parse_ip_packet ep pkt = Ok (Udp \<lparr>udp_src_ip = b, udp_dst_ip = a, udp_src_port = q, udp_dst_port = p, udp_payload = d\<rparr>)"
          using etherparse_laws.udp_built[OF laws pkt(2)] by (simp add: udp_info_of_def)
        with pkt(3) have "x = \<lparr>udp_src_ip = b, udp_dst_ip = a, udp_src_port = q, udp_dst_port = p, udp_payload = d\<rparr>"
          by (simp add: datagram_in_def)
        moreover have "addressed ep evs a p b q" using known pkt(1) by (auto simp: known_def get_udp_src_ip_def)
        ultimately show False using new addressed_more msg by (auto simp: solicited_def)
      qed
      with x show "x \<in> set (datagrams ep (lp_tun l @ ch_queue (to_tun ?s)))"
        by (fastforce simp: l' msg remote_udp_response_def with_state_def with_built_def send_tun_def chan_send_def
            split: option.splits outcome.splits send_result.splits if_splits)
    qed
  qed (simp_all add: l')
next
  case other: False
  have "apart ep (datagrams ep (ch_queue (to_tun (lp_host l)))) (filter is_datagram (ch_queue (to_remote (lp_host l))))
      (snd (handle_remote_message ep msg (lp_host l)))"
  proof (cases "message_id msg")
    case None
    with other show ?thesis
      by (cases msg) (auto simp: apart_def remote_dns_response_def split: option.split)
  next
    case (Some i)
    then show ?thesis by (intro apart_message[OF laws, of _ _ _ _ i]) (simp_all add: apart_def)
  qed
  then show ?thesis by (intro exchanges_apart[OF st]) (simp_all add: l' mapped_message)
qed

lemma exchanges_write:
  assumes st: "exchanges ep enc w evs got l" and q: "ch_queue (to_remote (lp_host l)) = m # ms"
    and wm: "write_message enc m (lp_writer l) = (Inr (), w')"
    and l': "l' = l\<lparr>lp_host := (lp_host l)\<lparr>to_remote := (to_remote (lp_host l))\<lparr>ch_queue := ms\<rparr>\<rparr>, lp_writer := w'\<rparr>"
  shows "exchanges ep enc w (evs @ [ev]) (got @ new) l'"
proof -
  obtain sent where sent: "wrote enc w sent (lp_writer l)" "passed_on ep evs (sent @ [m] @ ms)"
    using st q by (auto simp: exchanges_def simp del: passed_on_simps)
  from wrote_snoc[OF sent(1) wm] passed_on_more[OF sent(2)]
  have "\<exists>sent. wrote enc w sent w' \<and> passed_on ep (evs @ [ev]) (sent @ ms)"
    by (intro exI[of _ "sent @ [m]"]) simp
  with st l' solicited_more known_more show ?thesis by (auto simp: exchanges_def)
qed

lemma exchanges_loop_step:
  assumes laws: "etherparse_laws ep" and st: "exchanges ep enc w evs got l"
    and step: "loop_step ep enc ev l = (r, l')" "r \<in> {Continue, NotReady}" and inc: "lp_incoming l = new @ lp_incoming l'"
  shows "exchanges ep enc w (evs @ [ev]) (got @ new) l'"
proof (cases "(ep, enc, ev, l)" rule: loop_step.cases)
  case (1 ep' enc' clock data l1)
  with step have "l' = l\<lparr>lp_host := snd (handle_tun_packet ep clock (take 65536 data) (lp_host l))\<rparr>"
    by (auto simp: run_handler_def split: prod.splits)
  with 1 exchanges_packet[OF laws st] show ?thesis by simp
next
  case (3 ep' enc' l1)
  with step obtain msg rest where msg: "lp_incoming l = Inr (Some msg) # rest"
    "l' = l\<lparr>lp_host := snd (handle_remote_message ep msg (lp_host l)), lp_incoming := rest\<rparr>"
    by (auto simp: run_handler_def split: list.splits sum.splits option.splits prod.splits)
  with inc have "new = [Inr (Some msg)]" by simp
  with 3 exchanges_message[OF laws st msg(2)] show ?thesis by simp
next
  case (4 ep' enc' l1)
  show ?thesis
  proof (cases "ch_queue (to_remote (lp_host l))")
    case Nil
    with 4 step(1) have "l' = l" by (auto simp: chan_recv_def)
    then show ?thesis by (intro exchanges_apart[OF st]) (simp_all add: apart_def)
  next
    case (Cons m ms)
    with 4 step obtain w' where "write_message enc m (lp_writer l) = (Inr (), w')"
      "l' = l\<lparr>lp_host := (lp_host l)\<lparr>to_remote := (to_remote (lp_host l))\<lparr>ch_queue := ms\<rparr>\<rparr>, lp_writer := w'\<rparr>"
      by (auto simp: chan_recv_def split: prod.splits sum.splits)
    with exchanges_write[OF st Cons] show ?thesis by blast
  qed
next
  case (5 ep' enc' failure l1)
  have "known ep evs (nat_table (lp_host l))" using st by (simp add: exchanges_def)
  then have "known ep (evs @ [ev]) (nat_table (lp_host l))" by (rule known_more) simp
  with 5 step show ?thesis
    by (intro exchanges_step[OF st]) (auto simp: chan_recv_def Let_def split: option.splits list.splits)
next
  case (6 ep' enc' result l1)
  have "apart ep (datagrams ep (ch_queue (to_tun (lp_host l)))) (filter is_datagram (ch_queue (to_remote (lp_host l)))) (lp_host l')"
    "nat_table (lp_host l') = nat_table (lp_host l)" "lp_tun l' = lp_tun l" "lp_writer l' = lp_writer l"
    using step 6 by (auto simp: apart_def handle_query_def chan_send_def Let_def
        split: option.splits sum.splits prod.splits send_result.splits if_splits)
  then show ?thesis by (intro exchanges_apart[OF st]) simp_all
next
  case (8 ep' enc' l1)
  with step have "l' = l" by (auto split: if_splits)
  then show ?thesis by (intro exchanges_apart[OF st]) (simp_all add: apart_def)
qed (use step in auto)

lemma exchanges_run:
  "etherparse_laws ep \<Longrightarrow> exchanges ep enc w past got l \<Longrightarrow> loop_run ep enc evs l = (Continue, l') \<Longrightarrow>
   lp_incoming l = new @ lp_incoming l' \<Longrightarrow> exchanges ep enc w (past @ evs) (got @ new) l'"
proof (induction evs arbitrary: past got l new)
  case Nil
  then show ?case by simp
next
  case (Cons ev evs)
  obtain r l1 where step: "loop_step ep enc ev l = (r, l1)" by (cases "loop_step ep enc ev l")
  with Cons.prems(3) have run: "r \<in> {Continue, NotReady}" "loop_run ep enc evs l1 = (Continue, l')"
    by (auto simp: loop_run_step simp del: loop_step.simps split: if_splits)
  obtain new1 new2 where n: "lp_incoming l = new1 @ lp_incoming l1" "lp_incoming l1 = new2 @ lp_incoming l'"
    using loop_step_incoming[of l ep enc ev] loop_run_incoming[of l1 ep enc evs] step run(2) by auto
  then have "new = new1 @ new2" using Cons.prems(4) by simp
  with Cons.IH[OF Cons.prems(1) exchanges_loop_step[OF Cons.prems(1,2) step run(1) n(1)] run(2) n(2)]
  show ?case by simp
qed

lemma datagrams_run:
  assumes "etherparse_laws ep" "loop_run ep enc evs \<lparr>lp_host = initial_host dns, lp_incoming = incoming,
      lp_writer = w, lp_tun = []\<rparr> = (Continue, l)"
  shows "\<exists>got sent. incoming = got @ lp_incoming l \<and>
    (\<forall>x\<in>set (datagrams ep (lp_tun l @ ch_queue (to_tun (lp_host l)))). solicited ep evs got x) \<and>
    wrote enc w sent (lp_writer l) \<and> passed_on ep evs sent"
proof -
  let ?l = "\<lparr>lp_host = initial_host dns, lp_incoming = incoming, lp_writer = w, lp_tun = []\<rparr>"
  have "exchanges ep enc w [] [] ?l"
    by (auto simp: exchanges_def known_def initial_host_def nat_new_def new_chan_def intro!: exI[of _ "[]"] wrote_Nil)
  moreover obtain got where "incoming = got @ lp_incoming l"
    using loop_run_incoming[of ?l ep enc evs] assms(2) by auto
  ultimately show ?thesis
    using exchanges_run[OF assms(1), of enc w "[]" "[]" ?l evs l got] assms(2)
    by (auto simp: exchanges_def)
qed

end
