(* ===== verification/Remote.thy ===== *)
theory Remote
  imports Protocol
begin

text \<open>
  \<open>src/src/remote/mod.rs\<close> and \<open>src/src/remote/proxy.rs\<close>: the proxy on the remote side.
  It is a main task (\<open>RemoteProxy::run\<close>) and a task per connection, datagram and DNS query,
  which share the map of connections, the response channel and the \<open>running\<close> flag. A step is
  what a task does between two points where it can wait; a run is any sequence of steps, each
  named with its task and with what the network answers.
\<close>

section \<open>State\<close>

text \<open>
  A connection task, where it stands: connecting; about to report a failure or the success;
  about to insert its channel into the map; at the top of its relay loop; in the \<open>select!\<close>;
  writing data to the destination; sending data or an error to the host; about to send
  \<open>TcpClosed\<close>; about to remove itself from the map; ended.
\<close>

datatype conn_phase =
    Connecting IpAddr u16
  | ConnectFailed string
  | Announcing
  | Inserting
  | LoopTop
  | Selecting
  | Writing bytes
  | SendingData bytes
  | SendingError string
  | Closing
  | Removing
  | Ended

text \<open>
  \<open>ct_rx\<close> is the channel of 256 places whose sender is the \<open>TcpConnectionHandle\<close> in the map;
  \<open>ct_open\<close> says that the sender has not been dropped. \<open>ct_out\<close> is what was written to the
  destination. The last three fields are histories, which no step reads: the data the main task
  has put on the channel, the bytes read from the destination, the messages sent to the host.
\<close>

record conn_task =
  ct_id :: u32
  ct_phase :: conn_phase
  ct_rx :: "bytes list"
  ct_open :: bool
  ct_out :: bytes
  ct_accepted :: "bytes list"
  ct_read :: bytes
  ct_sent :: "RemoteMessage list"

text \<open>A datagram task, for a UDP datagram or a DNS query, and the answer it is going to send.\<close>

datatype udp_purpose = ForDatagram u16 | ForDns u32

datatype udp_phase = AwaitReply | SendingReply RemoteMessage | UdpEnded

record udp_task =
  ut_purpose :: udp_purpose
  ut_dst_ip :: IpAddr
  ut_dst_port :: u16
  ut_data :: bytes
  ut_phase :: udp_phase

text \<open>
  The main task: in its \<open>select!\<close>; in \<open>handle_tcp_data\<close>, waiting to put data on the channel of
  a task while it holds a reference into the map; waiting there for \<open>remove\<close>; returned.
\<close>

datatype main_phase = MainSelect | MainSend u32 nat bytes | MainRemove u32 | MainReturned

record RemoteProxy =
  tcp_connections :: "u32 \<rightharpoonup> nat"
  response :: "RemoteMessage chan"
  running :: bool
  main_phase :: main_phase
  inbox :: "(protocol_error + HostMessage option) list"
  rp_writer :: writer
  conn_tasks :: "conn_task list"
  udp_tasks :: "udp_task list"

definition remote_new ::
  "(protocol_error + HostMessage option) list \<Rightarrow> writer \<Rightarrow> RemoteProxy"
where
  "remote_new msgs w =
     \<lparr>tcp_connections = Map.empty, response = new_chan 1024, running = True,
      main_phase = MainSelect, inbox = msgs, rp_writer = w, conn_tasks = [], udp_tasks = []\<rparr>"

text \<open>
  \<open>run\<close> writes \<open>Ready\<close> first and returns the error if that fails. \<open>from_bytes\<close> reads the
  host's messages, which a reader task delivers one by one.
\<close>

definition remote_start ::
  "(RemoteMessage \<Rightarrow> string + bytes) \<Rightarrow> (bytes \<Rightarrow> string + HostMessage) \<Rightarrow> reader \<Rightarrow> writer \<Rightarrow>
   protocol_error + RemoteProxy"
where
  "remote_start to_allocvec from_bytes rd w =
     (case write_message to_allocvec Ready w of
        (Inl e, _) \<Rightarrow> Inl e
      | (Inr _, w') \<Rightarrow> Inr (remote_new (read_loop from_bytes rd) w'))"

section \<open>The main task\<close>

text \<open>\<open>if !self.running { break; }\<close> at the end of an iteration.\<close>

definition iteration_end :: "RemoteProxy \<Rightarrow> RemoteProxy" where
  "iteration_end s = s\<lparr>main_phase := (if running s then MainSelect else MainReturned)\<rparr>"

definition break_loop :: "RemoteProxy \<Rightarrow> RemoteProxy" where
  "break_loop s = s\<lparr>main_phase := MainReturned, running := False\<rparr>"

definition update_task :: "nat \<Rightarrow> (conn_task \<Rightarrow> conn_task) \<Rightarrow> RemoteProxy \<Rightarrow> RemoteProxy" where
  "update_task k f s = s\<lparr>conn_tasks := (conn_tasks s)[k := f (conn_tasks s ! k)]\<rparr>"

text \<open>
  \<open>connections.remove(&id)\<close>: the handle is dropped, which closes the channel of its task.
\<close>

definition remove_connection :: "u32 \<Rightarrow> RemoteProxy \<Rightarrow> RemoteProxy" where
  "remove_connection i s =
     (case tcp_connections s i of
        None \<Rightarrow> s
      | Some k \<Rightarrow> update_task k (\<lambda>t. t\<lparr>ct_open := False\<rparr>)
                   (s\<lparr>tcp_connections := (tcp_connections s)(i := None)\<rparr>))"

text \<open>\<open>connections.insert(id, handle)\<close> drops the handle it replaces.\<close>

definition insert_connection :: "u32 \<Rightarrow> nat \<Rightarrow> RemoteProxy \<Rightarrow> RemoteProxy" where
  "insert_connection i k s =
     (let s1 = remove_connection i s
      in update_task k (\<lambda>t. t\<lparr>ct_open := True\<rparr>)
           (s1\<lparr>tcp_connections := (tcp_connections s1)(i \<mapsto> k)\<rparr>))"

definition handle_tcp_connect :: "u32 \<Rightarrow> IpAddr \<Rightarrow> u16 \<Rightarrow> RemoteProxy \<Rightarrow> RemoteProxy" where
  "handle_tcp_connect i dst_ip dst_port s =
     s\<lparr>conn_tasks := conn_tasks s @
       [\<lparr>ct_id = i, ct_phase = Connecting dst_ip dst_port, ct_rx = [], ct_open = False,
         ct_out = [], ct_accepted = [], ct_read = [], ct_sent = []\<rparr>]\<rparr>"

definition handle_tcp_data :: "u32 \<Rightarrow> bytes \<Rightarrow> RemoteProxy \<Rightarrow> RemoteProxy" where
  "handle_tcp_data i data s =
     (case tcp_connections s i of
        Some k \<Rightarrow> s\<lparr>main_phase := MainSend i k data\<rparr>
      | None \<Rightarrow> iteration_end s)"

definition handle_tcp_close :: "u32 \<Rightarrow> RemoteProxy \<Rightarrow> RemoteProxy" where
  "handle_tcp_close i s = remove_connection i s"

definition spawn_udp :: "udp_purpose \<Rightarrow> IpAddr \<Rightarrow> u16 \<Rightarrow> bytes \<Rightarrow> RemoteProxy \<Rightarrow> RemoteProxy" where
  "spawn_udp purpose dst_ip dst_port data s =
     s\<lparr>udp_tasks := udp_tasks s @
       [\<lparr>ut_purpose = purpose, ut_dst_ip = dst_ip, ut_dst_port = dst_port, ut_data = data,
         ut_phase = AwaitReply\<rparr>]\<rparr>"

text \<open>The DNS server is asked on port 53.\<close>

fun handle_host_message :: "HostMessage \<Rightarrow> RemoteProxy \<Rightarrow> RemoteProxy" where
  "handle_host_message (TcpConnect i dst_ip dst_port) s =
     iteration_end (handle_tcp_connect i dst_ip dst_port s)"
| "handle_host_message (HostMessage.TcpData i data) s = handle_tcp_data i data s"
| "handle_host_message (TcpClose i) s = iteration_end (handle_tcp_close i s)"
| "handle_host_message (UdpDatagram src_port dst_ip dst_port data) s =
     iteration_end (spawn_udp (ForDatagram src_port) dst_ip dst_port data s)"
| "handle_host_message (DnsQuery i server data) s =
     iteration_end (spawn_udp (ForDns i) server 53 data s)"
| "handle_host_message Shutdown s = iteration_end (s\<lparr>running := False\<rparr>)"

text \<open>
  The steps of the main task; \<open>None\<close>: it waits. \<open>inbox\<close> is what the reader task will deliver in
  the course of the run: \<open>recv\<close> waits until the next result is there, which is a schedule that
  takes other steps first; \<open>main_recv\<close> is the arm when it is ready. In \<open>handle_tcp_data\<close> the data goes on the
  channel when there is a place, and the \<open>send\<close> fails once the task has dropped its receiver.
  Then \<open>remove\<close> is called while the reference \<open>conn\<close> into the same shard of the map is still
  alive, and never returns.
\<close>

definition receiver_dropped :: "conn_task \<Rightarrow> bool" where
  "receiver_dropped t \<longleftrightarrow> ct_phase t = Removing \<or> ct_phase t = Ended"

definition main_recv :: "RemoteProxy \<Rightarrow> RemoteProxy option" where
  "main_recv s =
     (if main_phase s \<noteq> MainSelect then None
      else case inbox s of
        [] \<Rightarrow> Some (break_loop s)
      | Inr (Some msg) # rest \<Rightarrow> Some (handle_host_message msg (s\<lparr>inbox := rest\<rparr>))
      | Inr None # rest \<Rightarrow> Some (break_loop (s\<lparr>inbox := rest\<rparr>))
      | Inl e # rest \<Rightarrow> Some (break_loop (s\<lparr>inbox := rest\<rparr>)))"

definition main_respond ::
  "(RemoteMessage \<Rightarrow> string + bytes) \<Rightarrow> RemoteProxy \<Rightarrow> RemoteProxy option"
where
  "main_respond to_allocvec s =
     (if main_phase s \<noteq> MainSelect then None
      else case chan_recv (response s) of
        None \<Rightarrow> None
      | Some (msg, ch) \<Rightarrow>
          (case write_message to_allocvec msg (rp_writer s) of
             (Inl e, w) \<Rightarrow> Some (break_loop (s\<lparr>response := ch, rp_writer := w\<rparr>))
           | (Inr _, w) \<Rightarrow> Some (iteration_end (s\<lparr>response := ch, rp_writer := w\<rparr>))))"

definition main_send :: "RemoteProxy \<Rightarrow> RemoteProxy option" where
  "main_send s =
     (case main_phase s of
        MainSend i k data \<Rightarrow>
          (if receiver_dropped (conn_tasks s ! k) then Some (s\<lparr>main_phase := MainRemove i\<rparr>)
           else if length (ct_rx (conn_tasks s ! k)) < 256
           then Some (iteration_end (update_task k
                  (\<lambda>t. t\<lparr>ct_rx := ct_rx t @ [data], ct_accepted := ct_accepted t @ [data]\<rparr>) s))
           else None)
      | _ \<Rightarrow> None)"

section \<open>The tasks\<close>

text \<open>
  The map's locks are per shard (\<open>shard\<close> is the hash function of \<open>DashMap\<close>): a task that
  inserts or removes waits while the main task holds a reference into the shard.
\<close>

fun shard_held :: "(u32 \<Rightarrow> nat) \<Rightarrow> main_phase \<Rightarrow> u32 \<Rightarrow> bool" where
  "shard_held shard (MainSend i k data) j \<longleftrightarrow> shard i = shard j"
| "shard_held shard (MainRemove i) j \<longleftrightarrow> shard i = shard j"
| "shard_held shard _ j \<longleftrightarrow> False"

text \<open>What the network answers to a connection task; \<open>Proceed\<close> needs no answer.\<close>

datatype conn_event =
    ConnectOk
  | ConnectErr string
  | Proceed
  | RxRecv
  | DestRead "string + bytes"
  | DestWritten
  | DestWriteErr nat string

text \<open>\<open>response_tx.send(msg).await\<close>, then the phase \<open>next\<close>; its result is ignored.\<close>

definition respond :: "nat \<Rightarrow> RemoteMessage \<Rightarrow> conn_phase \<Rightarrow> RemoteProxy \<Rightarrow> RemoteProxy option" where
  "respond k msg next s =
     (case chan_send msg (response s) of
        Sent ch \<Rightarrow> Some (update_task k (\<lambda>t. t\<lparr>ct_phase := next, ct_sent := ct_sent t @ [msg]\<rparr>)
                           (s\<lparr>response := ch\<rparr>))
      | SendClosed \<Rightarrow> Some (update_task k (\<lambda>t. t\<lparr>ct_phase := next\<rparr>) s)
      | SendFull \<Rightarrow> None)"

definition set_phase :: "conn_phase \<Rightarrow> conn_task \<Rightarrow> conn_task" where
  "set_phase p t = t\<lparr>ct_phase := p\<rparr>"

definition conn_step ::
  "(u32 \<Rightarrow> nat) \<Rightarrow> nat \<Rightarrow> conn_event \<Rightarrow> RemoteProxy \<Rightarrow> RemoteProxy option"
where
  "conn_step shard k ev s =
     (let t = conn_tasks s ! k; i = ct_id t in
      case ct_phase t of
        Connecting ip port \<Rightarrow>
          (case ev of
             ConnectOk \<Rightarrow> Some (update_task k (set_phase Announcing) s)
           | ConnectErr e \<Rightarrow> Some (update_task k (set_phase (ConnectFailed e)) s)
           | _ \<Rightarrow> None)
      | ConnectFailed e \<Rightarrow> (if ev = Proceed then respond k (TcpError i e) Ended s else None)
      | Announcing \<Rightarrow> (if ev = Proceed then respond k (TcpConnected i) Inserting s else None)
      | Inserting \<Rightarrow>
          (if ev = Proceed \<and> \<not> shard_held shard (main_phase s) i
           then Some (update_task k (set_phase LoopTop) (insert_connection i k s)) else None)
      | LoopTop \<Rightarrow>
          (if ev = Proceed
           then Some (update_task k (set_phase (if running s then Selecting else Closing)) s) else None)
      | Selecting \<Rightarrow>
          (case ev of
             RxRecv \<Rightarrow>
               (case ct_rx t of
                  data # rest \<Rightarrow> Some (update_task k (\<lambda>t. t\<lparr>ct_rx := rest, ct_phase := Writing data\<rparr>) s)
                | [] \<Rightarrow> if ct_open t then None else Some (update_task k (set_phase Closing) s))
           | DestRead (Inr bs) \<Rightarrow>
               (if bs = [] then Some (update_task k (set_phase Closing) s)
                else Some (update_task k
                  (\<lambda>t. t\<lparr>ct_read := ct_read t @ take 65536 bs, ct_phase := SendingData (take 65536 bs)\<rparr>) s))
           | DestRead (Inl e) \<Rightarrow> Some (update_task k (set_phase (SendingError e)) s)
           | _ \<Rightarrow> None)
      | Writing data \<Rightarrow>
          (case ev of
             DestWritten \<Rightarrow>
               Some (update_task k (\<lambda>t. t\<lparr>ct_out := ct_out t @ data, ct_phase := LoopTop\<rparr>) s)
           | DestWriteErr n e \<Rightarrow>
               Some (update_task k (\<lambda>t. t\<lparr>ct_out := ct_out t @ take n data, ct_phase := SendingError e\<rparr>) s)
           | _ \<Rightarrow> None)
      | SendingData bs \<Rightarrow>
          (if ev \<noteq> Proceed then None
           else if ch_closed (response s) then Some (update_task k (set_phase Closing) s)
           else respond k (RemoteMessage.TcpData i bs) LoopTop s)
      | SendingError e \<Rightarrow> (if ev = Proceed then respond k (TcpError i e) Closing s else None)
      | Closing \<Rightarrow> (if ev = Proceed then respond k (TcpClosed i) Removing s else None)
      | Removing \<Rightarrow>
          (if ev = Proceed \<and> \<not> shard_held shard (main_phase s) i
           then Some (update_task k (set_phase Ended) (remove_connection i s)) else None)
      | Ended \<Rightarrow> None)"

text \<open>
  A datagram task: an error of its socket ends it, as does the timeout of five seconds; the
  first datagram that arrives is the answer, whoever sent it. The buffer holds 65536 bytes.
\<close>

datatype udp_event = SocketErr string | Reply IpAddr u16 bytes | Timeout | SendReply

fun udp_message :: "udp_purpose \<Rightarrow> IpAddr \<Rightarrow> u16 \<Rightarrow> bytes \<Rightarrow> RemoteMessage" where
  "udp_message (ForDatagram src_port) ip port data = UdpResponse src_port ip port data"
| "udp_message (ForDns i) ip port data = DnsResponse i data"

definition update_udp :: "nat \<Rightarrow> udp_phase \<Rightarrow> RemoteProxy \<Rightarrow> RemoteProxy" where
  "update_udp k p s = s\<lparr>udp_tasks := (udp_tasks s)[k := (udp_tasks s ! k)\<lparr>ut_phase := p\<rparr>]\<rparr>"

fun udp_task_step :: "nat \<Rightarrow> udp_phase \<Rightarrow> udp_event \<Rightarrow> RemoteProxy \<Rightarrow> RemoteProxy option" where
  "udp_task_step k AwaitReply (SocketErr e) s = Some (update_udp k UdpEnded s)"
| "udp_task_step k AwaitReply Timeout s = Some (update_udp k UdpEnded s)"
| "udp_task_step k AwaitReply (Reply ip port data) s =
     Some (update_udp k (SendingReply
       (udp_message (ut_purpose (udp_tasks s ! k)) ip port (take 65536 data))) s)"
| "udp_task_step k (SendingReply msg) SendReply s =
     (case chan_send msg (response s) of
        Sent ch \<Rightarrow> Some (update_udp k UdpEnded (s\<lparr>response := ch\<rparr>))
      | SendClosed \<Rightarrow> Some (update_udp k UdpEnded s)
      | SendFull \<Rightarrow> None)"
| "udp_task_step k _ _ s = None"

section \<open>Runs\<close>

datatype remote_event = MainRecv | MainRespond | MainPush | Conn nat conn_event | Datagram nat udp_event

text \<open>
  When \<open>run\<close> has returned, \<open>main\<close> returns, the runtime is dropped and the process ends, and with
  it every task: there are no steps after that.
\<close>

fun remote_step ::
  "(u32 \<Rightarrow> nat) \<Rightarrow> (RemoteMessage \<Rightarrow> string + bytes) \<Rightarrow> remote_event \<Rightarrow> RemoteProxy \<Rightarrow> RemoteProxy option"
where
  "remote_step shard to_allocvec MainRecv s = main_recv s"
| "remote_step shard to_allocvec MainRespond s = main_respond to_allocvec s"
| "remote_step shard to_allocvec MainPush s = main_send s"
| "remote_step shard to_allocvec (Conn k ev) s =
     (if main_phase s \<noteq> MainReturned \<and> k < length (conn_tasks s)
      then conn_step shard k ev s else None)"
| "remote_step shard to_allocvec (Datagram k ev) s =
     (if main_phase s \<noteq> MainReturned \<and> k < length (udp_tasks s)
      then udp_task_step k (ut_phase (udp_tasks s ! k)) ev s else None)"

fun remote_run ::
  "(u32 \<Rightarrow> nat) \<Rightarrow> (RemoteMessage \<Rightarrow> string + bytes) \<Rightarrow> remote_event list \<Rightarrow> RemoteProxy \<Rightarrow> RemoteProxy option"
where
  "remote_run shard to_allocvec [] s = Some s"
| "remote_run shard to_allocvec (ev # evs) s =
     Option.bind (remote_step shard to_allocvec ev s) (remote_run shard to_allocvec evs)"

end
