(* ===== verification/Remote_Invariants.thy ===== *)
theory Remote_Invariants
  imports Remote Postcard "HOL-Library.Sublist"
begin

text \<open>
  What a connection task of the remote does, seen by itself: the messages it sends to the host
  are one conversation about its connection, and what it writes to the destination is what the
  host sent. The steps of \<open>Remote\<close> are refined to a step relation on single tasks, on which
  the invariants are proved, and lifted to runs.
\<close>

section \<open>Tasks by themselves\<close>

text \<open>\<open>view\<close> forgets who holds the sender; the steps of one task, with what it sends.\<close>

definition view :: "conn_task \<Rightarrow> conn_task" where
  "view t = t\<lparr>ct_open := True\<rparr>"

definition new_task :: "u32 \<Rightarrow> conn_phase \<Rightarrow> conn_task" where
  "new_task i p = \<lparr>ct_id = i, ct_phase = p, ct_rx = [], ct_open = True, ct_out = [],
     ct_accepted = [], ct_read = [], ct_sent = []\<rparr>"

definition goes :: "conn_phase \<Rightarrow> RemoteMessage list \<Rightarrow> conn_task \<Rightarrow> conn_task" where
  "goes p msgs t = t\<lparr>ct_phase := p, ct_sent := ct_sent t @ msgs\<rparr>"

inductive task_step :: "conn_task \<Rightarrow> RemoteMessage list \<Rightarrow> conn_task \<Rightarrow> bool" where
  connect_ok: "ct_phase t = Connecting ip port \<Longrightarrow> task_step t [] (goes Announcing [] t)"
| connect_err: "ct_phase t = Connecting ip port \<Longrightarrow> task_step t [] (goes (ConnectFailed e) [] t)"
| connect_failed: "ct_phase t = ConnectFailed e \<Longrightarrow>
    task_step t [TcpError (ct_id t) e] (goes Ended [TcpError (ct_id t) e] t)"
| announce: "ct_phase t = Announcing \<Longrightarrow>
    task_step t [TcpConnected (ct_id t)] (goes Inserting [TcpConnected (ct_id t)] t)"
| inserted: "ct_phase t = Inserting \<Longrightarrow> task_step t [] (goes LoopTop [] t)"
| loop_top: "ct_phase t = LoopTop \<Longrightarrow> p \<in> {Selecting, Closing} \<Longrightarrow> task_step t [] (goes p [] t)"
| rx_data: "ct_phase t = Selecting \<Longrightarrow> ct_rx t = data # rest \<Longrightarrow>
    task_step t [] (goes (Writing data) [] (t\<lparr>ct_rx := rest\<rparr>))"
| leave: "ct_phase t = Selecting \<Longrightarrow> task_step t [] (goes Closing [] t)"
| read_data: "ct_phase t = Selecting \<Longrightarrow>
    task_step t [] (goes (SendingData bs) [] (t\<lparr>ct_read := ct_read t @ bs\<rparr>))"
| read_err: "ct_phase t = Selecting \<Longrightarrow> task_step t [] (goes (SendingError e) [] t)"
| written: "ct_phase t = Writing data \<Longrightarrow>
    task_step t [] (goes LoopTop [] (t\<lparr>ct_out := ct_out t @ data\<rparr>))"
| write_err: "ct_phase t = Writing data \<Longrightarrow>
    task_step t [] (goes (SendingError e) [] (t\<lparr>ct_out := ct_out t @ take n data\<rparr>))"
| send_data: "ct_phase t = SendingData bs \<Longrightarrow>
    task_step t [RemoteMessage.TcpData (ct_id t) bs] (goes LoopTop [RemoteMessage.TcpData (ct_id t) bs] t)"
| send_error: "ct_phase t = SendingError e \<Longrightarrow>
    task_step t [TcpError (ct_id t) e] (goes Closing [TcpError (ct_id t) e] t)"
| send_closed: "ct_phase t = Closing \<Longrightarrow>
    task_step t [TcpClosed (ct_id t)] (goes Removing [TcpClosed (ct_id t)] t)"
| removed: "ct_phase t = Removing \<Longrightarrow> task_step t [] (goes Ended [] t)"

text \<open>The steps on the list of all tasks: one task moves, one starts, one is given data.\<close>

definition accept :: "bytes \<Rightarrow> conn_task \<Rightarrow> conn_task" where
  "accept data t = t\<lparr>ct_rx := ct_rx t @ [data], ct_accepted := ct_accepted t @ [data]\<rparr>"

inductive tasks_step :: "conn_task list \<Rightarrow> RemoteMessage list \<Rightarrow> conn_task list \<Rightarrow> bool" where
  same: "tasks_step ts [] ts"
| moves: "k < length ts \<Longrightarrow> task_step (ts ! k) msgs t' \<Longrightarrow> tasks_step ts msgs (ts[k := t'])"
| starts: "tasks_step ts [] (ts @ [new_task i (Connecting ip port)])"
| accepts: "k < length ts \<Longrightarrow> tasks_step ts [] (ts[k := accept data (ts ! k)])"

abbreviation views :: "RemoteProxy \<Rightarrow> conn_task list" where
  "views s \<equiv> map view (conn_tasks s)"

section \<open>The proxy implements them\<close>

lemma view_simps [simp]:
  "view (t\<lparr>ct_open := b\<rparr>) = view t" "ct_id (view t) = ct_id t" "ct_phase (view t) = ct_phase t"
  "ct_rx (view t) = ct_rx t" "ct_out (view t) = ct_out t" "ct_accepted (view t) = ct_accepted t"
  "ct_read (view t) = ct_read t" "ct_sent (view t) = ct_sent t"
  by (simp_all add: view_def)

lemma views_update: "views (update_task k f s) = (views s)[k := view (f (conn_tasks s ! k))]"
  by (simp add: update_task_def map_update)

lemma update_same:
  "view (f (conn_tasks s ! k)) = view (conn_tasks s ! k) \<Longrightarrow> views (update_task k f s) = views s"
  by (metis list_update_id list_update_beyond map_update nth_map not_le_imp_less length_map views_update)

lemma views_remove [simp]: "views (remove_connection i s) = views s"
  by (auto simp: remove_connection_def intro: trans[OF update_same] split: option.split)

lemma views_insert [simp]: "views (insert_connection i k s) = views s"
proof -
  have "views (insert_connection i k s) = views (remove_connection i s)"
    unfolding insert_connection_def Let_def by (rule trans[OF update_same]) simp_all
  then show ?thesis by simp
qed

lemma update_task_fields [simp]:
  "tcp_connections (update_task k f s) = tcp_connections s" "response (update_task k f s) = response s"
  "running (update_task k f s) = running s" "main_phase (update_task k f s) = main_phase s"
  "inbox (update_task k f s) = inbox s" "rp_writer (update_task k f s) = rp_writer s"
  "udp_tasks (update_task k f s) = udp_tasks s"
  "length (conn_tasks (update_task k f s)) = length (conn_tasks s)"
  by (simp_all add: update_task_def)

lemma remove_fields [simp]:
  "response (remove_connection i s) = response s" "running (remove_connection i s) = running s"
  "main_phase (remove_connection i s) = main_phase s" "inbox (remove_connection i s) = inbox s"
  "rp_writer (remove_connection i s) = rp_writer s" "udp_tasks (remove_connection i s) = udp_tasks s"
  by (simp_all add: remove_connection_def split: option.split)

lemma insert_fields [simp]:
  "response (insert_connection i k s) = response s" "running (insert_connection i k s) = running s"
  "main_phase (insert_connection i k s) = main_phase s" "inbox (insert_connection i k s) = inbox s"
  "rp_writer (insert_connection i k s) = rp_writer s" "udp_tasks (insert_connection i k s) = udp_tasks s"
  by (simp_all add: insert_connection_def Let_def)

lemma view_goes:
  "view (set_phase p t) = goes p [] (view t)" "view (goes p msgs t) = goes p msgs (view t)"
  "view (t\<lparr>ct_rx := rest, ct_phase := p\<rparr>) = goes p [] (view t\<lparr>ct_rx := rest\<rparr>)"
  "view (t\<lparr>ct_read := r, ct_phase := p\<rparr>) = goes p [] (view t\<lparr>ct_read := r\<rparr>)"
  "view (t\<lparr>ct_out := w, ct_phase := p\<rparr>) = goes p [] (view t\<lparr>ct_out := w\<rparr>)"
  "view (t\<lparr>ct_phase := p, ct_sent := ct_sent t @ msgs\<rparr>) = goes p msgs (view t)"
  "view (t\<lparr>ct_rx := ct_rx t @ [d], ct_accepted := ct_accepted t @ [d]\<rparr>) = accept d (view t)"
  by (simp_all add: view_def goes_def set_phase_def accept_def)

text \<open>The effect of a step of task \<open>k\<close> on everything the invariants look at.\<close>

definition task_effect :: "nat \<Rightarrow> RemoteProxy \<Rightarrow> RemoteProxy \<Rightarrow> bool" where
  "task_effect k s s' \<longleftrightarrow>
     (\<exists>msgs t'. task_step (views s ! k) msgs t' \<and> views s' = (views s)[k := t'] \<and>
        response s' = (response s)\<lparr>ch_queue := ch_queue (response s) @ msgs\<rparr> \<and>
        main_phase s' = main_phase s \<and> inbox s' = inbox s \<and> rp_writer s' = rp_writer s \<and>
        udp_tasks s' = udp_tasks s)"

lemma task_effectI:
  "task_step (view (conn_tasks s ! k)) [] (view (f (conn_tasks s ! k))) \<Longrightarrow> k < length (conn_tasks s) \<Longrightarrow>
   views s0 = views s \<Longrightarrow> conn_tasks s0 ! k = conn_tasks s ! k \<or> view (f (conn_tasks s0 ! k)) = view (f (conn_tasks s ! k)) \<Longrightarrow>
   response s0 = response s \<Longrightarrow> main_phase s0 = main_phase s \<Longrightarrow> inbox s0 = inbox s \<Longrightarrow>
   rp_writer s0 = rp_writer s \<Longrightarrow> udp_tasks s0 = udp_tasks s \<Longrightarrow> task_effect k s (update_task k f s0)"
  unfolding task_effect_def
  by (intro exI[of _ "[]"] exI[of _ "view (f (conn_tasks s ! k))"]) (auto simp: views_update)

lemma respond_effect:
  assumes "respond k msg p s = Some s'" "\<not> ch_closed (response s)" "k < length (conn_tasks s)"
    and "task_step (view (conn_tasks s ! k)) [msg] (goes p [msg] (view (conn_tasks s ! k)))"
  shows "task_effect k s s'"
proof -
  have s': "s' = update_task k (\<lambda>t. t\<lparr>ct_phase := p, ct_sent := ct_sent t @ [msg]\<rparr>)
      (s\<lparr>response := (response s)\<lparr>ch_queue := ch_queue (response s) @ [msg]\<rparr>\<rparr>)"
    using assms(1,2) by (auto simp: respond_def chan_send_def split: if_splits)
  show ?thesis
    unfolding task_effect_def s'
    by (intro exI[of _ "[msg]"] exI[of _ "goes p [msg] (view (conn_tasks s ! k))"])
       (simp add: views_update view_goes assms(3,4))
qed

lemma same_view: "views s = views s' \<Longrightarrow> k < length (conn_tasks s) \<Longrightarrow> view (conn_tasks s ! k) = view (conn_tasks s' ! k)"
  by (metis length_map nth_map)

lemma conn_step_effect:
  assumes step: "conn_step shard k ev s = Some s'" and k: "k < length (conn_tasks s)"
    and open_ch: "\<not> ch_closed (response s)"
  shows "task_effect k s s'"
proof (cases "ct_phase (conn_tasks s ! k)")
  case (Connecting ip port)
  with step show ?thesis
    by (auto simp: conn_step_def Let_def view_goes split: conn_event.splits
        intro!: task_effectI k
        intro: task_step.connect_ok[of "view (conn_tasks s ! k)" ip port, simplified]
          task_step.connect_err[of "view (conn_tasks s ! k)" ip port, simplified])
next
  case (ConnectFailed e)
  with step k open_ch show ?thesis
    by (auto simp: conn_step_def Let_def split: if_splits elim!: respond_effect
        intro: task_step.connect_failed[of "view (conn_tasks s ! k)", simplified])
next
  case Announcing
  with step k open_ch show ?thesis
    by (auto simp: conn_step_def Let_def split: if_splits elim!: respond_effect
        intro: task_step.announce[of "view (conn_tasks s ! k)", simplified])
next
  case Inserting
  let ?s = "insert_connection (ct_id (conn_tasks s ! k)) k s"
  have "view (set_phase LoopTop (conn_tasks ?s ! k)) = view (set_phase LoopTop (conn_tasks s ! k))"
    using same_view[of s ?s k] k by (simp add: view_goes)
  with Inserting step show ?thesis
    by (auto simp: conn_step_def Let_def split: if_splits intro!: task_effectI k)
       (simp add: view_goes task_step.inserted)
next
  case LoopTop
  with step show ?thesis
    by (auto simp: conn_step_def Let_def view_goes split: if_splits
        intro!: task_effectI k task_step.loop_top)
next
  case Selecting
  with step show ?thesis
    by (auto simp: conn_step_def Let_def view_goes split: conn_event.splits if_splits sum.splits list.splits
        intro!: task_effectI k intro: task_step.rx_data[of "view (conn_tasks s ! k)", simplified]
          task_step.leave[of "view (conn_tasks s ! k)", simplified] task_step.read_err[of "view (conn_tasks s ! k)", simplified]
          task_step.read_data[of "view (conn_tasks s ! k)", simplified])
next
  case (Writing data)
  with step show ?thesis
    by (auto simp: conn_step_def Let_def view_goes split: conn_event.splits
        intro!: task_effectI k
        intro: task_step.written[of "view (conn_tasks s ! k)", simplified]
          task_step.write_err[of "view (conn_tasks s ! k)", simplified])
next
  case (SendingData bs)
  with step k open_ch show ?thesis
    by (auto simp: conn_step_def Let_def split: if_splits elim!: respond_effect
        intro: task_step.send_data[of "view (conn_tasks s ! k)", simplified])
next
  case (SendingError e)
  with step k open_ch show ?thesis
    by (auto simp: conn_step_def Let_def split: if_splits elim!: respond_effect
        intro: task_step.send_error[of "view (conn_tasks s ! k)", simplified])
next
  case Closing
  with step k open_ch show ?thesis
    by (auto simp: conn_step_def Let_def split: if_splits elim!: respond_effect
        intro: task_step.send_closed[of "view (conn_tasks s ! k)", simplified])
next
  case Removing
  let ?s = "remove_connection (ct_id (conn_tasks s ! k)) s"
  have "view (set_phase Ended (conn_tasks ?s ! k)) = view (set_phase Ended (conn_tasks s ! k))"
    using same_view[of s ?s k] k by (simp add: view_goes)
  with Removing step show ?thesis
    by (auto simp: conn_step_def Let_def split: if_splits intro!: task_effectI k)
       (simp add: view_goes task_step.removed)
next
  case Ended
  with step show ?thesis by (simp add: conn_step_def Let_def)
qed

section \<open>One conversation per connection\<close>

text \<open>
  What the host hears about the connection \<open>i\<close> whose destination has sent \<open>bs\<close>: that it
  failed; or that it is connected, the bytes in order, possibly an error, and that it is closed.
\<close>

definition conversation :: "u32 \<Rightarrow> bytes \<Rightarrow> RemoteMessage list \<Rightarrow> bool" where
  "conversation i bs ms \<longleftrightarrow>
     bs = [] \<and> (\<exists>e. ms = [TcpError i e]) \<or>
     (\<exists>ds errs. ms = TcpConnected i # map (RemoteMessage.TcpData i) ds @ map (TcpError i) errs @ [TcpClosed i] \<and>
        length errs \<le> 1 \<and> concat ds = bs)"

definition relayed :: "u32 \<Rightarrow> bytes \<Rightarrow> string list \<Rightarrow> RemoteMessage list \<Rightarrow> bool" where
  "relayed i bs errs ms \<longleftrightarrow>
     (\<exists>ds. ms = TcpConnected i # map (RemoteMessage.TcpData i) ds @ map (TcpError i) errs \<and> concat ds = bs)"

fun phase_ok :: "u32 \<Rightarrow> bytes \<Rightarrow> RemoteMessage list \<Rightarrow> conn_phase \<Rightarrow> bool" where
  "phase_ok i bs ms (Connecting ip port) \<longleftrightarrow> ms = [] \<and> bs = []"
| "phase_ok i bs ms (ConnectFailed e) \<longleftrightarrow> ms = [] \<and> bs = []"
| "phase_ok i bs ms Announcing \<longleftrightarrow> ms = [] \<and> bs = []"
| "phase_ok i bs ms (SendingData b) \<longleftrightarrow> (\<exists>r. bs = r @ b \<and> relayed i r [] ms)"
| "phase_ok i bs ms Closing \<longleftrightarrow> (\<exists>errs. length errs \<le> 1 \<and> relayed i bs errs ms)"
| "phase_ok i bs ms Removing \<longleftrightarrow> conversation i bs ms"
| "phase_ok i bs ms Ended \<longleftrightarrow> conversation i bs ms"
| "phase_ok i bs ms _ \<longleftrightarrow> relayed i bs [] ms"

text \<open>Towards the destination: what the host sent is written, in hand, or queued.\<close>

fun in_hand :: "conn_phase \<Rightarrow> bytes" where
  "in_hand (Writing data) = data"
| "in_hand _ = []"

fun relaying :: "conn_phase \<Rightarrow> bool" where
  "relaying (SendingError e) = False"
| "relaying Closing = False"
| "relaying Removing = False"
| "relaying Ended = False"
| "relaying _ = True"

definition task_ok :: "conn_task \<Rightarrow> bool" where
  "task_ok t \<longleftrightarrow> phase_ok (ct_id t) (ct_read t) (ct_sent t) (ct_phase t) \<and>
     (\<exists>lost. ct_out t @ in_hand (ct_phase t) @ lost @ concat (ct_rx t) = concat (ct_accepted t) \<and>
        (relaying (ct_phase t) \<longrightarrow> lost = []))"

lemma new_task_id [simp]: "ct_id (new_task i p) = i"
  by (simp add: new_task_def)

lemma task_ok_new: "task_ok (new_task i (Connecting ip port))"
  by (simp add: task_ok_def new_task_def)

lemma task_ok_accept: "task_ok t \<Longrightarrow> task_ok (accept data t)"
  by (force simp: task_ok_def accept_def)

lemma relayed_data: "relayed i bs [] ms \<Longrightarrow> relayed i (bs @ b) [] (ms @ [RemoteMessage.TcpData i b])"
  unfolding relayed_def by (metis (no_types, opaque_lifting) append.right_neutral append_Cons concat_append concat.simps list.map(1,2) map_append)

lemma relayed_error: "relayed i bs [] ms \<Longrightarrow> relayed i bs [e] (ms @ [TcpError i e])"
  by (auto simp: relayed_def)

lemma relayed_closed: "length errs \<le> 1 \<Longrightarrow> relayed i bs errs ms \<Longrightarrow> conversation i bs (ms @ [TcpClosed i])"
  by (auto simp: relayed_def conversation_def)

lemma task_ok_step:
  assumes "task_step t msgs t'" "task_ok t"
  shows "task_ok t'"
  using assms
proof (cases rule: task_step.cases)
  case (connect_failed e)
  with assms(2) show ?thesis
    by (auto simp: task_ok_def goes_def conversation_def intro: exI[of _ "[]"])
next
  case announce
  with assms(2) show ?thesis by (auto simp: task_ok_def goes_def relayed_def)
next
  case (send_data bs)
  with assms(2) show ?thesis by (auto simp: task_ok_def goes_def relayed_data)
next
  case (send_error e)
  with assms(2) have "\<exists>errs. length errs \<le> 1 \<and>
      relayed (ct_id t) (ct_read t) errs (ct_sent t @ [TcpError (ct_id t) e])"
    by (intro exI[of _ "[e]"]) (simp add: task_ok_def relayed_error)
  with send_error assms(2) show ?thesis by (auto simp: task_ok_def goes_def)
next
  case send_closed
  with assms(2) show ?thesis by (auto simp: task_ok_def goes_def relayed_closed)
next
  case (loop_top p)
  then have "\<exists>errs. length errs \<le> Suc 0 \<and> relayed (ct_id t) (ct_read t) errs (ct_sent t)"
    using assms(2) by (intro exI[of _ "[]"]) (simp add: task_ok_def)
  with loop_top assms(2) show ?thesis
    by (auto simp: task_ok_def goes_def intro: exI[of _ "[]"])
next
  case (write_err data e n)
  with assms(2) have "ct_out t @ data @ concat (ct_rx t) = concat (ct_accepted t)"
    "relayed (ct_id t) (ct_read t) [] (ct_sent t)"
    by (auto simp: task_ok_def)
  then have "(ct_out t @ take n data) @ drop n data @ concat (ct_rx t) = concat (ct_accepted t)"
    by (metis append.assoc append_take_drop_id)
  with write_err \<open>relayed _ _ _ _\<close> show ?thesis by (auto simp: task_ok_def goes_def)
qed (use assms(2) in \<open>auto simp: task_ok_def goes_def intro: exI[of _ "[]"]\<close>)

section \<open>Runs\<close>

text \<open>
  A run keeps \<open>remote_ok\<close>: the response channel is open, the tasks are fine and their
  connections, with those still asked for in the inbox, are distinct; and what the host is
  told about a connection (written or still in the channel) is what its task has sent.
\<close>

fun connect_id :: "protocol_error + HostMessage option \<Rightarrow> u32 option" where
  "connect_id (Inr (Some (TcpConnect i ip port))) = Some i"
| "connect_id _ = None"

definition about :: "u32 \<Rightarrow> RemoteMessage list \<Rightarrow> RemoteMessage list" where
  "about i ms = filter (\<lambda>m. message_id m = Some i) ms"

lemma about_simps [simp]:
  "about i [] = []" "about i (ms @ ns) = about i ms @ about i ns"
  "about i (m # ms) = (if message_id m = Some i then [m] else []) @ about i ms"
  by (simp_all add: about_def)

definition told :: "conn_task list \<Rightarrow> RemoteMessage list \<Rightarrow> bool" where
  "told ts ms \<longleftrightarrow> (\<forall>t\<in>set ts. about (ct_id t) ms = ct_sent t) \<and>
     (\<forall>i. i \<notin> ct_id ` set ts \<longrightarrow> about i ms = [])"

definition tasks_ok :: "conn_task list \<Rightarrow> RemoteMessage list \<Rightarrow> bool" where
  "tasks_ok ts ms \<longleftrightarrow> (\<forall>t\<in>set ts. task_ok t) \<and> told ts ms"

lemma task_step_id: "task_step t msgs t' \<Longrightarrow> ct_id t' = ct_id t \<and> ct_sent t' = ct_sent t @ msgs \<and>
    (\<forall>m\<in>set msgs. message_id m = Some (ct_id t))"
  by (cases rule: task_step.cases) (auto simp: goes_def)

lemma about_own: "\<forall>m\<in>set msgs. message_id m = Some i \<Longrightarrow> about j msgs = (if i = j then msgs else [])"
  by (auto simp: about_def intro: filter_True filter_False)

lemma map_id_update: "f t' = f (ts ! k) \<Longrightarrow> map f (ts[k := t']) = map f ts"
  by (metis list_update_id map_update)

lemma tasks_ok_step:
  assumes "tasks_step ts msgs ts'" "tasks_ok ts ms"
    and "distinct (map ct_id ts')"
  shows "tasks_ok ts' (ms @ msgs)"
  using assms(1)
proof (cases rule: tasks_step.cases)
  case same
  with assms(2) show ?thesis by simp
next
  case (moves k t')
  note id = task_step_id[OF moves(3)]
  have ids: "map ct_id (ts[k := t']) = map ct_id ts"
    using id by (intro map_id_update) simp
  then have dist: "distinct (map ct_id ts)" using assms(3) moves(1) by simp
  have upd: "set (ts[k := t']) \<subseteq> insert t' (set ts)" by (rule set_update_subset_insert)
  have other: "ct_id t \<noteq> ct_id (ts ! k) \<or> t = t'" if t: "t \<in> set (ts[k := t'])" for t
  proof -
    obtain j where j: "j < length ts" "t = ts[k := t'] ! j" using t by (auto simp: in_set_conv_nth)
    with dist moves(2) show ?thesis by (cases "j = k") (auto simp: distinct_conv_nth)
  qed
  have "about (ct_id t) (ms @ msgs) = ct_sent t" if t: "t \<in> set (ts[k := t'])" for t
  proof (cases "t = t'")
    case True
    have "about (ct_id (ts ! k)) ms = ct_sent (ts ! k)"
      using assms(2) moves(2) by (simp add: tasks_ok_def told_def)
    with True id about_own[of msgs "ct_id (ts ! k)"] show ?thesis by simp
  next
    case False
    then have "t \<in> set ts" "ct_id t \<noteq> ct_id (ts ! k)" using upd t other[OF t] by auto
    with assms(2) id about_own[of msgs "ct_id (ts ! k)"] show ?thesis
      by (auto simp: tasks_ok_def told_def)
  qed
  moreover have "about i (ms @ msgs) = []" if "i \<notin> ct_id ` set (ts[k := t'])" for i
  proof -
    have "ct_id ` set (ts[k := t']) = ct_id ` set ts" using ids by (metis set_map)
    then have "i \<notin> ct_id ` set ts" "i \<noteq> ct_id (ts ! k)" using that moves(2) by auto
    with assms(2) id about_own[of msgs "ct_id (ts ! k)" i] show ?thesis
      by (auto simp: tasks_ok_def told_def)
  qed
  moreover have "task_ok t" if "t \<in> set (ts[k := t'])" for t
    using that upd assms(2) task_ok_step[OF moves(3)] moves(2) by (auto simp: tasks_ok_def)
  ultimately show ?thesis using moves(1) by (simp add: tasks_ok_def told_def)
next
  case (starts i ip port)
  then have "i \<notin> ct_id ` set ts" using assms(3) by (simp add: new_task_def)
  with starts assms(2) task_ok_new[of i ip port] show ?thesis
    by (auto simp: tasks_ok_def told_def new_task_def)
next
  case (accepts k data)
  have upd: "set (ts[k := accept data (ts ! k)]) \<subseteq> insert (accept data (ts ! k)) (set ts)"
    by (rule set_update_subset_insert)
  have same: "map ct_id (ts[k := accept data (ts ! k)]) = map ct_id ts"
    by (intro map_id_update) (simp add: accept_def)
  have acc: "ct_id (accept data t) = ct_id t" "ct_sent (accept data t) = ct_sent t" for t
    by (simp_all add: accept_def)
  have "about (ct_id t) ms = ct_sent t \<and> task_ok t" if "t \<in> set (ts[k := accept data (ts ! k)])" for t
    using that upd assms(2) accepts(3) acc task_ok_accept by (auto simp: tasks_ok_def told_def)
  moreover have "about i ms = []" if "i \<notin> ct_id ` set (ts[k := accept data (ts ! k)])" for i
    using that assms(2) same by (simp add: tasks_ok_def told_def) (metis set_map)
  ultimately show ?thesis using accepts(1,2) by (simp add: tasks_ok_def told_def)
qed

definition remote_ok :: "(RemoteMessage \<Rightarrow> string + bytes) \<Rightarrow> writer \<Rightarrow> RemoteProxy \<Rightarrow> bool" where
  "remote_ok enc w s \<longleftrightarrow> \<not> ch_closed (response s) \<and>
     distinct (map ct_id (views s) @ List.map_filter connect_id (inbox s)) \<and>
     (\<forall>t\<in>set (views s). task_ok t) \<and>
     (main_phase s \<noteq> MainReturned \<longrightarrow>
       (\<exists>sent. wrote enc w sent (rp_writer s) \<and> told (views s) (sent @ ch_queue (response s))))"

text \<open>A step that moves the tasks and sends their messages keeps it.\<close>

lemma remote_ok_tasks:
  assumes "remote_ok enc w s" "main_phase s \<noteq> MainReturned" "tasks_step (views s) msgs (views s')"
    and "response s' = (response s)\<lparr>ch_queue := ch_queue (response s) @ msgs\<rparr>"
    and "rp_writer s' = rp_writer s"
    and "distinct (map ct_id (views s') @ List.map_filter connect_id (inbox s'))"
  shows "remote_ok enc w s'"
proof -
  obtain sent where sent: "wrote enc w sent (rp_writer s)" "told (views s) (sent @ ch_queue (response s))"
    using assms(1,2) by (auto simp: remote_ok_def)
  have "tasks_ok (views s) (sent @ ch_queue (response s))"
    using assms(1) sent(2) by (auto simp: remote_ok_def tasks_ok_def)
  from tasks_ok_step[OF assms(3) this] assms(6)
  have "tasks_ok (views s') (sent @ ch_queue (response s'))" by (simp add: assms(4))
  with assms(1,4,5,6) sent(1) show ?thesis by (auto simp: remote_ok_def tasks_ok_def)
qed

lemma iteration_end_fields [simp]:
  "conn_tasks (iteration_end s) = conn_tasks s" "response (iteration_end s) = response s"
  "inbox (iteration_end s) = inbox s" "rp_writer (iteration_end s) = rp_writer s"
  "conn_tasks (break_loop s) = conn_tasks s" "response (break_loop s) = response s"
  "inbox (break_loop s) = inbox s" "main_phase (break_loop s) = MainReturned"
  "udp_tasks (iteration_end s) = udp_tasks s" "udp_tasks (break_loop s) = udp_tasks s"
  by (simp_all add: iteration_end_def break_loop_def)

lemma remote_ok_same:
  assumes "remote_ok enc w s" "main_phase s \<noteq> MainReturned" "views s' = views s"
    and "response s' = response s" "rp_writer s' = rp_writer s"
    and "\<exists>r. inbox s = r @ inbox s'"
  shows "remote_ok enc w s'"
proof -
  obtain r where "inbox s = r @ inbox s'" using assms(6) by blast
  then have "List.map_filter connect_id (inbox s) =
      List.map_filter connect_id r @ List.map_filter connect_id (inbox s')"
    by (simp add: List.map_filter_def)
  with assms(1,3) have "distinct (map ct_id (views s') @ List.map_filter connect_id (inbox s'))"
    by (auto simp: remote_ok_def)
  with remote_ok_tasks[OF assms(1,2), of "[]" s'] assms(3-5) show ?thesis
    by (simp add: tasks_step.same)
qed

lemma handle_host_message_ok:
  assumes "remote_ok enc w s" "main_phase s \<noteq> MainReturned" "inbox s = Inr (Some msg) # rest"
  shows "remote_ok enc w (handle_host_message msg (s\<lparr>inbox := rest\<rparr>))"
proof (cases msg)
  case (TcpConnect i ip port)
  have dist: "distinct (map ct_id (views s @ [new_task i (Connecting ip port)]) @ List.map_filter connect_id rest)"
    using assms(1,3) TcpConnect by (auto simp: remote_ok_def List.map_filter_simps new_task_def)
  have "views (handle_host_message msg (s\<lparr>inbox := rest\<rparr>)) = views s @ [new_task i (Connecting ip port)]"
    by (simp add: TcpConnect handle_tcp_connect_def new_task_def view_def)
  with remote_ok_tasks[OF assms(1,2), of "[]" "handle_host_message msg (s\<lparr>inbox := rest\<rparr>)"] dist show ?thesis
    by (simp add: TcpConnect handle_tcp_connect_def tasks_step.starts)
next
  case (TcpData i data)
  then show ?thesis
    using assms by (intro remote_ok_same[OF assms(1,2)]) (auto simp: handle_tcp_data_def split: option.split)
qed (use assms in \<open>intro remote_ok_same[OF assms(1,2)];
  simp add: handle_tcp_close_def spawn_udp_def\<close>)+

lemma conn_effect_ok:
  assumes "task_effect k s s'" "k < length (conn_tasks s)" "remote_ok enc w s" "main_phase s \<noteq> MainReturned"
  shows "remote_ok enc w s'"
proof -
  obtain msgs t' where e: "task_step (views s ! k) msgs t'" "views s' = (views s)[k := t']"
    "response s' = (response s)\<lparr>ch_queue := ch_queue (response s) @ msgs\<rparr>"
    "inbox s' = inbox s" "rp_writer s' = rp_writer s"
    using assms(1) unfolding task_effect_def by blast
  have "map ct_id (views s') = map ct_id (views s)"
    unfolding e(2) using task_step_id[OF e(1)] by (intro map_id_update) simp
  then have "distinct (map ct_id (views s') @ List.map_filter connect_id (inbox s'))"
    using assms(3) by (simp only: remote_ok_def e(4))
  moreover have "tasks_step (views s) msgs (views s')"
    unfolding e(2) using e(1) assms(2) by (intro tasks_step.moves) simp_all
  ultimately show ?thesis using remote_ok_tasks[OF assms(3,4) _ e(3,5)] by blast
qed

text \<open>The datagram tasks never speak about a connection.\<close>

definition udp_ok :: "RemoteProxy \<Rightarrow> bool" where
  "udp_ok s \<longleftrightarrow> (\<forall>u\<in>set (udp_tasks s). \<forall>m. ut_phase u = SendingReply m \<longrightarrow> message_id m = None)"

lemma udp_message_id [simp]: "message_id (udp_message purpose ip port data) = None"
  by (cases purpose) auto

lemma udp_ok_update:
  assumes "udp_ok s" "\<And>m. p = SendingReply m \<Longrightarrow> message_id m = None" "udp_tasks s' = udp_tasks s"
  shows "udp_ok (update_udp k p s')"
  using assms set_update_subset_insert[of "udp_tasks s" k]
  unfolding udp_ok_def update_udp_def by fastforce

lemma udp_task_step_ok:
  assumes "udp_task_step k (ut_phase (udp_tasks s ! k)) ev s = Some s'" "k < length (udp_tasks s)"
    and "remote_ok enc w s" "udp_ok s" "main_phase s \<noteq> MainReturned"
  shows "remote_ok enc w s' \<and> udp_ok s'"
proof -
  have ids: "message_id m = None" if "ut_phase (udp_tasks s ! k) = SendingReply m" for m
    using assms(2,4) that by (auto simp: udp_ok_def)
  have quiet: "remote_ok enc w (update_udp k p s)" for p
    by (rule remote_ok_same[OF assms(3,5)]) (simp_all add: update_udp_def)
  have sending: "remote_ok enc w (update_udp k p (s\<lparr>response := (response s)\<lparr>ch_queue := ch_queue (response s) @ [m]\<rparr>\<rparr>))"
    if "message_id m = None" for m p
  proof -
    obtain sent where sent: "wrote enc w sent (rp_writer s)" "told (views s) (sent @ ch_queue (response s))"
      using assms(3,5) by (auto simp: remote_ok_def)
    with that have "told (views s) (sent @ ch_queue (response s) @ [m])" by (simp add: told_def)
    with assms(3) sent(1) show ?thesis by (auto simp: remote_ok_def update_udp_def)
  qed
  show ?thesis
  proof (cases "(k, ut_phase (udp_tasks s ! k), ev, s)" rule: udp_task_step.cases)
    case (4 k' msg s'')
    with assms(1,3) have "s' = update_udp k UdpEnded
        (s\<lparr>response := (response s)\<lparr>ch_queue := ch_queue (response s) @ [msg]\<rparr>\<rparr>)"
      by (auto simp: chan_send_def remote_ok_def split: if_splits)
    moreover have "message_id msg = None" using ids[of msg] 4 by auto
    ultimately show ?thesis using sending udp_ok_update[OF assms(4), of UdpEnded] by simp
  qed (use assms(1) quiet in \<open>auto intro!: udp_ok_update[OF assms(4)]\<close>)
qed

lemma udp_ok_same: "udp_ok s \<Longrightarrow> udp_tasks s' = udp_tasks s \<Longrightarrow> udp_ok s'"
  by (simp add: udp_ok_def)

lemma handle_host_message_udp: "udp_ok s \<Longrightarrow> udp_ok (handle_host_message msg s)"
  by (cases msg)
     (auto simp: udp_ok_def spawn_udp_def handle_tcp_data_def handle_tcp_connect_def handle_tcp_close_def
        split: option.split)

lemma main_recv_ok:
  assumes "main_recv s = Some s'" "remote_ok enc w s" "udp_ok s"
  shows "remote_ok enc w s' \<and> udp_ok s'"
proof -
  have sel: "main_phase s = MainSelect" using assms(1) by (auto simp: main_recv_def split: if_splits)
  have ended: "remote_ok enc w (break_loop s1)" if "conn_tasks s1 = conn_tasks s" "response s1 = response s"
    "\<exists>r. inbox s = r @ inbox s1" "rp_writer s1 = rp_writer s" for s1
    using that sel by (intro remote_ok_same[OF assms(2)]) (simp_all add: break_loop_def)
  show ?thesis
  proof (cases "\<exists>msg rest. inbox s = Inr (Some msg) # rest")
    case True
    then obtain msg rest where m: "inbox s = Inr (Some msg) # rest" by blast
    with assms(1) sel have "s' = handle_host_message msg (s\<lparr>inbox := rest\<rparr>)" by (simp add: main_recv_def)
    with handle_host_message_ok[OF assms(2) _ m] handle_host_message_udp udp_ok_same[OF assms(3)] sel
    show ?thesis by simp
  next
    case False
    have "s' = break_loop s \<or> (\<exists>r rest. inbox s = r # rest \<and> s' = break_loop (s\<lparr>inbox := rest\<rparr>))"
      using assms(1) sel False
      by (auto simp: main_recv_def split: list.splits sum.splits option.splits)
    then have "\<exists>s1. s' = break_loop s1 \<and> conn_tasks s1 = conn_tasks s \<and> response s1 = response s \<and>
        (\<exists>r. inbox s = r @ inbox s1) \<and> rp_writer s1 = rp_writer s \<and> udp_tasks s1 = udp_tasks s"
    proof (elim disjE exE conjE)
      fix r rest assume "inbox s = r # rest" "s' = break_loop (s\<lparr>inbox := rest\<rparr>)"
      then show ?thesis by (intro exI[of _ "s\<lparr>inbox := rest\<rparr>"]) auto
    qed (intro exI[of _ s], auto)
    with ended udp_ok_same[OF assms(3)] show ?thesis by auto
  qed
qed

lemma main_respond_ok:
  assumes "main_respond enc s = Some s'" "remote_ok enc w s" "udp_ok s"
  shows "remote_ok enc w s' \<and> udp_ok s'"
proof -
  obtain m rest where q: "main_phase s = MainSelect" "ch_queue (response s) = m # rest"
    using assms(1) by (auto simp: main_respond_def chan_recv_def split: if_splits list.splits)
  obtain r w' where wm: "write_message enc m (rp_writer s) = (r, w')"
    by (cases "write_message enc m (rp_writer s)")
  let ?s = "s\<lparr>response := (response s)\<lparr>ch_queue := rest\<rparr>, rp_writer := w'\<rparr>"
  have s': "s' = (case r of Inl e \<Rightarrow> break_loop ?s | Inr _ \<Rightarrow> iteration_end ?s)"
    using assms(1) q wm by (auto simp: main_respond_def chan_recv_def split: sum.splits)
  obtain sent where sent: "wrote enc w sent (rp_writer s)" "told (views s) (sent @ ch_queue (response s))"
    using assms(2) q(1) by (auto simp: remote_ok_def)
  have "\<exists>sent'. wrote enc w sent' w' \<and> told (views s) (sent' @ rest)" if "r = Inr ()"
    using wrote_snoc[OF sent(1)] wm sent(2) q(2) that by (intro exI[of _ "sent @ [m]"]) simp
  with assms(2) s' q(1) show ?thesis
    using udp_ok_same[OF assms(3)] by (auto simp: remote_ok_def split: sum.splits)
qed

lemma main_send_ok:
  assumes "main_send s = Some s'" "remote_ok enc w s" "udp_ok s"
  shows "remote_ok enc w s' \<and> udp_ok s'"
proof -
  obtain i k data where p: "main_phase s = MainSend i k data"
    using assms(1) by (auto simp: main_send_def split: main_phase.splits)
  let ?f = "\<lambda>t. t\<lparr>ct_rx := ct_rx t @ [data], ct_accepted := ct_accepted t @ [data]\<rparr>"
  consider "s' = s\<lparr>main_phase := MainRemove i\<rparr>" | "s' = iteration_end (update_task k ?f s)"
    using assms(1) by (auto simp: main_send_def p split: if_splits)
  then show ?thesis
  proof cases
    case 1
    have "remote_ok enc w s'" by (rule remote_ok_same[OF assms(2)]) (simp_all add: 1 p)
    with 1 assms(3) show ?thesis by (simp add: udp_ok_def)
  next
    case 2
    have v: "views s' = (views s)[k := accept data (view (conn_tasks s ! k))]"
      by (simp add: 2 views_update view_goes)
    have "tasks_step (views s) [] (views s')"
    proof (cases "k < length (views s)")
      case True
      with tasks_step.accepts[OF True, of data] show ?thesis by (simp add: v)
    next
      case False
      then show ?thesis by (simp add: v list_update_beyond tasks_step.same)
    qed
    moreover have "map ct_id (views s') = map ct_id (views s)"
    proof (cases "k < length (views s)")
      case True
      then show ?thesis unfolding v by (intro map_id_update) (simp add: accept_def)
    next
      case False
      then show ?thesis unfolding v by (simp add: list_update_beyond)
    qed
    then have "distinct (map ct_id (views s') @ List.map_filter connect_id (inbox s'))"
      using assms(2) 2 by (simp only: remote_ok_def iteration_end_fields update_task_fields)
    ultimately have "remote_ok enc w s'"
      using remote_ok_tasks[OF assms(2), of "[]" s'] by (simp add: p 2)
    with 2 udp_ok_same[OF assms(3)] show ?thesis by simp
  qed
qed

lemma remote_step_ok:
  assumes "remote_step shard enc ev s = Some s'" "remote_ok enc w s \<and> udp_ok s"
  shows "remote_ok enc w s' \<and> udp_ok s'"
proof (cases ev)
  case (Conn k cev)
  then have c: "conn_step shard k cev s = Some s'" "k < length (conn_tasks s)" "main_phase s \<noteq> MainReturned"
    using assms(1) by (auto split: if_splits)
  then have e: "task_effect k s s'" using assms(2) by (intro conn_step_effect) (simp_all add: remote_ok_def)
  moreover from e have "udp_tasks s' = udp_tasks s" unfolding task_effect_def by blast
  ultimately show ?thesis using conn_effect_ok[OF e c(2) _ c(3)] udp_ok_same assms(2) by blast
next
  case (Datagram k uev)
  with assms show ?thesis by (auto dest: udp_task_step_ok split: if_splits)
qed (use assms main_recv_ok main_respond_ok main_send_ok in auto)

lemma remote_run_ok:
  "remote_run shard enc evs s = Some s' \<Longrightarrow> remote_ok enc w s \<and> udp_ok s \<Longrightarrow> remote_ok enc w s' \<and> udp_ok s'"
proof (induction evs arbitrary: s)
  case (Cons ev evs)
  then show ?case by (auto simp: bind_eq_Some_conv dest: remote_step_ok)
qed simp

section \<open>What the host is told\<close>

lemma task_conversation:
  assumes "task_ok t"
  shows "\<exists>rest. conversation (ct_id t) (ct_read t) (ct_sent t @ rest) \<and> (ct_phase t = Ended \<longrightarrow> rest = [])"
proof -
  let ?i = "ct_id t"
  have relayed: "\<exists>rest. conversation ?i bs (ms @ rest)" if "relayed ?i bs [] ms" for bs ms
    using relayed_closed[of "[]", OF _ that] by auto
  have start: "\<exists>rest. conversation ?i [] rest"
    by (intro exI[of _ "[TcpError ?i []]"]) (simp add: conversation_def)
  have "phase_ok ?i (ct_read t) (ct_sent t) (ct_phase t)" using assms by (simp add: task_ok_def)
  then show ?thesis
  proof (cases "ct_phase t")
    case (SendingData b)
    with \<open>phase_ok _ _ _ _\<close> obtain r where r: "ct_read t = r @ b" "relayed ?i r [] (ct_sent t)" by auto
    with SendingData relayed[OF relayed_data[OF r(2)], of b] show ?thesis
      by (auto simp: append_assoc[symmetric] simp del: append_assoc) (metis append.assoc)
  next
    case Closing
    with \<open>phase_ok _ _ _ _\<close> show ?thesis
      by (auto simp: relayed_closed intro: exI[of _ "[TcpClosed ?i]"])
  next
    case Removing
    with \<open>phase_ok _ _ _ _\<close> show ?thesis by (auto intro: exI[of _ "[]"])
  next
    case Ended
    with \<open>phase_ok _ _ _ _\<close> show ?thesis by auto
  qed (use start relayed in auto)
qed

lemma remote_new_ok:
  "distinct (List.map_filter connect_id msgs) \<Longrightarrow> remote_ok enc w (remote_new msgs w) \<and> udp_ok (remote_new msgs w)"
  by (auto simp: remote_ok_def remote_new_def udp_ok_def new_chan_def told_def intro: wrote_Nil exI[of _ "[]"])

lemma remote_start_run:
  assumes "remote_start enc dec rd w = Inr s0" "distinct (List.map_filter connect_id (inbox s0))"
    and "remote_run shard enc evs s0 = Some s"
  shows "\<exists>w1. wrote enc w [Ready] w1 \<and> remote_ok enc w1 s"
proof -
  obtain w1 where w1: "write_message enc Ready w = (Inr (), w1)" "s0 = remote_new (read_loop dec rd) w1"
    using assms(1) by (auto simp: remote_start_def split: prod.splits sum.splits)
  from wrote_snoc[OF wrote_Nil w1(1)] have "wrote enc w [Ready] w1" by simp
  moreover have "remote_ok enc w1 s0 \<and> udp_ok s0"
    using remote_new_ok assms(2) w1(2) by (simp add: remote_new_def)
  ultimately show ?thesis using remote_run_ok[OF assms(3)] by blast
qed

text \<open>What has been written, and what the tasks have said so far.\<close>

lemma remote_told:
  assumes "remote_start enc dec rd w = Inr s0" "distinct (List.map_filter connect_id (inbox s0))"
    and "remote_run shard enc evs s0 = Some s" "main_phase s \<noteq> MainReturned"
  shows "\<exists>w1 sent. wrote enc w [Ready] w1 \<and> wrote enc w1 sent (rp_writer s) \<and>
    told (views s) (sent @ ch_queue (response s)) \<and> (\<forall>t\<in>set (conn_tasks s). task_ok (view t))"
  using remote_start_run[OF assms(1-3)] assms(4) by (auto simp: remote_ok_def)

text \<open>
  The remote's side of every session: on standard output, after \<open>Ready\<close>, are whole frames
  of messages, and whatever the tasks' interleaving, the messages about a connection (written
  or still in the channel) are the beginning of one conversation, which is complete when the
  task has ended. Nothing is said about a connection the host has not asked for.
\<close>

lemma remote_conversations:
  assumes "remote_start enc dec rd w = Inr s0" "distinct (List.map_filter connect_id (inbox s0))"
    and "remote_run shard enc evs s0 = Some s" "main_phase s \<noteq> MainReturned"
  shows "\<exists>sent. wr_out (rp_writer s) = wr_out w @ stream enc (Ready # sent) \<and>
    (\<forall>i. i \<notin> ct_id ` set (conn_tasks s) \<longrightarrow> about i (sent @ ch_queue (response s)) = []) \<and>
    (\<forall>t\<in>set (conn_tasks s). \<exists>rest.
      conversation (ct_id t) (ct_read t) (about (ct_id t) (sent @ ch_queue (response s)) @ rest) \<and>
      (ct_phase t = Ended \<longrightarrow> rest = []))"
proof -
  obtain w1 sent where w1: "wrote enc w [Ready] w1" "\<forall>t\<in>set (conn_tasks s). task_ok (view t)"
    and sent: "wrote enc w1 sent (rp_writer s)" "told (views s) (sent @ ch_queue (response s))"
    using remote_told[OF assms] by blast
  have "wr_out (rp_writer s) = wr_out w @ stream enc (Ready # sent)"
    using wrote_stream[OF w1(1)] wrote_stream[OF sent(1)] by (simp add: stream_def)
  moreover have "about i (sent @ ch_queue (response s)) = []" if "i \<notin> ct_id ` set (conn_tasks s)" for i
    using sent(2) that by (auto simp: told_def image_image)
  moreover have "\<exists>rest. conversation (ct_id t) (ct_read t) (about (ct_id t) (sent @ ch_queue (response s)) @ rest) \<and>
      (ct_phase t = Ended \<longrightarrow> rest = [])" if "t \<in> set (conn_tasks s)" for t
    using task_conversation[of "view t"] w1(2) sent(2) that by (auto simp: told_def)
  ultimately show ?thesis by blast
qed

text \<open>An example: the host asks for connection 1 and disconnects.\<close>

definition example_connect :: HostMessage where
  "example_connect = TcpConnect 1 (V4 0x0A000001) 80"

definition example_reader :: reader where
  "example_reader = \<lparr>rd_bytes = stream host_to_allocvec [example_connect], rd_end = None\<rparr>"

definition example_writer :: writer where
  "example_writer = \<lparr>wr_out = [], wr_accepts = None, wr_error = UnexpectedEof, wr_flush_fails = False\<rparr>"

lemma example_reads: "read_loop host_from_bytes example_reader = [Inr (Some example_connect), Inr None]"
proof -
  have "all_fit host_to_allocvec [example_connect]"
    by (simp add: all_fit_def host_to_allocvec_def example_connect_def e_uint_def enc_varint.simps)
  from host_codec.read_loop_stream[OF this, of example_reader] show ?thesis
    by (simp add: example_reader_def)
qed

lemma example_start:
  "remote_start remote_to_allocvec host_from_bytes example_reader example_writer =
     Inr (remote_new [Inr (Some example_connect), Inr None] (example_writer\<lparr>wr_out := frame [6]\<rparr>))"
  by (simp add: remote_start_def example_reads write_message_def remote_to_allocvec_def enc_varint.simps
      write_all_def flush_def example_writer_def frame_def Let_def)

lemmas remote_eval = main_recv_def main_respond_def main_send_def conn_step_def respond_def
  handle_tcp_connect_def handle_tcp_data_def handle_tcp_close_def insert_connection_def remove_connection_def
  update_task_def set_phase_def iteration_end_def break_loop_def remote_new_def new_chan_def chan_send_def
  chan_recv_def write_message_def remote_to_allocvec_def write_all_def flush_def example_writer_def
  example_connect_def receiver_dropped_def e_uint_def enc_varint.simps Let_def

text \<open>Its connection: connected, reported, and two bytes read from the destination.\<close>

definition example_events :: "remote_event list" where
  "example_events = [MainRecv, Conn 0 ConnectOk, Conn 0 Proceed, MainRespond, Conn 0 Proceed, Conn 0 Proceed,
     Conn 0 (DestRead (Inr [104, 105])), Conn 0 Proceed]"

lemma example_run:
  obtains s where "remote_run unat remote_to_allocvec example_events
      (remote_new [Inr (Some example_connect), Inr None] (example_writer\<lparr>wr_out := frame [6]\<rparr>)) = Some s"
    "main_phase s = MainSelect" "\<forall>t\<in>set (conn_tasks s). ct_id t = 1 \<and> ct_read t = [104, 105]"
    "length (conn_tasks s) = 1"
  by (simp add: example_events_def remote_eval)
end
