(* ===== verification/Remote_Data.thy ===== *)
theory Remote_Data
  imports Remote_Invariants
begin

text \<open>
  Where the host's data goes: while a connection is in the remote's map, every \<open>TcpData\<close> for it
  is put on the channel of its task, in order, and what the task writes to the destination is
  that data. The invariant says which tasks the map can name.
\<close>

section \<open>The map names the tasks that relay\<close>

fun in_map :: "conn_phase \<Rightarrow> bool" where
  "in_map (Connecting ip port) = False"
| "in_map (ConnectFailed e) = False"
| "in_map Announcing = False"
| "in_map Inserting = False"
| "in_map Ended = False"
| "in_map _ = True"

definition names_ok :: "RemoteProxy \<Rightarrow> bool" where
  "names_ok s \<longleftrightarrow>
     (\<forall>i k. tcp_connections s i = Some k \<longrightarrow> k < length (conn_tasks s) \<and>
        ct_id (conn_tasks s ! k) = i \<and> in_map (ct_phase (conn_tasks s ! k))) \<and>
     (\<forall>i k d. main_phase s = MainSend i k d \<longrightarrow> tcp_connections s i = Some k)"

text \<open>What a task's step changes in the map, and the lock it needs for it.\<close>

lemma connections_update: "tcp_connections (remove_connection i s) = (tcp_connections s)(i := None)"
  "tcp_connections (insert_connection i k s) = (tcp_connections s)(i \<mapsto> k)"
  by (auto simp: insert_connection_def remove_connection_def Let_def split: option.split)

lemma respond_same: "respond k msg p s = Some s' \<Longrightarrow>
    tcp_connections s' = tcp_connections s \<and> main_phase s' = main_phase s"
  by (auto simp: respond_def split: send_result.splits)

lemma conn_step_map:
  assumes "conn_step shard k ev s = Some s'"
  shows "tcp_connections s' = (case ct_phase (conn_tasks s ! k) of
      Inserting \<Rightarrow> (tcp_connections s)(ct_id (conn_tasks s ! k) \<mapsto> k)
    | Removing \<Rightarrow> (tcp_connections s)(ct_id (conn_tasks s ! k) := None)
    | _ \<Rightarrow> tcp_connections s)"
  using assms
  by (cases "ct_phase (conn_tasks s ! k)")
     (auto simp: conn_step_def Let_def connections_update dest!: respond_same
       split: if_splits conn_event.splits sum.splits list.splits)

lemma conn_step_locked:
  assumes "conn_step shard k ev s = Some s'" "ct_phase (conn_tasks s ! k) = Removing"
  shows "\<not> shard_held shard (main_phase s) (ct_id (conn_tasks s ! k))"
  using assms by (auto simp: conn_step_def Let_def split: if_splits)

lemma task_step_phase:
  assumes "task_step t msgs t'"
  shows "ct_accepted t' = ct_accepted t \<and> (in_map (ct_phase t) \<and> ct_phase t \<noteq> Removing \<longrightarrow> in_map (ct_phase t')) \<and>
    (ct_phase t = Inserting \<longrightarrow> in_map (ct_phase t'))"
  using assms by (cases rule: task_step.cases) (auto simp: goes_def)

text \<open>What a step of task \<open>k\<close> does to the fields this theory looks at.\<close>

lemma view_list:
  assumes "views s' = (views s)[k := t']" "k < length (conn_tasks s)"
  shows "length (conn_tasks s') = length (conn_tasks s)" "view (conn_tasks s' ! k) = t'"
    "j < length (conn_tasks s) \<Longrightarrow> j \<noteq> k \<Longrightarrow> view (conn_tasks s' ! j) = view (conn_tasks s ! j)"
proof -
  show len: "length (conn_tasks s') = length (conn_tasks s)"
    using arg_cong[OF assms(1), of length] by simp
  have "views s' ! n = ((views s)[k := t']) ! n" for n using assms(1) by simp
  with len assms(2) show "view (conn_tasks s' ! k) = t'"
    "j < length (conn_tasks s) \<Longrightarrow> j \<noteq> k \<Longrightarrow> view (conn_tasks s' ! j) = view (conn_tasks s ! j)"
    by (metis length_map nth_list_update_eq nth_map, metis length_map nth_list_update_neq nth_map)
qed

lemma view_eqD:
  assumes "view t = view u"
  shows "ct_id t = ct_id u" "ct_phase t = ct_phase u" "ct_accepted t = ct_accepted u"
  using arg_cong[OF assms, of ct_id] arg_cong[OF assms, of ct_phase] arg_cong[OF assms, of ct_accepted]
  by simp_all

definition only_moves :: "nat \<Rightarrow> RemoteProxy \<Rightarrow> RemoteProxy \<Rightarrow> bool" where
  "only_moves k s s' \<longleftrightarrow> length (conn_tasks s') = length (conn_tasks s) \<and>
     main_phase s' = main_phase s \<and> inbox s' = inbox s \<and>
     (\<forall>j<length (conn_tasks s). ct_id (conn_tasks s' ! j) = ct_id (conn_tasks s ! j) \<and>
        ct_accepted (conn_tasks s' ! j) = ct_accepted (conn_tasks s ! j) \<and>
        (j \<noteq> k \<longrightarrow> ct_phase (conn_tasks s' ! j) = ct_phase (conn_tasks s ! j)))"

lemma conn_step_moves:
  assumes step: "conn_step shard k ev s = Some s'" and k: "k < length (conn_tasks s)"
    and open_ch: "\<not> ch_closed (response s)"
  shows "only_moves k s s'"
    and "in_map (ct_phase (conn_tasks s ! k)) \<and> ct_phase (conn_tasks s ! k) \<noteq> Removing \<or>
      ct_phase (conn_tasks s ! k) = Inserting \<Longrightarrow> in_map (ct_phase (conn_tasks s' ! k))"
proof -
  obtain msgs t' where e: "task_step (view (conn_tasks s ! k)) msgs t'" "views s' = (views s)[k := t']"
    "main_phase s' = main_phase s" "inbox s' = inbox s"
    using conn_step_effect[OF step k open_ch] nth_map[OF k, of view] unfolding task_effect_def by metis
  note v = view_list[OF e(2) k]
  have at: "ct_id (conn_tasks s' ! k) = ct_id (conn_tasks s ! k)"
    "ct_accepted (conn_tasks s' ! k) = ct_accepted (conn_tasks s ! k)"
    using arg_cong[OF v(2), of ct_id] arg_cong[OF v(2), of ct_accepted] task_step_id[OF e(1)]
      task_step_phase[OF e(1)] by simp_all
  show "only_moves k s s'"
    unfolding only_moves_def using v(1) e(3,4) at view_eqD[OF v(3)] by metis
  show "in_map (ct_phase (conn_tasks s' ! k))"
    if "in_map (ct_phase (conn_tasks s ! k)) \<and> ct_phase (conn_tasks s ! k) \<noteq> Removing \<or>
      ct_phase (conn_tasks s ! k) = Inserting"
    using that task_step_phase[OF e(1)] arg_cong[OF v(2), of ct_phase] by auto
qed

lemma task_unique:
  assumes "remote_ok enc w s" "ct_id (conn_tasks s ! j) = ct_id (conn_tasks s ! k)"
    and "j < length (conn_tasks s)" "k < length (conn_tasks s)"
  shows "j = k"
proof -
  have "distinct (map ct_id (views s))" using assms(1) by (simp add: remote_ok_def)
  then have "distinct (map ct_id (conn_tasks s))" by (simp add: comp_def)
  with assms(2-4) show ?thesis by (auto simp: distinct_conv_nth)
qed

lemma names_okD:
  assumes "names_ok s" "tcp_connections s i = Some k"
  shows "k < length (conn_tasks s)" "ct_id (conn_tasks s ! k) = i" "in_map (ct_phase (conn_tasks s ! k))"
  using assms by (simp_all add: names_ok_def)

lemma names_ok_conn:
  assumes step: "conn_step shard k ev s = Some s'" and k: "k < length (conn_tasks s)"
    and ok: "remote_ok enc w s" "names_ok s"
  shows "names_ok s'"
proof -
  let ?i = "ct_id (conn_tasks s ! k)" and ?p = "ct_phase (conn_tasks s ! k)"
  have open_ch: "\<not> ch_closed (response s)" using ok(1) by (simp add: remote_ok_def)
  note mv = conn_step_moves[OF step k open_ch, unfolded only_moves_def]
  note m = conn_step_map[OF step]
  have old: "tcp_connections s ?i = None" if "?p = Inserting"
  proof (rule ccontr)
    assume "tcp_connections s ?i \<noteq> None"
    then obtain j where j: "tcp_connections s ?i = Some j" by blast
    note d = names_okD[OF ok(2) j]
    with task_unique[OF ok(1) d(2) d(1) k] that show False by auto
  qed
  have named: "k' < length (conn_tasks s') \<and> ct_id (conn_tasks s' ! k') = i \<and> in_map (ct_phase (conn_tasks s' ! k'))"
    if "tcp_connections s' i = Some k'" for i k'
  proof (cases "?p = Inserting \<and> i = ?i")
    case True
    with that m have "k' = k" by simp
    with True mv k show ?thesis by simp
  next
    case False
    then have s: "tcp_connections s i = Some k'" "?p = Removing \<longrightarrow> i \<noteq> ?i"
      using that m by (auto split: conn_phase.splits if_splits)
    note d = names_okD[OF ok(2) s(1)]
    show ?thesis
    proof (cases "k' = k")
      case True
      with d s(2) mv(2) mv(1) show ?thesis by auto
    next
      case False
      with d mv(1) show ?thesis by auto
    qed
  qed
  have "tcp_connections s' i = Some j" if "main_phase s' = MainSend i j d" for i j d
  proof -
    have ph: "main_phase s = MainSend i j d" using that mv(1) by simp
    then have ij: "tcp_connections s i = Some j" using ok(2) by (simp add: names_ok_def)
    have "?p = Inserting \<Longrightarrow> i \<noteq> ?i" using ij old by auto
    moreover have "?p = Removing \<Longrightarrow> i \<noteq> ?i" using conn_step_locked[OF step] ph by auto
    ultimately show ?thesis using m ij by (auto split: conn_phase.splits)
  qed
  with named show ?thesis unfolding names_ok_def by blast
qed

section \<open>The main task keeps it\<close>

text \<open>The parts of a task that the main task leaves alone, and the map can only lose names.\<close>

definition same_tasks :: "RemoteProxy \<Rightarrow> RemoteProxy \<Rightarrow> bool" where
  "same_tasks s s' \<longleftrightarrow> (\<forall>k<length (conn_tasks s). k < length (conn_tasks s') \<and>
     ct_id (conn_tasks s' ! k) = ct_id (conn_tasks s ! k) \<and>
     ct_phase (conn_tasks s' ! k) = ct_phase (conn_tasks s ! k))"

definition fewer_names :: "RemoteProxy \<Rightarrow> RemoteProxy \<Rightarrow> bool" where
  "fewer_names s s' \<longleftrightarrow> (\<forall>i k. tcp_connections s' i = Some k \<longrightarrow> tcp_connections s i = Some k)"

lemma names_ok_same:
  assumes "names_ok s" "same_tasks s s'" "fewer_names s s'"
    and "\<And>i k d. main_phase s' = MainSend i k d \<Longrightarrow> tcp_connections s' i = Some k"
  shows "names_ok s'"
  using assms unfolding names_ok_def same_tasks_def fewer_names_def by metis

lemma nth_updated: "j < length xs \<Longrightarrow> xs[k := x] ! j = (if j = k then x else xs ! j)"
  by (simp add: nth_list_update)

lemma update_nth:
  "k < length (conn_tasks s) \<Longrightarrow> conn_tasks (update_task k f s) ! k = f (conn_tasks s ! k)"
  "j \<noteq> k \<Longrightarrow> conn_tasks (update_task k f s) ! j = conn_tasks s ! j"
  by (simp_all add: update_task_def)

lemma same_tasks_update:
  assumes "\<And>t. ct_id (f t) = ct_id t \<and> ct_phase (f t) = ct_phase t" "conn_tasks s' = conn_tasks s"
  shows "same_tasks s (update_task k f s')"
  unfolding same_tasks_def update_task_def using assms by (auto simp: nth_updated)

lemma same_tasks_refl: "conn_tasks s' = conn_tasks s \<Longrightarrow> same_tasks s s'"
  by (simp add: same_tasks_def)

lemma remove_same_tasks: "same_tasks s (remove_connection i s)"
  by (cases "tcp_connections s i")
     (auto simp: remove_connection_def intro: same_tasks_update same_tasks_refl)

lemma connections_simps [simp]:
  "tcp_connections (iteration_end s) = tcp_connections s" "tcp_connections (break_loop s) = tcp_connections s"
  "main_phase (iteration_end s) \<noteq> MainSend i k d" "main_phase (iteration_end s) \<noteq> MainRemove i"
  "conn_tasks (handle_tcp_connect i ip port s) = conn_tasks s @
     [\<lparr>ct_id = i, ct_phase = Connecting ip port, ct_rx = [], ct_open = False,
       ct_out = [], ct_accepted = [], ct_read = [], ct_sent = []\<rparr>]"
  "tcp_connections (handle_tcp_connect i ip port s) = tcp_connections s"
  "conn_tasks (spawn_udp p ip port data s) = conn_tasks s"
  "tcp_connections (spawn_udp p ip port data s) = tcp_connections s"
  by (simp_all add: iteration_end_def break_loop_def handle_tcp_connect_def spawn_udp_def)

text \<open>A step of the main task ends its iteration, or takes data for a task, or waits for \<open>remove\<close>.\<close>

lemma handle_host_message_tasks:
  "same_tasks s (handle_host_message msg s)" "fewer_names s (handle_host_message msg s)"
  "main_phase s = MainSelect \<Longrightarrow> main_phase (handle_host_message msg s) = MainSend i k d \<Longrightarrow>
     msg = HostMessage.TcpData i d \<and> tcp_connections s i = Some k \<and>
     tcp_connections (handle_host_message msg s) = tcp_connections s"
  using remove_same_tasks[of s]
  by (cases msg; auto simp: same_tasks_def fewer_names_def handle_tcp_close_def handle_tcp_data_def
      connections_update nth_append split: option.splits if_splits)+

lemma main_recv_cases:
  assumes "main_recv s = Some s'"
  obtains msg rest where "inbox s = Inr (Some msg) # rest" "s' = handle_host_message msg (s\<lparr>inbox := rest\<rparr>)"
  | rest where "inbox s = [] \<and> rest = [] \<or> (\<exists>r. inbox s = r # rest \<and> (\<forall>msg. r \<noteq> Inr (Some msg)))"
      "s' = break_loop (s\<lparr>inbox := rest\<rparr>)"
proof (cases "inbox s")
  case Nil
  then have "s\<lparr>inbox := []\<rparr> = s" by (cases s) simp
  with Nil assms that(2)[of "[]"] show ?thesis by (auto simp: main_recv_def split: if_splits)
next
  case (Cons r rest)
  with assms that show ?thesis
    by (auto simp: main_recv_def split: if_splits sum.splits option.splits)
qed

lemma names_ok_main:
  assumes "names_ok s"
  shows "main_recv s = Some s' \<Longrightarrow> names_ok s'" "main_respond enc s = Some s' \<Longrightarrow> names_ok s'"
    "main_send s = Some s' \<Longrightarrow> names_ok s'"
proof -
  show "names_ok s'" if r: "main_recv s = Some s'"
  proof -
    have sel: "main_phase s = MainSelect" using r by (auto simp: main_recv_def split: if_splits)
    show ?thesis using r
    proof (cases rule: main_recv_cases)
      case (1 msg rest)
      let ?s = "s\<lparr>inbox := rest\<rparr>"
      have "names_ok ?s" using assms sel by (simp add: names_ok_def)
      with names_ok_same[OF this handle_host_message_tasks(1,2)] handle_host_message_tasks(3)[of ?s msg] sel
      show ?thesis unfolding 1(2) by auto
    next
      case (2 rest)
      with names_ok_same[OF assms same_tasks_refl, of s'] sel show ?thesis by (simp add: fewer_names_def)
    qed
  qed
  show "names_ok s'" if r: "main_respond enc s = Some s'"
  proof (rule names_ok_same[OF assms])
    show "same_tasks s s'" "fewer_names s s'"
      using r by (auto simp: main_respond_def fewer_names_def intro!: same_tasks_refl
          split: if_splits option.splits prod.splits sum.splits)
    show "tcp_connections s' i = Some k" if "main_phase s' = MainSend i k d" for i k d
      using r that by (auto simp: main_respond_def split: if_splits option.splits prod.splits sum.splits)
  qed
  show "names_ok s'" if r: "main_send s = Some s'"
  proof (rule names_ok_same[OF assms])
    show "same_tasks s s'" "fewer_names s s'"
      using r by (auto simp: main_send_def fewer_names_def same_tasks_def update_task_def nth_updated
          split: main_phase.splits if_splits)
    show "tcp_connections s' i = Some k" if "main_phase s' = MainSend i k d" for i k d
      using r that by (auto simp: main_send_def split: main_phase.splits if_splits)
  qed
qed

section \<open>Data of one connection\<close>

fun host_data :: "u32 \<Rightarrow> protocol_error + HostMessage option \<Rightarrow> bytes list" where
  "host_data i (Inr (Some (HostMessage.TcpData j d))) = (if j = i then [d] else [])"
| "host_data i _ = []"

definition data_for :: "u32 \<Rightarrow> (protocol_error + HostMessage option) list \<Rightarrow> bytes list" where
  "data_for i ms = concat (map (host_data i) ms)"

lemma data_for_simps [simp]:
  "data_for i [] = []" "data_for i (ms @ ns) = data_for i ms @ data_for i ns"
  "data_for i [m] = host_data i m"
  by (simp_all add: data_for_def)

text \<open>Data that the main task has taken for task \<open>k\<close> and not yet put on its channel.\<close>

definition transit :: "nat \<Rightarrow> RemoteProxy \<Rightarrow> bytes list" where
  "transit k s = (case main_phase s of MainSend i j d \<Rightarrow> (if j = k then [d] else []) | _ \<Rightarrow> [])"

text \<open>
  Since the inbox was \<open>msgs\<close> and task \<open>k\<close> had accepted \<open>acc\<close>, the messages \<open>got\<close> were handled
  and their data for connection \<open>i\<close> was accepted, in order; only what came after the connection
  had left the map (\<open>late\<close>) was not.
\<close>

definition takes_data ::
  "(protocol_error + HostMessage option) list \<Rightarrow> u32 \<Rightarrow> nat \<Rightarrow> bytes list \<Rightarrow> RemoteProxy \<Rightarrow> bool"
where
  "takes_data msgs i k acc s \<longleftrightarrow>
     k < length (conn_tasks s) \<and> ct_id (conn_tasks s ! k) = i \<and>
     (in_map (ct_phase (conn_tasks s ! k)) \<or> ct_phase (conn_tasks s ! k) = Ended) \<and>
     (\<exists>got new late. msgs = got @ inbox s \<and> ct_accepted (conn_tasks s ! k) = acc @ new \<and>
        data_for i got = new @ transit k s @ late \<and>
        (tcp_connections s i = Some k \<and> (\<forall>j. main_phase s \<noteq> MainRemove j) \<longrightarrow> late = []))"

lemma takes_data_conn:
  assumes step: "conn_step shard j ev s = Some s'" and j: "j < length (conn_tasks s)"
    and ok: "remote_ok enc w s" "names_ok s" "takes_data msgs i k acc s"
  shows "takes_data msgs i k acc s'"
proof -
  have open_ch: "\<not> ch_closed (response s)" using ok(1) by (simp add: remote_ok_def)
  note mv = conn_step_moves[OF step j open_ch, unfolded only_moves_def]
  have k: "k < length (conn_tasks s)" "ct_id (conn_tasks s ! k) = i"
    "in_map (ct_phase (conn_tasks s ! k)) \<or> ct_phase (conn_tasks s ! k) = Ended"
    using ok(3) by (auto simp: takes_data_def)
  have ended: "ct_phase (conn_tasks s ! j) \<noteq> Ended"
    using step by (auto simp: conn_step_def Let_def)
  have removing: "ct_phase (conn_tasks s' ! j) = Ended" if "ct_phase (conn_tasks s ! j) = Removing"
  proof -
    let ?s = "remove_connection (ct_id (conn_tasks s ! j)) s"
    have "s' = update_task j (set_phase Ended) ?s"
      using step that by (auto simp: conn_step_def Let_def split: if_splits)
    moreover have "j < length (conn_tasks ?s)"
      using remove_same_tasks j unfolding same_tasks_def by blast
    ultimately show ?thesis by (simp add: update_nth set_phase_def)
  qed
  have k': "in_map (ct_phase (conn_tasks s' ! k)) \<or> ct_phase (conn_tasks s' ! k) = Ended"
    using mv k removing ended by (cases "k = j") auto
  have "tcp_connections s i = Some k" if "tcp_connections s' i = Some k"
  proof -
    have "k \<noteq> j \<or> ct_phase (conn_tasks s ! j) \<noteq> Inserting" using k(3) by auto
    with that conn_step_map[OF step] show ?thesis
      using k(3) by (auto split: conn_phase.splits if_splits)
  qed
  with ok(3) mv(1) k k' show ?thesis
    unfolding takes_data_def by (auto simp: transit_def)
qed

text \<open>The main task.\<close>

lemma takes_data_same:
  assumes "takes_data msgs i k acc s" "same_tasks s s'" "fewer_names s s'"
    and "ct_accepted (conn_tasks s' ! k) = ct_accepted (conn_tasks s ! k) @ put"
    and "inbox s = r @ inbox s'" "transit k s @ data_for i r = put @ transit k s' @ lost"
    and "tcp_connections s' i = Some k \<and> (\<forall>j. main_phase s' \<noteq> MainRemove j) \<Longrightarrow>
      lost = [] \<and> (\<forall>j. main_phase s \<noteq> MainRemove j)"
    and "data_for i r = [] \<or> transit k s = [] \<and> (put = [] \<and> transit k s' = [] \<or> tcp_connections s i = Some k \<and> (\<forall>j. main_phase s \<noteq> MainRemove j))"
  shows "takes_data msgs i k acc s'"
proof -
  have k: "k < length (conn_tasks s)" "ct_id (conn_tasks s ! k) = i"
    "in_map (ct_phase (conn_tasks s ! k)) \<or> ct_phase (conn_tasks s ! k) = Ended"
    using assms(1) by (auto simp: takes_data_def)
  obtain got new late where g: "msgs = got @ inbox s" "ct_accepted (conn_tasks s ! k) = acc @ new"
    "data_for i got = new @ transit k s @ late"
    "tcp_connections s i = Some k \<and> (\<forall>j. main_phase s \<noteq> MainRemove j) \<longrightarrow> late = []"
    using assms(1) by (auto simp: takes_data_def)
  have msgs: "msgs = (got @ r) @ inbox s'" "ct_accepted (conn_tasks s' ! k) = acc @ (new @ put)"
    using g(1,2) assms(4,5) by simp_all
  have "\<exists>late'. data_for i (got @ r) = (new @ put) @ transit k s' @ late' \<and>
      (late = [] \<and> lost = [] \<longrightarrow> late' = [])"
    using assms(6,8)
  proof (elim disjE)
    assume "data_for i r = []"
    with assms(6) g(3) show ?thesis by (intro exI[of _ "lost @ late"]) simp
  next
    assume c: "transit k s = [] \<and> (put = [] \<and> transit k s' = [] \<or> tcp_connections s i = Some k \<and> (\<forall>j. main_phase s \<noteq> MainRemove j))"
    with g(4) assms(6) g(3) show ?thesis by (intro exI[of _ "late @ lost"]) auto
  qed
  then obtain late' where "data_for i (got @ r) = (new @ put) @ transit k s' @ late'"
    "late = [] \<and> lost = [] \<longrightarrow> late' = []" by blast
  moreover have "tcp_connections s' i = Some k \<Longrightarrow> tcp_connections s i = Some k"
    using assms(3) by (simp add: fewer_names_def)
  ultimately show ?thesis
    using msgs k assms(2,7) g(4) unfolding takes_data_def same_tasks_def by metis
qed

lemma transit_simps [simp]:
  "transit k (iteration_end s) = []" "transit k (break_loop s) = []"
  "main_phase s = MainSelect \<Longrightarrow> transit k s = []" "main_phase s = MainRemove i \<Longrightarrow> transit k s = []"
  by (simp_all add: transit_def iteration_end_def break_loop_def)

lemma handle_host_message_accepted:
  "k < length (conn_tasks s) \<Longrightarrow>
   ct_accepted (conn_tasks (handle_host_message msg s) ! k) = ct_accepted (conn_tasks s ! k)"
  "inbox (handle_host_message msg s) = inbox s"
  by (cases msg; auto simp: handle_tcp_close_def handle_tcp_data_def handle_tcp_connect_def spawn_udp_def
      nth_append remove_connection_def update_task_def nth_updated split: option.splits)+

text \<open>A message about other things leaves nothing in transit to task \<open>k\<close>.\<close>

lemma handle_host_message_transit:
  assumes "names_ok s" "main_phase s = MainSelect" "ct_id (conn_tasks s ! k) = i"
  shows "(\<exists>d. msg = HostMessage.TcpData i d \<and> tcp_connections s i = Some k \<and>
      transit k (handle_host_message msg s) = [d]) \<or>
    transit k (handle_host_message msg s) = [] \<and>
      (host_data i (Inr (Some msg)) \<noteq> [] \<longrightarrow> tcp_connections (handle_host_message msg s) i \<noteq> Some k)"
proof (cases msg)
  case (TcpData j d)
  with assms names_okD(2)[OF assms(1), of j k] show ?thesis
    by (auto simp: handle_tcp_data_def transit_def iteration_end_def split: option.split)
qed (use assms(2) in auto)

lemma takes_data_recv:
  assumes r: "main_recv s = Some s'" and ok: "names_ok s" "takes_data msgs i k acc s"
  shows "takes_data msgs i k acc s'"
proof -
  have sel: "main_phase s = MainSelect" using r by (auto simp: main_recv_def split: if_splits)
  have k: "k < length (conn_tasks s)" "ct_id (conn_tasks s ! k) = i" using ok(2) by (auto simp: takes_data_def)
  show ?thesis using r
  proof (cases rule: main_recv_cases)
    case (1 msg rest)
    let ?s = "s\<lparr>inbox := rest\<rparr>"
    note t = handle_host_message_tasks[where s = ?s and msg = msg]
    have m: "names_ok ?s" using ok(1) by (simp add: names_ok_def)
    have same: "same_tasks s s'" "fewer_names s s'"
      using t(1,2) unfolding 1(2) same_tasks_def fewer_names_def by simp_all
    have acc: "ct_accepted (conn_tasks s' ! k) = ct_accepted (conn_tasks s ! k) @ []" "inbox s' = rest"
      using handle_host_message_accepted(1)[of k ?s msg] handle_host_message_accepted(2)[of msg ?s] k(1) 1(2) by simp_all
    consider d where "msg = HostMessage.TcpData i d" "tcp_connections s i = Some k" "transit k s' = [d]"
      | "transit k s' = []" "host_data i (Inr (Some msg)) \<noteq> [] \<longrightarrow> tcp_connections s' i \<noteq> Some k"
      using handle_host_message_transit[OF m, of k i msg] sel k(2) 1(2) by auto
    then show ?thesis
    proof cases
      case (1 d)
      then show ?thesis
        by (intro takes_data_same[OF ok(2) same acc(1), of "[Inr (Some msg)]" "[]"])
           (simp_all add: \<open>inbox s = _\<close> acc(2) sel)
    next
      case 2
      then show ?thesis
        by (intro takes_data_same[OF ok(2) same acc(1), of "[Inr (Some msg)]" "host_data i (Inr (Some msg))"])
           (auto simp: \<open>inbox s = _\<close> acc(2) sel)
    qed
  next
    case (2 rest)
    then obtain r where r: "inbox s = r @ rest" "data_for i r = []"
    proof (elim disjE exE conjE)
      fix x assume x: "inbox s = x # rest" "\<forall>msg. x \<noteq> Inr (Some msg)"
      have "host_data i x = []"
      proof (cases x)
        case (Inr m)
        with x(2) show ?thesis by (cases m) auto
      qed simp
      with x(1) that[of "[x]"] show ?thesis by simp
    qed (use that[of "[]"] in simp)
    have "same_tasks s s'" "fewer_names s s'"
      by (simp_all add: 2(2) same_tasks_refl fewer_names_def)
    from takes_data_same[OF ok(2) this, of "[]" r "[]"] show ?thesis
      using r sel by (simp add: 2(2))
  qed
qed

lemma takes_data_respond:
  assumes r: "main_respond enc s = Some s'" and ok: "takes_data msgs i k acc s"
  shows "takes_data msgs i k acc s'"
proof -
  have "conn_tasks s' = conn_tasks s \<and> tcp_connections s' = tcp_connections s \<and> inbox s' = inbox s \<and>
      transit k s = [] \<and> transit k s' = [] \<and> (\<forall>j. main_phase s \<noteq> MainRemove j)"
    using r by (auto simp: main_respond_def split: if_splits option.splits prod.splits sum.splits)
  moreover from this have "same_tasks s s'" "fewer_names s s'"
    by (simp_all add: same_tasks_refl fewer_names_def)
  ultimately show ?thesis using takes_data_same[OF ok, of s' "[]" "[]" "[]"] by simp
qed

lemma takes_data_send:
  assumes r: "main_send s = Some s'" and ok: "takes_data msgs i k acc s"
  shows "takes_data msgs i k acc s'"
proof -
  obtain j n d where p: "main_phase s = MainSend j n d"
    using r by (auto simp: main_send_def split: main_phase.splits)
  have k: "k < length (conn_tasks s)" using ok by (simp add: takes_data_def)
  let ?f = "\<lambda>t. t\<lparr>ct_rx := ct_rx t @ [d], ct_accepted := ct_accepted t @ [d]\<rparr>"
  consider "s' = s\<lparr>main_phase := MainRemove j\<rparr>" | "s' = iteration_end (update_task n ?f s)"
    using r by (auto simp: main_send_def p split: if_splits)
  then show ?thesis
  proof cases
    case 1
    then have "same_tasks s s'" "fewer_names s s'" by (simp_all add: same_tasks_refl fewer_names_def)
    from takes_data_same[OF ok this, of "[]" "[]" "transit k s"] show ?thesis by (simp add: 1)
  next
    case 2
    have "same_tasks s s'" "fewer_names s s'"
      by (auto simp: 2 fewer_names_def same_tasks_def update_task_def nth_updated)
    moreover have "ct_accepted (conn_tasks s' ! k) = ct_accepted (conn_tasks s ! k) @ transit k s"
      using k by (simp add: 2 update_task_def nth_updated transit_def p)
    ultimately show ?thesis
      using takes_data_same[OF ok, of s' "transit k s" "[]" "[]"] by (simp add: 2 p)
  qed
qed

section \<open>Runs\<close>

definition remote_inv :: "(RemoteMessage \<Rightarrow> string + bytes) \<Rightarrow> writer \<Rightarrow> RemoteProxy \<Rightarrow> bool" where
  "remote_inv enc w s \<longleftrightarrow> remote_ok enc w s \<and> udp_ok s \<and> names_ok s"

lemma udp_task_step_same:
  "udp_task_step k ph ev s = Some s' \<Longrightarrow> conn_tasks s' = conn_tasks s \<and> tcp_connections s' = tcp_connections s \<and>
     main_phase s' = main_phase s \<and> inbox s' = inbox s"
  by (cases "(k, ph, ev, s)" rule: udp_task_step.cases) (auto simp: update_udp_def split: send_result.splits)

lemma remote_inv_step:
  assumes step: "remote_step shard enc ev s = Some s'" and inv: "remote_inv enc w s"
  shows "remote_inv enc w s' \<and> (takes_data msgs i k acc s \<longrightarrow> takes_data msgs i k acc s')"
proof -
  have ok: "remote_ok enc w s" "udp_ok s" "names_ok s" using inv by (simp_all add: remote_inv_def)
  have "remote_ok enc w s' \<and> udp_ok s'" using remote_step_ok[OF step] ok by simp
  moreover have "names_ok s' \<and> (takes_data msgs i k acc s \<longrightarrow> takes_data msgs i k acc s')"
  proof (cases ev)
    case (Conn j cev)
    then have "conn_step shard j cev s = Some s'" "j < length (conn_tasks s)"
      using step by (auto split: if_splits)
    with names_ok_conn[OF _ _ ok(1,3)] takes_data_conn[OF _ _ ok(1,3)] show ?thesis by blast
  next
    case (Datagram j uev)
    then have "udp_task_step j (ut_phase (udp_tasks s ! j)) uev s = Some s'"
      using step by (auto split: if_splits)
    from udp_task_step_same[OF this] ok(3) show ?thesis
      by (auto simp: names_ok_def takes_data_def transit_def)
  qed (use step names_ok_main[OF ok(3)] takes_data_recv[OF _ ok(3)] takes_data_respond takes_data_send in auto)
  ultimately show ?thesis by (simp add: remote_inv_def)
qed

lemma remote_inv_run:
  "remote_run shard enc evs s = Some s' \<Longrightarrow> remote_inv enc w s \<Longrightarrow>
   remote_inv enc w s' \<and> (takes_data msgs i k acc s \<longrightarrow> takes_data msgs i k acc s')"
proof (induction evs arbitrary: s)
  case (Cons ev evs)
  then obtain s1 where "remote_step shard enc ev s = Some s1" "remote_run shard enc evs s1 = Some s'"
    by (auto simp: bind_eq_Some_conv)
  with Cons.IH[of s1] remote_inv_step[of shard enc ev s s1 w msgs i k acc] Cons.prems(2) show ?case by blast
qed simp

lemma remote_new_inv: "distinct (List.map_filter connect_id msgs) \<Longrightarrow> remote_inv enc w (remote_new msgs w)"
  using remote_new_ok[of msgs enc w] by (simp add: remote_inv_def names_ok_def remote_new_def)

lemma remote_accepts:
  assumes "remote_run shard enc evs1 (remote_new msgs w) = Some s1"
    and "distinct (List.map_filter connect_id msgs)"
    and "tcp_connections s1 i = Some k" "main_phase s1 = MainSelect"
    and "remote_run shard enc evs2 s1 = Some s" "conn_tasks s ! k = t"
  shows "\<exists>got new late lost. inbox s1 = got @ inbox s \<and>
    ct_accepted t = ct_accepted (conn_tasks s1 ! k) @ new \<and>
    data_for i got = new @ transit k s @ late \<and>
    (tcp_connections s i = Some k \<and> (\<forall>j. main_phase s \<noteq> MainRemove j) \<longrightarrow> late = []) \<and>
    ct_out t @ in_hand (ct_phase t) @ lost @ concat (ct_rx t) = concat (ct_accepted t) \<and>
    (relaying (ct_phase t) \<longrightarrow> lost = [])"
proof -
  have inv1: "remote_inv enc w s1"
    using remote_inv_run[OF assms(1) remote_new_inv[OF assms(2)]] by blast
  then have "names_ok s1" by (simp add: remote_inv_def)
  from names_okD[OF this assms(3)] assms(4)
  have "takes_data (inbox s1) i k (ct_accepted (conn_tasks s1 ! k)) s1"
    by (simp add: takes_data_def)
  then have d: "takes_data (inbox s1) i k (ct_accepted (conn_tasks s1 ! k)) s" and inv: "remote_inv enc w s"
    using remote_inv_run[OF assms(5) inv1] by blast+
  have "t \<in> set (conn_tasks s)" using d assms(6) by (auto simp: takes_data_def)
  then have "task_ok (view t)" using inv by (simp add: remote_inv_def remote_ok_def)
  then obtain lost where lost: "ct_out t @ in_hand (ct_phase t) @ lost @ concat (ct_rx t) = concat (ct_accepted t)"
    "relaying (ct_phase t) \<longrightarrow> lost = []"
    by (auto simp: task_ok_def)
  obtain got new late where "inbox s1 = got @ inbox s" "ct_accepted t = ct_accepted (conn_tasks s1 ! k) @ new"
    "data_for i got = new @ transit k s @ late"
    "tcp_connections s i = Some k \<and> (\<forall>j. main_phase s \<noteq> MainRemove j) \<longrightarrow> late = []"
    using d assms(6) by (auto simp: takes_data_def)
  with lost show ?thesis by (intro exI conjI)
qed


text \<open>The example: the connection is inserted, then the host's bytes 1, 2 reach the destination.\<close>

definition example_inbox :: "(protocol_error + HostMessage option) list" where
  "example_inbox = [Inr (Some example_connect), Inr (Some (HostMessage.TcpData 1 [1, 2])), Inr None]"


end
