(* ===== verification/System.thy ===== *)
theory System
  imports Host_Upload Host_Download Remote_Data
begin

text \<open>
  The two programs together: the remote reads what the host's loop has written to SSH. The
  host never asks for a connection identifier twice, so what the theories of the remote assume
  of their input holds for every session; and the bytes of an upload reach the destination.
\<close>

section \<open>The host asks for each connection once\<close>

definition asks :: "HostMessage list \<Rightarrow> u32 list" where
  "asks ms = List.map_filter (\<lambda>m. connect_id (Inr (Some m))) ms"

lemma asks_simps [simp]:
  "asks [] = []" "asks (ms @ ns) = asks ms @ asks ns"
  "asks (m # ms) = (case connect_id (Inr (Some m)) of None \<Rightarrow> [] | Some i \<Rightarrow> [i]) @ asks ms"
  by (simp_all add: asks_def List.map_filter_def split: option.split)

text \<open>What is asked in the outgoing channel: every statement but the handling of a SYN keeps it.\<close>

definition queue_asks :: "u32 list \<Rightarrow> Host \<Rightarrow> bool" where
  "queue_asks ids s \<longleftrightarrow> asks (ch_queue (to_remote s)) = ids"

interpretation asks: channel_invariant_dns "queue_asks ids" ep "\<lambda>_. True" for ids ep
proof unfold_locales
  fix m :: HostMessage
  assume "plain m"
  then show "keeps True (queue_asks ids) (send_remote m)"
    by (cases m) (auto simp: keeps_def send_remote_def queue_asks_def chan_send_def split: send_result.splits if_splits)
qed (auto simp: queue_asks_def keeps_def send_tun_def send_remote_def chan_send_def split: send_result.splits if_splits)

text \<open>A SYN asks for the next identifier, if its message finds room.\<close>

lemma outbound_syn_asks:
  "asks (ch_queue (to_remote (snd (outbound_syn key tcp s)))) =
     asks (ch_queue (to_remote s)) \<or>
   asks (ch_queue (to_remote (snd (outbound_syn key tcp s)))) =
     asks (ch_queue (to_remote s)) @ [next_id (nat_table s)]"
  by (auto simp: outbound_syn_def create_tcp_connection_def send_remote_def chan_send_def Let_def
      split: send_result.split)

lemma tun_packet_asks:
  "asks (ch_queue (to_remote (snd (handle_tun_packet ep clock data s)))) = asks (ch_queue (to_remote s)) \<or>
   opens ep data \<and> asks (ch_queue (to_remote (snd (handle_tun_packet ep clock data s)))) =
     asks (ch_queue (to_remote s)) @ [next_id (nat_table s)]"
proof (cases "\<exists>tcp. parse_ip_packet ep data = Ok (Tcp tcp) \<and> is_syn tcp")
  case True
  then obtain tcp where "parse_ip_packet ep data = Ok (Tcp tcp)" "is_syn tcp" by blast
  with outbound_syn_asks[of "tcp_key tcp" tcp s] show ?thesis
    by (auto simp: handle_tun_packet_def handle_outbound_tcp_def is_syn_def opens_def Let_def)
next
  case False
  have "queue_asks (asks (ch_queue (to_remote s))) (snd (handle_tun_packet ep clock data s))"
    using False by (intro asks.tun_packet) (auto simp: queue_asks_def)
  then show ?thesis by (simp add: queue_asks_def)
qed

section \<open>A run of the host's loop\<close>

text \<open>
  What has been written since \<open>w\<close> and what is queued ask for distinct connections, all of them
  among the first \<open>n\<close> identifiers that the table hands out.
\<close>

definition fresh_asks :: "nat \<Rightarrow> u32 list \<Rightarrow> bool" where
  "fresh_asks n ids \<longleftrightarrow> distinct ids \<and> (\<forall>i\<in>set ids. unat (i - 1) < n)"

definition loop_asks :: "(HostMessage \<Rightarrow> string + bytes) \<Rightarrow> writer \<Rightarrow> nat \<Rightarrow> Loop \<Rightarrow> bool" where
  "loop_asks enc w n l \<longleftrightarrow> host_wf n (lp_host l) \<and> wr_accepts (lp_writer l) = None \<and>
     \<not> wr_flush_fails (lp_writer l) \<and>
     (\<exists>sent. wrote enc w sent (lp_writer l) \<and>
        fresh_asks n (asks sent @ asks (ch_queue (to_remote (lp_host l)))))"

lemma fresh_asks_new:
  assumes "fresh_asks n ids" "n < 2 ^ 32"
  shows "fresh_asks (Suc n) (ids @ [1 + word_of_nat n])"
proof -
  have "unat (1 + word_of_nat n - 1 :: u32) = n" using assms(2) by (simp add: unat_of_nat)
  with assms(1) show ?thesis by (auto simp: fresh_asks_def less_Suc_eq)
qed

lemma fresh_asks_mono: "fresh_asks n ids \<Longrightarrow> n \<le> m \<Longrightarrow> fresh_asks m ids"
  by (auto simp: fresh_asks_def)

lemma fresh_asks_drop: "fresh_asks n (xs @ ys @ zs) \<Longrightarrow> fresh_asks n (xs @ zs)"
  by (auto simp: fresh_asks_def)

text \<open>A step whose handler changes only the host.\<close>

lemma loop_asks_host:
  assumes "loop_asks enc w n l" "lp_writer l' = lp_writer l" "n \<le> m" "host_wf m (lp_host l')"
    and "asks (ch_queue (to_remote (lp_host l'))) = asks (ch_queue (to_remote (lp_host l))) \<or>
      m = Suc n \<and> n < 2 ^ 32 \<and>
      asks (ch_queue (to_remote (lp_host l'))) = asks (ch_queue (to_remote (lp_host l))) @ [1 + word_of_nat n]"
  shows "loop_asks enc w m l'"
proof -
  obtain sent where sent: "wrote enc w sent (lp_writer l)"
    "fresh_asks n (asks sent @ asks (ch_queue (to_remote (lp_host l))))"
    using assms(1) by (auto simp: loop_asks_def)
  have "fresh_asks m (asks sent @ asks (ch_queue (to_remote (lp_host l'))))"
    using assms(5) fresh_asks_new[OF sent(2)] fresh_asks_mono[OF sent(2) assms(3)] by auto
  with assms(1,2,4) sent(1) show ?thesis by (auto simp: loop_asks_def)
qed

lemma loop_asks_write:
  assumes "loop_asks enc w n l"
  shows "loop_asks enc w n (snd (loop_step ep enc ToRemoteReady l))"
proof (cases "ch_queue (to_remote (lp_host l))")
  case Nil
  with assms show ?thesis by (simp add: chan_recv_def)
next
  case (Cons m rest)
  obtain r w' where w: "write_message enc m (lp_writer l) = (r, w')"
    by (cases "write_message enc m (lp_writer l)")
  let ?l = "snd (loop_step ep enc ToRemoteReady l)"
  have l: "?l = l\<lparr>lp_host := (lp_host l)\<lparr>to_remote := to_remote (lp_host l)\<lparr>ch_queue := rest\<rparr>\<rparr>, lp_writer := w'\<rparr>"
    using w by (simp add: chan_recv_def Cons)
  obtain sent where sent: "wrote enc w sent (lp_writer l)" "fresh_asks n (asks sent @ asks (m # rest))"
    using assms Cons by (auto simp: loop_asks_def simp del: asks_simps(3))
  have ok: "wr_accepts (lp_writer l) = None" "\<not> wr_flush_fails (lp_writer l)"
    using assms by (simp_all add: loop_asks_def)
  note wm = write_message_ok_writer[OF ok w]
  have "\<exists>sent'. wrote enc w sent' w' \<and> fresh_asks n (asks sent' @ asks rest)"
  proof (cases r)
    case (Inl e)
    with wm sent(1) have "wrote enc w sent w'" by auto
    with sent(2) fresh_asks_drop show ?thesis by (intro exI[of _ sent]) (auto simp: asks_simps(3))
  next
    case (Inr u)
    with wrote_snoc[OF sent(1)] w have "wrote enc w (sent @ [m]) w'" by simp
    with sent(2) show ?thesis by (intro exI[of _ "sent @ [m]"]) simp
  qed
  with assms wm show ?thesis unfolding l by (simp add: loop_asks_def on_table_def)
qed

lemma loop_asks_step:
  assumes laws: "etherparse_laws ep" and ok: "loop_asks enc w n l" and n: "n < 2 ^ 32"
  shows "loop_asks enc w (if opens_event ep ev then Suc n else n) (snd (loop_step ep enc ev l))"
proof (cases "(ep, enc, ev, l)" rule: loop_step.cases)
  case (1 ep' enc' clock data l')
  have wf: "host_wf n (lp_host l)" using ok by (simp add: loop_asks_def)
  then have next_id: "next_id (nat_table (lp_host l)) = 1 + word_of_nat n"
    by (auto simp: on_table_def ids_within_def dest: nat_wf_ids)
  show ?thesis
    using 1 tun_packet_safe_step[OF laws wf n, of "take 65536 data" clock] n next_id
      tun_packet_asks[of ep clock "take 65536 data" "lp_host l"]
    by (intro loop_asks_host[OF ok]) (auto simp: run_handler_simps)
next
  case (3 ep' enc' l')
  have "loop_asks enc w n (snd (run_handler (handle_remote_message ep msg) (l\<lparr>lp_incoming := rest\<rparr>)))" for msg rest
  proof (rule loop_asks_host[OF ok])
    have "keeps True (host_wf n) (handle_remote_message ep msg)" by (rule keeps_remote_message) simp
    with ok show "host_wf n (lp_host (snd (run_handler (handle_remote_message ep msg) (l\<lparr>lp_incoming := rest\<rparr>))))"
      by (auto simp: run_handler_simps loop_asks_def dest: keepsD)
    from asks.any_message[of _ "lp_host l" msg ep]
    show "asks (ch_queue (to_remote (lp_host (snd (run_handler (handle_remote_message ep msg) (l\<lparr>lp_incoming := rest\<rparr>)))))) =
        asks (ch_queue (to_remote (lp_host l))) \<or> n = Suc n \<and> n < 2 ^ 32 \<and>
      asks (ch_queue (to_remote (lp_host (snd (run_handler (handle_remote_message ep msg) (l\<lparr>lp_incoming := rest\<rparr>)))))) =
        asks (ch_queue (to_remote (lp_host l))) @ [1 + word_of_nat n]"
      by (simp add: run_handler_simps queue_asks_def)
  qed (simp_all add: run_handler_simps)
  moreover have "loop_asks enc w n (l\<lparr>lp_incoming := rest\<rparr>)" for rest
    using ok by (simp add: loop_asks_def)
  ultimately show ?thesis using 3 ok by (auto split: list.split sum.split option.split)
next
  case 4
  then have "ev = ToRemoteReady" by simp
  with loop_asks_write[OF ok] show ?thesis by (simp del: loop_step.simps)
next
  case (6 ep' enc' result l')
  then show ?thesis
    using ok
    by (auto simp: handle_query_def register_query_def chan_send_def loop_asks_def on_table_def Let_def
        split: option.split sum.split prod.split send_result.splits)
next
  case (5 ep' enc' failure l')
  with ok show ?thesis
    by (auto simp: loop_asks_def on_table_def Let_def split: option.split prod.split)
qed (use ok in auto)

lemma loop_asks_run:
  assumes laws: "etherparse_laws ep"
  shows "loop_asks enc w n l \<Longrightarrow> n + length (filter (opens_event ep) evs) < 2 ^ 32 \<Longrightarrow>
    \<exists>m. loop_asks enc w m (snd (loop_run ep enc evs l))"
proof (induction evs arbitrary: n l)
  case Nil
  then show ?case by auto
next
  case (Cons ev evs)
  let ?m = "if opens_event ep ev then Suc n else n"
  have step: "loop_asks enc w ?m (snd (loop_step ep enc ev l))"
    using loop_asks_step[OF laws Cons.prems(1), of ev] Cons.prems(2) by simp
  have "?m + length (filter (opens_event ep) evs) < 2 ^ 32" using Cons.prems(2) by (auto split: if_splits)
  from Cons.IH[OF step this] step show ?case
    by (auto simp: loop_run_step simp del: loop_step.simps)
qed

lemma session_asks:
  assumes "run_proxy_loop ep enc from_bytes rd w dns evs = (exit, w')" "etherparse_laws ep"
    and "length (filter (opens_event ep) evs) < 2 ^ 32" "wr_accepts w = None" "\<not> wr_flush_fails w"
  shows "\<exists>sent. wrote enc w sent w' \<and> distinct (asks sent)"
proof (cases "fst (read_message from_bytes rd) = Inr (Some Ready)")
  case False
  then have "w' = w"
    using assms(1) by (auto simp: run_proxy_loop_def split: prod.splits sum.splits option.splits RemoteMessage.splits)
  then show ?thesis by (intro exI[of _ "[]"]) (simp add: wrote_Nil)
next
  case True
  then obtain rd' where rd: "read_message from_bytes rd = (Inr (Some Ready), rd')"
    by (cases "read_message from_bytes rd") auto
  let ?l = "\<lparr>lp_host = initial_host dns, lp_incoming = read_loop from_bytes rd', lp_writer = w, lp_tun = []\<rparr>"
  obtain r l where run: "loop_run ep enc evs ?l = (r, l)" by (cases "loop_run ep enc evs ?l")
  have "loop_asks enc w 0 ?l"
    using assms(4,5) initial_host_wf[of dns]
    by (auto simp: loop_asks_def fresh_asks_def initial_host_def new_chan_def intro: wrote_Nil exI[of _ "[]"])
  then obtain m where "loop_asks enc w m l"
    using loop_asks_run[OF assms(2), of enc w 0 ?l evs] assms(3) run by auto
  then obtain sent where sent: "wrote enc w sent (lp_writer l)" "distinct (asks sent)"
    "wr_accepts (lp_writer l) = None" "\<not> wr_flush_fails (lp_writer l)"
    by (auto simp: loop_asks_def fresh_asks_def)
  obtain q w2 where w2: "write_message enc Shutdown (lp_writer l) = (q, w2)"
    by (cases "write_message enc Shutdown (lp_writer l)")
  have w': "w' = (if r = Break then w2 else lp_writer l)"
    using assms(1) rd run w2 by (cases r) (auto simp: run_proxy_loop_def)
  have "\<exists>sent. wrote enc w sent w2 \<and> distinct (asks sent)"
  proof (cases q)
    case (Inl e)
    with write_message_ok_writer[OF sent(3,4) w2] sent(1,2) show ?thesis by auto
  next
    case (Inr u)
    with wrote_snoc[OF sent(1)] w2 have "wrote enc w (sent @ [Shutdown]) w2" by simp
    with sent(2) show ?thesis by (intro exI[of _ "sent @ [Shutdown]"]) simp
  qed
  with sent(1,2) w' show ?thesis by auto
qed

section \<open>Every session\<close>

lemma connects_asks: "List.map_filter connect_id (map (Inr \<circ> Some) ms) = asks ms"
  by (induction ms) (simp_all add: List.map_filter_simps split: option.split)

lemma session_connects:
  assumes "run_proxy_loop ep enc from_bytes rd w dns evs = (exit, w')" "etherparse_laws ep"
    and "length (filter (opens_event ep) evs) < 2 ^ 32" "wr_accepts w = None" "\<not> wr_flush_fails w"
    and "message_codec enc dec" "wr_out w = []" "rd_bytes r = take n (wr_out w')" "length (wr_out w') < 2 ^ 64"
  shows "distinct (List.map_filter connect_id (read_loop dec r))"
proof -
  obtain sent where sent: "wrote enc w sent w'" "distinct (asks sent)"
    using session_asks[OF assms(1-5)] by blast
  obtain k last where k: "read_loop dec r = map (Inr \<circ> Some) (take k sent) @ [last]" "\<forall>m. last \<noteq> Inr (Some m)"
    using wrote_beginning[OF assms(6) sent(1) _ assms(9), of r n] assms(7,8) by auto
  have "connect_id last = None"
    using k(2) by (cases last rule: connect_id.cases) auto
  then have "List.map_filter connect_id (read_loop dec r) = asks (take k sent)"
    by (simp add: k(1) connects_asks[symmetric]) (simp add: List.map_filter_def)
  moreover have "distinct (asks (take k sent))"
  proof -
    have "asks sent = asks (take k sent) @ asks (drop k sent)"
      by (metis append_take_drop_id asks_simps(2))
    with sent(2) show ?thesis by simp
  qed
  ultimately show ?thesis by simp
qed

text \<open>
  C1: Both programs together. Whatever applications, destinations and schedulers do, for every
  session with fewer than \<open>2\<^sup>3\<^sup>2\<close> connection requests and every part of the host's stream that
  has arrived, the remote's answers are, connection by connection, the beginning of one
  conversation each: the host never hears twice that a connection opened or closed, never data
  before \<open>TcpConnected\<close> or after \<open>TcpClosed\<close>, and never bytes out of order.
\<close>

theorem session_conversations:
  assumes "run_proxy_loop ep henc hdec hr hw dns evs = (exit, hw')" "etherparse_laws ep"
    and "length (filter (opens_event ep) evs) < 2 ^ 32" "wr_accepts hw = None" "\<not> wr_flush_fails hw"
    and "message_codec henc dec" "wr_out hw = []" "length (wr_out hw') < 2 ^ 64"
    and "remote_start enc dec r w = Inr s0" "rd_bytes r = take n (wr_out hw')"
    and "remote_run shard enc revs s0 = Some s" "main_phase s \<noteq> MainReturned"
  shows "\<exists>sent. wr_out (rp_writer s) = wr_out w @ stream enc (Ready # sent) \<and>
    (\<forall>i. i \<notin> ct_id ` set (conn_tasks s) \<longrightarrow> about i (sent @ ch_queue (response s)) = []) \<and>
    (\<forall>t\<in>set (conn_tasks s). \<exists>rest.
      conversation (ct_id t) (ct_read t) (about (ct_id t) (sent @ ch_queue (response s)) @ rest) \<and>
      (ct_phase t = Ended \<longrightarrow> rest = []))"
proof -
  obtain w1 where w1: "write_message enc Ready w = (Inr (), w1)" "s0 = remote_new (read_loop dec r) w1"
    using assms(9) by (auto simp: remote_start_def split: prod.splits sum.splits)
  have "distinct (List.map_filter connect_id (inbox s0))"
    using session_connects[OF assms(1-7) assms(10,8)] w1(2) by (simp add: remote_new_def)
  from remote_conversations[OF assms(9) this assms(11,12)] show ?thesis .
qed

text \<open>An example: an application connects to 10.0.0.1 port 80, and the destination sends two bytes.\<close>

lemma example_host_run:
  "\<exists>hw'. run_proxy_loop rfc_etherparse host_to_allocvec remote_from_bytes
      \<lparr>rd_bytes = frame [6], rd_end = None\<rparr> example_writer None [TunRead (0, 0) (Inr example_syn), ToRemoteReady]
      = (StillRunning, hw') \<and> wr_out hw' = stream host_to_allocvec [example_connect]"
proof -
  let ?rd = "\<lparr>rd_bytes = frame [6], rd_end = None\<rparr>"
  have "remote_from_bytes [6] = Inr Ready" by code_simp
  then have "fst (read_message remote_from_bytes ?rd) = Inr (Some Ready)"
    using read_message_frame[of ?rd "[6]" "[]" remote_from_bytes] by simp
  then show ?thesis
    by (cases "read_message remote_from_bytes ?rd")
       (simp add: run_proxy_loop_def loop_run_step run_handler_def handle_tun_packet_def example_syn_parses
         handle_outbound_tcp_def Let_def outbound_syn_def create_tcp_connection_def send_remote_def chan_send_def
         initial_host_def nat_new_def new_chan_def chan_recv_def write_message_def host_to_allocvec_def write_all_def
         flush_def example_writer_def example_connect_def stream_def frame_of_def frame_def no_flags_def)
qed

lemma example_stream_short: "length (stream host_to_allocvec [example_connect]) < 2 ^ 64"
  by (simp add: stream_def frame_of_def frame_def host_to_allocvec_def example_connect_def e_uint_def enc_varint.simps)

theorem session_conversations_witness:
  "\<exists>hw' s sent. run_proxy_loop rfc_etherparse host_to_allocvec remote_from_bytes
      \<lparr>rd_bytes = frame [6], rd_end = None\<rparr> example_writer None [TunRead (0, 0) (Inr example_syn), ToRemoteReady]
      = (StillRunning, hw') \<and> rd_bytes example_reader = wr_out hw' \<and>
    remote_run unat remote_to_allocvec example_events
      (remote_new [Inr (Some example_connect), Inr None] (example_writer\<lparr>wr_out := frame [6]\<rparr>)) = Some s \<and>
    wr_out (rp_writer s) = stream remote_to_allocvec (Ready # sent) \<and>
    (\<forall>t\<in>set (conn_tasks s). \<exists>rest.
      conversation 1 [104, 105] (about 1 (sent @ ch_queue (response s)) @ rest))"
proof -
  obtain hw' where hw': "run_proxy_loop rfc_etherparse host_to_allocvec remote_from_bytes
      \<lparr>rd_bytes = frame [6], rd_end = None\<rparr> example_writer None [TunRead (0, 0) (Inr example_syn), ToRemoteReady]
      = (StillRunning, hw')" "wr_out hw' = stream host_to_allocvec [example_connect]"
    using example_host_run by blast
  have r: "rd_bytes example_reader = take (length (wr_out hw')) (wr_out hw')"
    by (simp add: example_reader_def hw'(2))
  obtain s where s: "remote_run unat remote_to_allocvec example_events
      (remote_new [Inr (Some example_connect), Inr None] (example_writer\<lparr>wr_out := frame [6]\<rparr>)) = Some s"
    "main_phase s = MainSelect" "\<forall>t\<in>set (conn_tasks s). ct_id t = 1 \<and> ct_read t = [104, 105]"
    by (rule example_run)
  have "length (wr_out hw') < 2 ^ 64" using example_stream_short by (simp only: hw'(2))
  moreover have "length (filter (opens_event rfc_etherparse) [TunRead (0, 0) (Inr example_syn), ToRemoteReady]) < 2 ^ 32"
    by simp
  ultimately obtain sent where sent: "wr_out (rp_writer s) = stream remote_to_allocvec (Ready # sent)"
    "\<forall>t\<in>set (conn_tasks s). \<exists>rest. conversation (ct_id t) (ct_read t) (about (ct_id t) (sent @ ch_queue (response s)) @ rest)"
    using session_conversations[OF hw'(1) rfc.etherparse_laws_axioms _ _ _ host_codec.message_codec_axioms _ _
      example_start r s(1)] s(2)
    by (simp add: example_writer_def del: about_simps filter.simps) blast
  have "\<forall>t\<in>set (conn_tasks s). \<exists>rest. conversation 1 [104, 105] (about 1 (sent @ ch_queue (response s)) @ rest)"
    using sent(2) s(3) by metis
  with hw'(1) r s(1) sent(1) show ?thesis by (intro exI conjI) auto
qed

section \<open>An upload reaches its destination\<close>

lemma data_for_forwarded: "concat (data_for i (map (Inr \<circ> Some) ms)) = forwarded i ms"
proof (induction ms)
  case (Cons m ms)
  then show ?case by (cases m) (simp_all add: data_for_def)
qed simp

text \<open>
  C2: From the application to the destination. At the host the connection is established and
  nothing of its stream \<open>S\<close> has been received; of its own packets only data segments of \<open>S\<close> come,
  which may be repeated, overtake each other and leave gaps, and of the remote's messages about
  it only data; everything else may happen between them. At the remote the connection is in the
  map and no data has been accepted for it yet. Then for whatever part of the host's bytes has
  arrived and under any schedule of the remote, what its task writes to the destination is a
  beginning of what an in-order receiver accepts of \<open>S\<close>. When all bytes have arrived, the remote
  has taken all this connection's data, still has it in its map, and its task is relaying and has
  nothing left, then what is written, and what the host still has queued, is exactly this.
\<close>

theorem upload_to_destination:
  assumes "etherparse_laws ep" "message_codec henc dec" "host_wf m (lp_host l)"
    and "m + length (filter (opens_event ep) evs) < 2 ^ 32" "opened (lp_host l)"
    and "accepts key i (isn + 1) (nat_table (lp_host l))" "leads_only key i (nat_table (lp_host l))"
    and "forwarded i (ch_queue (to_remote (lp_host l))) = []"
    and "length S < 2 ^ 32" "upload ep S isn key evs xs"
    and "loop_run ep henc evs l = (Continue, l')" "lp_incoming l = heard @ lp_incoming l'"
    and "\<forall>msg. Inr (Some msg) \<in> set heard \<and> message_id msg = Some i \<longrightarrow> (\<exists>d. msg = RemoteMessage.TcpData i d)"
    and "rd_bytes r = take n (drop (length (wr_out (lp_writer l))) (wr_out (lp_writer l')))"
    and "length (wr_out (lp_writer l')) < 2 ^ 64"
    and "remote_run shard enc evs1 (remote_new msgs w) = Some s1" "distinct (List.map_filter connect_id msgs)"
    and "inbox s1 = earlier @ read_loop dec r" "concat (data_for i earlier) = []"
    and "tcp_connections s1 i = Some k" "main_phase s1 = MainSelect" "ct_accepted (conn_tasks s1 ! k) = []"
    and "remote_run shard enc evs2 s1 = Some s" "conn_tasks s ! k = t"
  shows "prefix (ct_out t) (take (foldl expect 0 xs) S) \<and>
    (length (wr_out (lp_writer l')) \<le> length (wr_out (lp_writer l)) + n \<and> last (read_loop dec r) = Inr None \<and>
     concat (data_for i (inbox s)) = [] \<and> main_phase s = MainSelect \<and> tcp_connections s i = Some k \<and>
     relaying (ct_phase t) \<and> in_hand (ct_phase t) = [] \<and> ct_rx t = [] \<longrightarrow>
       ct_out t @ forwarded i (ch_queue (to_remote (lp_host l'))) = take (foldl expect 0 xs) S)"
proof -
  obtain ms e where ms: "read_loop dec r = map (Inr \<circ> Some) ms @ [e]" "\<forall>msg. e \<noteq> Inr (Some msg)"
    "prefix (forwarded i ms) (take (foldl expect 0 xs) S)"
    "length (wr_out (lp_writer l')) \<le> length (wr_out (lp_writer l)) + n \<and> e = Inr None \<longrightarrow>
      forwarded i ms @ forwarded i (ch_queue (to_remote (lp_host l'))) = take (foldl expect 0 xs) S"
    using upload_arrives[OF assms(1-15)] by blast
  obtain got new late lost where g0: "inbox s1 = got @ inbox s"
    "ct_accepted t = ct_accepted (conn_tasks s1 ! k) @ new"
    "data_for i got = new @ transit k s @ late"
    "tcp_connections s i = Some k \<and> (\<forall>j. main_phase s \<noteq> MainRemove j) \<longrightarrow> late = []"
    "ct_out t @ in_hand (ct_phase t) @ lost @ concat (ct_rx t) = concat (ct_accepted t)"
    "relaying (ct_phase t) \<longrightarrow> lost = []"
    using remote_accepts[OF assms(16,17,20,21,23,24)] by blast
  then have g: "ct_accepted t = new" using assms(22) by simp
  have "data_for i [e] = []" using ms(2) by (cases "(i, e)" rule: host_data.cases) (auto simp: data_for_def)
  then have "concat (data_for i (inbox s1)) = forwarded i ms"
    using data_for_forwarded[of i ms] by (simp add: assms(18,19) ms(1))
  then have all: "concat (data_for i got) @ concat (data_for i (inbox s)) = forwarded i ms"
    using g0(1) by simp
  have "prefix (ct_out t) (concat (data_for i got))"
    using g g0(3,5) by (metis concat_append prefixI append.assoc)
  then have "prefix (ct_out t) (take (foldl expect 0 xs) S)"
    using all ms(3) by (metis prefixI prefix_order.trans)
  moreover have "ct_out t = forwarded i ms" if "concat (data_for i (inbox s)) = []" "main_phase s = MainSelect"
    "tcp_connections s i = Some k" "relaying (ct_phase t)" "in_hand (ct_phase t) = []" "ct_rx t = []"
    using g g0 that all by (simp del: concat_eq_Nil_conv)
  moreover have "last (read_loop dec r) = e" by (simp add: ms(1))
  ultimately show ?thesis using ms(4) by metis
qed

text \<open>The example's two bytes, sent on connection 1 when the remote has it in its map.\<close>

theorem upload_to_destination_witness:
  "\<exists>l' s1 s. loop_run rfc_etherparse host_to_allocvec example_upload example_loop = (Continue, l') \<and>
    inbox s1 = read_loop host_from_bytes \<lparr>rd_bytes = wr_out (lp_writer l'), rd_end = None\<rparr> \<and>
    remote_run unat remote_to_allocvec [MainRecv, MainPush, Conn 0 Proceed, Conn 0 RxRecv, Conn 0 DestWritten] s1
      = Some s \<and> ct_out (conn_tasks s ! 0) = [1, 2]"
proof -
  obtain l' where run: "loop_run rfc_etherparse host_to_allocvec example_upload example_loop = (Continue, l')"
    "wr_out (lp_writer l') = stream host_to_allocvec [HostMessage.TcpData 1 [1, 2]]"
    "forwarded 1 (ch_queue (to_remote (lp_host l'))) = []" "lp_incoming l' = []"
    by (rule example_upload_run)
  let ?r = "\<lparr>rd_bytes = wr_out (lp_writer l'), rd_end = None\<rparr>"
  have "all_fit host_to_allocvec [HostMessage.TcpData 1 [1, 2]]" by (rule host_data_fits) simp
  from host_codec.read_loop_stream[OF this, of ?r]
  have rl: "read_loop host_from_bytes ?r = [Inr (Some (HostMessage.TcpData 1 [1, 2])), Inr None]"
    by (simp add: run(2))
  let ?s0 = "remote_new example_inbox example_writer"
  obtain s1 where s1: "remote_run unat remote_to_allocvec [MainRecv, Conn 0 ConnectOk, Conn 0 Proceed, Conn 0 Proceed] ?s0 = Some s1"
    "tcp_connections s1 1 = Some 0" "main_phase s1 = MainSelect" "ct_accepted (conn_tasks s1 ! 0) = []"
    "inbox s1 = [] @ read_loop host_from_bytes ?r"
    by (simp add: example_inbox_def remote_eval rl)
  obtain s where s: "remote_run unat remote_to_allocvec [MainRecv, MainPush, Conn 0 Proceed, Conn 0 RxRecv, Conn 0 DestWritten] s1 = Some s"
    "inbox s = [Inr None] \<and> main_phase s = MainSelect \<and> tcp_connections s 1 = Some 0 \<and>
     relaying (ct_phase (conn_tasks s ! 0)) \<and> in_hand (ct_phase (conn_tasks s ! 0)) = [] \<and> ct_rx (conn_tasks s ! 0) = []"
    using s1(1) by (auto simp: example_inbox_def remote_eval)
  have dist: "distinct (List.map_filter connect_id example_inbox)"
    by (simp add: example_inbox_def example_connect_def List.map_filter_def)
  have opens: "1 + length (filter (opens_event rfc_etherparse) example_upload) < 2 ^ 32"
    by (simp add: example_upload_def)
  have short: "length (wr_out (lp_writer l')) < 2 ^ 64" using example_upload_short by (simp only: run(2))
  have calm: "\<forall>msg. Inr (Some msg) \<in> set [] \<and> message_id msg = Some 1 \<longrightarrow> (\<exists>d. msg = RemoteMessage.TcpData 1 d)"
    by simp
  have start: "wr_out (lp_writer example_loop) = []" "lp_incoming example_loop = [] @ lp_incoming l'"
    by (simp_all add: example_loop_def run(4))
  have part: "rd_bytes ?r = take (length (wr_out (lp_writer l'))) (drop (length (wr_out (lp_writer example_loop))) (wr_out (lp_writer l')))"
    by (simp add: start(1))
  have none: "concat (data_for 1 []) = []" by (simp add: data_for_def)
  have "concat (data_for 1 (inbox s)) = []" using s(2) by (simp add: data_for_def)
  with upload_to_destination[OF rfc.etherparse_laws_axioms host_codec.message_codec_axioms example_upload_start(1) opens
        example_upload_start(2-5) _ example_upload_is run(1) start(2) calm part short s1(1) dist s1(5) none s1(2-4) s(1) refl]
  have "ct_out (conn_tasks s ! 0) = take (foldl expect 0 [(0, 2)]) [1, 2]"
    using s(2) run(3) rl by simp
  with run(1) s1(5) s(1) show ?thesis
    by (intro exI[of _ l'] exI[of _ s1] exI[of _ s]) (simp add: expect_def del: remote_run.simps)
qed

section \<open>A download reaches its application\<close>

abbreviation said_data :: "u32 \<Rightarrow> RemoteMessage list \<Rightarrow> bytes" where
  "said_data i ms \<equiv> incoming_data i (map (Inr \<circ> Some) ms)"

lemma incoming_data_simps [simp]:
  "incoming_data i [] = []" "incoming_data i (xs @ ys) = incoming_data i xs @ incoming_data i ys"
  "incoming_data i (Inr (Some m) # rs) =
     (case m of RemoteMessage.TcpData j d \<Rightarrow> if j = i then d else [] | _ \<Rightarrow> []) @ incoming_data i rs"
  by (simp_all add: incoming_data_def)

lemma incoming_data_last: "\<forall>m. x \<noteq> Inr (Some m) \<Longrightarrow> incoming_data i [x] = []"
  by (auto simp: incoming_data_def split: sum.split option.split)

lemma said_about: "said_data i (about i ms) = said_data i ms"
proof (induction ms)
  case (Cons m ms)
  then show ?case by (cases m) simp_all
qed simp

lemma relayed_said:
  assumes "relayed i bs errs ms"
  shows "said_data i ms = bs"
proof -
  have "said_data i (map (RemoteMessage.TcpData i) ds) = concat ds" for ds
    by (induction ds) simp_all
  moreover have "said_data i (map (TcpError i) errs) = []" by (induction errs) simp_all
  ultimately show ?thesis
    using assms by (auto simp: relayed_def simp del: list.map_comp)
qed

lemma conversation_said: "conversation i bs ms \<Longrightarrow> said_data i ms = bs"
proof -
  assume conv: "conversation i bs ms"
  show ?thesis
  proof (cases "bs = [] \<and> (\<exists>e. ms = [TcpError i e])")
    case False
    with conv obtain errs ms' where "relayed i bs errs ms'" "ms = ms' @ [TcpClosed i]"
      by (fastforce simp: conversation_def relayed_def)
    then show ?thesis by (simp add: relayed_said)
  qed auto
qed

lemma task_said:
  assumes "task_ok t"
  shows "\<exists>b. ct_read t = said_data (ct_id t) (ct_sent t) @ b \<and> ((\<forall>x. ct_phase t \<noteq> SendingData x) \<longrightarrow> b = [])"
proof -
  have "phase_ok (ct_id t) (ct_read t) (ct_sent t) (ct_phase t)" using assms by (simp add: task_ok_def)
  then show ?thesis
    by (cases "ct_phase t") (auto dest: relayed_said conversation_said)
qed

lemma download_arrives:
  assumes "remote_start enc dec r w = Inr s0" "distinct (List.map_filter connect_id (inbox s0))"
    and "remote_run shard enc revs s0 = Some s" "main_phase s \<noteq> MainReturned"
    and "t \<in> set (conn_tasks s)" "message_codec enc rdec" "length (wr_out (rp_writer s)) < 2 ^ 64"
    and "rd_bytes hr = take n (drop (length (wr_out w)) (wr_out (rp_writer s)))"
  shows "prefix (incoming_data (ct_id t) (read_loop rdec hr)) (ct_read t) \<and>
    (length (wr_out (rp_writer s)) \<le> length (wr_out w) + n \<and> last (read_loop rdec hr) = Inr None \<and>
     about (ct_id t) (ch_queue (response s)) = [] \<and> (\<forall>b. ct_phase t \<noteq> SendingData b) \<longrightarrow>
       incoming_data (ct_id t) (read_loop rdec hr) = ct_read t)"
proof -
  let ?i = "ct_id t"
  obtain w1 sent where w1: "wrote enc w [Ready] w1" "wrote enc w1 sent (rp_writer s)"
    and told: "told (views s) (sent @ ch_queue (response s))" "task_ok (view t)"
    using remote_told[OF assms(1-4)] assms(5) by blast
  have w: "wrote enc w (Ready # sent) (rp_writer s)" using wrote_append[OF w1(2,1)] by simp
  have "about ?i (sent @ ch_queue (response s)) = ct_sent t"
    using told(1) assms(5) by (auto simp: told_def)
  then have said: "said_data ?i (sent @ ch_queue (response s)) = said_data ?i (ct_sent t)"
    by (metis said_about)
  obtain b where b: "ct_read t = said_data ?i (ct_sent t) @ b" "(\<forall>x. ct_phase t \<noteq> SendingData x) \<longrightarrow> b = []"
    using task_said[OF told(2)] by auto
  have ready: "said_data ?i (Ready # ms) = said_data ?i ms" for ms by simp
  obtain k e where k: "read_loop rdec hr = map (Inr \<circ> Some) (take k (Ready # sent)) @ [e]" "\<forall>m. e \<noteq> Inr (Some m)"
    "length (wr_out (rp_writer s)) \<le> length (wr_out w) + n \<and> e = Inr None \<longrightarrow> length (Ready # sent) \<le> k"
    using wrote_beginning[OF assms(6) w assms(8,7)] by blast
  have read: "incoming_data ?i (read_loop rdec hr) = said_data ?i (take k (Ready # sent))"
    using k(1) incoming_data_last[OF k(2)] by (simp del: list.map)
  have "prefix (said_data ?i (take k (Ready # sent))) (said_data ?i (Ready # sent))"
    by (metis append_take_drop_id incoming_data_simps(2) map_append prefixI)
  then have "prefix (incoming_data ?i (read_loop rdec hr)) (ct_read t)"
    using read said b(1) ready by (simp del: list.map) (metis append.assoc prefix_prefix)
  moreover have "incoming_data ?i (read_loop rdec hr) = ct_read t"
    if "length (wr_out (rp_writer s)) \<le> length (wr_out w) + n" "last (read_loop rdec hr) = Inr None"
      "about ?i (ch_queue (response s)) = []" "\<forall>b. ct_phase t \<noteq> SendingData b"
  proof -
    have "take k (Ready # sent) = Ready # sent" using k(1,3) that(1,2) by simp
    moreover have "said_data ?i (ch_queue (response s)) = []"
      using said_about[of ?i "ch_queue (response s)"] that(3) by simp
    ultimately show ?thesis using read said b that(4) ready by (simp del: list.map)
  qed
  ultimately show ?thesis by blast
qed

text \<open>
  C3: From the destination to the application. The bytes that the connection's task has read
  from the destination become data messages, bytes on SSH, messages again at the host and at
  last segments on the device. At the host the connection is established, only its identifier
  leads to its key, and no data of it was taken before; while the loop runs, no SYN, RST or FIN of
  this connection is read from the device, and the messages about it that the loop takes are data
  (after another end of the connection there is nobody to deliver to). Then over every schedule of
  both programs, with any part of the remote's stream arrived and any part of it handled, the
  application gets consecutive segments that hold a beginning of what the task has read; and all
  of it once everything has been written, has arrived and has been handled.
\<close>

theorem download_to_application:
  assumes "remote_start enc dec r w = Inr s0" "distinct (List.map_filter connect_id (inbox s0))"
    and "remote_run shard enc revs s0 = Some s" "main_phase s \<noteq> MainReturned"
    and "t \<in> set (conn_tasks s)" "ct_id t = i" "message_codec enc rdec" "length (wr_out (rp_writer s)) < 2 ^ 64"
    and "rd_bytes hr = take n (drop (length (wr_out w)) (wr_out (rp_writer s)))"
    and "read_loop rdec hr = earlier @ lp_incoming l" "incoming_data i earlier = []"
    and "etherparse_laws ep" "host_wf m (lp_host l)" "m + length (filter (opens_event ep) evs) < 2 ^ 32"
    and "opened (lp_host l)" "relays key i sq (nat_table (lp_host l))" "leads_only key i (nat_table (lp_host l))"
    and "\<forall>ev\<in>set evs. \<not> disturbs ep key ev" "loop_run ep henc evs l = (Continue, l')"
    and "lp_incoming l = got @ lp_incoming l'"
    and "\<forall>msg. Inr (Some msg) \<in> set got \<and> message_id msg = Some i \<longrightarrow> (\<exists>d. msg = RemoteMessage.TcpData i d)"
  shows "\<exists>segs. delivered ep key (lp_tun l' @ ch_queue (to_tun (lp_host l'))) =
      delivered ep key (lp_tun l @ ch_queue (to_tun (lp_host l))) @ segs \<and>
    consecutive sq segs \<and> prefix (concat (map tcp_payload segs)) (ct_read t) \<and>
    (length (wr_out (rp_writer s)) \<le> length (wr_out w) + n \<and> last (read_loop rdec hr) = Inr None \<and>
     about i (ch_queue (response s)) = [] \<and> (\<forall>b. ct_phase t \<noteq> SendingData b) \<and>
     incoming_data i (lp_incoming l') = [] \<longrightarrow> concat (map tcp_payload segs) = ct_read t)"
proof -
  have arrives: "prefix (incoming_data i (read_loop rdec hr)) (ct_read t) \<and>
    (length (wr_out (rp_writer s)) \<le> length (wr_out w) + n \<and> last (read_loop rdec hr) = Inr None \<and>
     about i (ch_queue (response s)) = [] \<and> (\<forall>b. ct_phase t \<noteq> SendingData b) \<longrightarrow>
       incoming_data i (read_loop rdec hr) = ct_read t)"
    using download_arrives[OF assms(1-5,7-9)] assms(6) by simp
  obtain segs where segs: "delivered ep key (lp_tun l' @ ch_queue (to_tun (lp_host l'))) =
      delivered ep key (lp_tun l @ ch_queue (to_tun (lp_host l))) @ segs"
    "consecutive sq segs" "payloads segs = incoming_data i got"
    using download_delivered[OF assms(12-21)] by blast
  have all: "incoming_data i (read_loop rdec hr) = payloads segs @ incoming_data i (lp_incoming l')"
    using segs(3) assms(10,11,20) by simp
  then have "prefix (payloads segs) (ct_read t)" using arrives by (metis append_prefixD)
  with all arrives segs(1,2) show ?thesis
    by (intro exI[of _ segs] conjI impI) simp_all
qed

text \<open>The example of the remote, one step further: the two bytes are written to the host.\<close>

lemma example_download_bytes:
  obtains s where "remote_run unat remote_to_allocvec (example_events @ [MainRespond])
      (remote_new [Inr (Some example_connect), Inr None] (example_writer\<lparr>wr_out := frame [6]\<rparr>)) = Some s"
    "main_phase s = MainSelect" "length (conn_tasks s) = 1" "ct_id (conn_tasks s ! 0) = 1"
    "ct_read (conn_tasks s ! 0) = [104, 105]" "ct_phase (conn_tasks s ! 0) = LoopTop" "ch_queue (response s) = []"
    "wr_out (rp_writer s) = stream remote_to_allocvec [Ready, TcpConnected 1, RemoteMessage.TcpData 1 [104, 105]]"
  by (simp add: example_events_def remote_eval stream_def frame_of_def frame_def)

theorem download_to_application_witness:
  "\<exists>s l' segs. remote_run unat remote_to_allocvec (example_events @ [MainRespond])
      (remote_new [Inr (Some example_connect), Inr None] (example_writer\<lparr>wr_out := frame [6]\<rparr>)) = Some s \<and>
    loop_run rfc_etherparse host_to_allocvec [RemoteRecv] (example_loop\<lparr>lp_incoming :=
      drop 2 (read_loop remote_from_bytes \<lparr>rd_bytes = wr_out (rp_writer s), rd_end = None\<rparr>)\<rparr>) = (Continue, l') \<and>
    delivered rfc_etherparse example_key (ch_queue (to_tun (lp_host l'))) = segs \<and>
    consecutive 1000 segs \<and> concat (map tcp_payload segs) = ct_read (conn_tasks s ! 0) \<and>
    ct_read (conn_tasks s ! 0) = [104, 105]"
proof -
  obtain s where s: "remote_run unat remote_to_allocvec (example_events @ [MainRespond])
      (remote_new [Inr (Some example_connect), Inr None] (example_writer\<lparr>wr_out := frame [6]\<rparr>)) = Some s"
    "main_phase s = MainSelect" "length (conn_tasks s) = 1" "ct_id (conn_tasks s ! 0) = 1"
    "ct_read (conn_tasks s ! 0) = [104, 105]" "ct_phase (conn_tasks s ! 0) = LoopTop" "ch_queue (response s) = []"
    "wr_out (rp_writer s) = stream remote_to_allocvec [Ready, TcpConnected 1, RemoteMessage.TcpData 1 [104, 105]]"
    by (rule example_download_bytes)
  let ?ms = "[Ready, TcpConnected 1, RemoteMessage.TcpData 1 [104, 105]]"
  let ?r = "\<lparr>rd_bytes = wr_out (rp_writer s), rd_end = None\<rparr>"
  have fit: "all_fit remote_to_allocvec ?ms"
    by (simp add: all_fit_def remote_to_allocvec_def e_uint_def e_bytes_def enc_varint.simps)
  from remote_codec.read_loop_stream[OF this, of ?r]
  have rl: "read_loop remote_from_bytes ?r = map (Inr \<circ> Some) ?ms @ [Inr None]" using s(8) by simp
  let ?l = "example_loop\<lparr>lp_incoming := drop 2 (read_loop remote_from_bytes ?r)\<rparr>"
  obtain h where h: "handle_remote_message rfc_etherparse (RemoteMessage.TcpData 1 [104, 105]) (example_host Established) = (Done, h)"
    by (rule example_data_run)
  have run: "loop_run rfc_etherparse host_to_allocvec [RemoteRecv] ?l
      = (Continue, ?l\<lparr>lp_host := h, lp_incoming := [Inr None]\<rparr>)"
    using h by (simp add: rl loop_run_step example_loop_def run_handler_def)
  have task: "conn_tasks s ! 0 \<in> set (conn_tasks s)" using s(3) by (intro nth_mem) simp
  have short: "length (wr_out (rp_writer s)) < 2 ^ 64"
    by (simp add: s(8) stream_def frame_of_def frame_def remote_to_allocvec_def e_uint_def e_bytes_def enc_varint.simps)
  have data: "\<forall>msg. Inr (Some msg) \<in> set [Inr (Some (RemoteMessage.TcpData 1 [104, 105]))] \<and> message_id msg = Some 1 \<longrightarrow>
      (\<exists>d. msg = RemoteMessage.TcpData 1 d)" by auto
  note app = download_to_application[OF example_start _ s(1) _ task s(4) remote_codec.message_codec_axioms short,
    of ?r "length (wr_out (rp_writer s))" "[Inr (Some Ready), Inr (Some (TcpConnected 1))]" ?l rfc_etherparse 1 "[RemoteRecv]"
      example_key 1000, OF _ _ _ _ _ rfc.etherparse_laws_axioms _ _ _ _ _ _ run _ data]
  have "\<exists>segs. delivered rfc_etherparse example_key (ch_queue (to_tun h)) = segs \<and> consecutive 1000 segs \<and>
      concat (map tcp_payload segs) = ct_read (conn_tasks s ! 0)"
    using app s(2,6,7) example_host_wf[of Established] example_relays
    by (simp add: rl example_connect_def List.map_filter_def remote_new_def example_writer_def example_loop_def
        example_host_entry new_chan_def incoming_data_def)
  with s(1,5) run show ?thesis
    by (intro exI[of _ s] exI[of _ "?l\<lparr>lp_host := h, lp_incoming := [Inr None]\<rparr>"]) simp
qed

end
