(* ===== verification/Remote_Answers.thy ===== *)
theory Remote_Answers
  imports Remote_Data
begin

text \<open>
  The datagram tasks of the remote, one per UDP datagram and DNS query: every answer the host
  hears is one that the network gave to the task of one request, and no request is answered
  twice.
\<close>

section \<open>Requests and answers\<close>

fun is_request :: "HostMessage \<Rightarrow> bool" where
  "is_request (UdpDatagram src_port ip port data) = True"
| "is_request (DnsQuery i server data) = True"
| "is_request _ = False"

text \<open>The requests among the results of the reader task, and the request of a task.\<close>

definition requests :: "(protocol_error + HostMessage option) list \<Rightarrow> HostMessage list" where
  "requests rs = filter is_request (List.map_filter (\<lambda>r. case r of Inr m \<Rightarrow> m | Inl e \<Rightarrow> None) rs)"

lemma requests_simps [simp]:
  "requests [] = []" "requests (xs @ ys) = requests xs @ requests ys"
  "requests [Inr (Some m)] = (if is_request m then [m] else [])"
  "requests [Inr None] = []" "requests [Inl e] = []"
  by (simp_all add: requests_def List.map_filter_def)

definition request_of :: "udp_task \<Rightarrow> HostMessage" where
  "request_of u =
     (case ut_purpose u of
        ForDatagram src_port \<Rightarrow> UdpDatagram src_port (ut_dst_ip u) (ut_dst_port u) (ut_data u)
      | ForDns i \<Rightarrow> DnsQuery i (ut_dst_ip u) (ut_data u))"

lemma request_of_phase [simp]: "request_of (u\<lparr>ut_phase := p\<rparr>) = request_of u"
  by (simp add: request_of_def split: udp_purpose.split)

text \<open>The messages about no connection: after \<open>Ready\<close>, the answers.\<close>

definition answers :: "RemoteMessage list \<Rightarrow> RemoteMessage list" where
  "answers ms = filter (\<lambda>m. message_id m = None) ms"

lemma answers_simps [simp]:
  "answers [] = []" "answers (ms @ ns) = answers ms @ answers ns"
  "answers (m # ms) = (if message_id m = None then m # answers ms else answers ms)"
  by (simp_all add: answers_def)

text \<open>The network has answered task \<open>k\<close> with what \<open>m\<close> says.\<close>

definition replied :: "remote_event list \<Rightarrow> udp_task list \<Rightarrow> nat \<Rightarrow> RemoteMessage \<Rightarrow> bool" where
  "replied evs us k m \<longleftrightarrow> k < length us \<and>
     (\<exists>ip port d. Datagram k (Reply ip port d) \<in> set evs \<and>
        m = udp_message (ut_purpose (us ! k)) ip port (take 65536 d))"

text \<open>Later tasks: some have been started, some have ended, none has come back.\<close>

definition later :: "udp_task list \<Rightarrow> udp_task list \<Rightarrow> bool" where
  "later us us' \<longleftrightarrow> length us \<le> length us' \<and>
     (\<forall>k<length us. ut_purpose (us' ! k) = ut_purpose (us ! k) \<and>
        (ut_phase (us ! k) = UdpEnded \<longrightarrow> ut_phase (us' ! k) = UdpEnded))"

lemma later_refl [simp]: "later us us"
  by (simp add: later_def)

lemma later_snoc [simp]: "later us (us @ [u])"
  by (simp add: later_def nth_append)

lemma replied_later: "replied evs us k m \<Longrightarrow> later us us' \<Longrightarrow> replied (evs @ [ev]) us' k m"
  unfolding replied_def later_def by (metis UnCI order_less_le_trans set_append)

section \<open>The invariant\<close>

definition answered ::
  "remote_event list \<Rightarrow> udp_task list \<Rightarrow> RemoteMessage list \<Rightarrow> bool"
where
  "answered evs us ms \<longleftrightarrow>
     (\<exists>ks. distinct ks \<and> list_all2 (\<lambda>m k. replied evs us k m \<and> ut_phase (us ! k) = UdpEnded) (answers ms) ks)"

definition answers_inv ::
  "(RemoteMessage \<Rightarrow> string + bytes) \<Rightarrow> writer \<Rightarrow> (protocol_error + HostMessage option) list \<Rightarrow>
   remote_event list \<Rightarrow> RemoteProxy \<Rightarrow> bool"
where
  "answers_inv enc w msgs evs s \<longleftrightarrow>
     (\<exists>got. msgs = got @ inbox s \<and> map request_of (udp_tasks s) = requests got) \<and>
     (\<forall>k<length (udp_tasks s). \<forall>m. ut_phase (udp_tasks s ! k) = SendingReply m \<longrightarrow>
        replied evs (udp_tasks s) k m) \<and>
     (main_phase s \<noteq> MainReturned \<longrightarrow>
        (\<exists>sent. wrote enc w sent (rp_writer s) \<and> answered evs (udp_tasks s) (sent @ ch_queue (response s))))"

lemma answered_later:
  assumes "answered evs us ms" "later us us'" "answers ms' = answers ms"
  shows "answered (evs @ [ev]) us' ms'"
proof -
  obtain ks where ks: "distinct ks"
    "list_all2 (\<lambda>m k. replied evs us k m \<and> ut_phase (us ! k) = UdpEnded) (answers ms) ks"
    using assms(1) by (auto simp: answered_def)
  from ks(2) have "list_all2 (\<lambda>m k. replied (evs @ [ev]) us' k m \<and> ut_phase (us' ! k) = UdpEnded) (answers ms) ks"
    by (rule list_all2_mono) (use assms(2) in \<open>auto simp: later_def replied_def\<close>)
  with ks(1) assms(3) show ?thesis by (auto simp: answered_def)
qed

lemma answered_new:
  assumes "answered evs us ms" "later us us'" "answers ms' = answers ms @ [m]"
    and "replied evs us k m" "ut_phase (us ! k) \<noteq> UdpEnded" "ut_phase (us' ! k) = UdpEnded"
  shows "answered (evs @ [ev]) us' ms'"
proof -
  obtain ks where ks: "distinct ks"
    "list_all2 (\<lambda>m k. replied evs us k m \<and> ut_phase (us ! k) = UdpEnded) (answers ms) ks"
    using assms(1) by (auto simp: answered_def)
  have "k \<notin> set ks" using ks(2) assms(5) by (auto simp: list_all2_conv_all_nth in_set_conv_nth)
  moreover have "list_all2 (\<lambda>m k. replied (evs @ [ev]) us' k m \<and> ut_phase (us' ! k) = UdpEnded) (answers ms) ks"
    using ks(2) by (rule list_all2_mono) (use assms(2) in \<open>auto simp: later_def replied_def\<close>)
  moreover have "replied (evs @ [ev]) us' k m" using replied_later[OF assms(4,2)] .
  ultimately show ?thesis
    using ks(1) assms(3,6) by (auto simp: answered_def intro!: exI[of _ "ks @ [k]"] list_all2_appendI)
qed

text \<open>What a step may do to the datagram tasks and the messages.\<close>

lemma answers_inv_step:
  assumes inv: "answers_inv enc w msgs evs s" and run: "main_phase s \<noteq> MainReturned"
    and box: "inbox s = r @ inbox s'" "map request_of (udp_tasks s') = map request_of (udp_tasks s) @ requests r"
    and us: "later (udp_tasks s) (udp_tasks s')"
    and pend: "\<And>k m. k < length (udp_tasks s') \<Longrightarrow> ut_phase (udp_tasks s' ! k) = SendingReply m \<Longrightarrow>
      k < length (udp_tasks s) \<and> ut_phase (udp_tasks s ! k) = SendingReply m \<or> replied (evs @ [ev]) (udp_tasks s') k m"
    and out: "\<And>sent. main_phase s' \<noteq> MainReturned \<Longrightarrow> wrote enc w sent (rp_writer s) \<Longrightarrow>
      \<exists>sent'. wrote enc w sent' (rp_writer s') \<and>
        (answers (sent' @ ch_queue (response s')) = answers (sent @ ch_queue (response s)) \<or>
         (\<exists>k m. answers (sent' @ ch_queue (response s')) = answers (sent @ ch_queue (response s)) @ [m] \<and>
            k < length (udp_tasks s) \<and> ut_phase (udp_tasks s ! k) = SendingReply m \<and>
            ut_phase (udp_tasks s' ! k) = UdpEnded))"
  shows "answers_inv enc w msgs (evs @ [ev]) s'"
proof -
  have pending: "\<And>k m. k < length (udp_tasks s) \<Longrightarrow> ut_phase (udp_tasks s ! k) = SendingReply m \<Longrightarrow>
      replied evs (udp_tasks s) k m"
    using inv by (auto simp: answers_inv_def)
  have "\<exists>got. msgs = got @ inbox s' \<and> map request_of (udp_tasks s') = requests got"
    using inv box unfolding answers_inv_def by (metis append.assoc requests_simps(2))
  moreover have "replied (evs @ [ev]) (udp_tasks s') k m"
    if "k < length (udp_tasks s')" "ut_phase (udp_tasks s' ! k) = SendingReply m" for k m
    using pend[OF that] pending replied_later[OF _ us] by blast
  moreover have "\<exists>sent. wrote enc w sent (rp_writer s') \<and> answered (evs @ [ev]) (udp_tasks s') (sent @ ch_queue (response s'))"
    if ret: "main_phase s' \<noteq> MainReturned"
  proof -
    obtain sent where sent: "wrote enc w sent (rp_writer s)" "answered evs (udp_tasks s) (sent @ ch_queue (response s))"
      using inv run by (auto simp: answers_inv_def)
    from out[OF ret sent(1)] obtain sent' where sent': "wrote enc w sent' (rp_writer s')"
      "answers (sent' @ ch_queue (response s')) = answers (sent @ ch_queue (response s)) \<or>
       (\<exists>k m. answers (sent' @ ch_queue (response s')) = answers (sent @ ch_queue (response s)) @ [m] \<and>
          k < length (udp_tasks s) \<and> ut_phase (udp_tasks s ! k) = SendingReply m \<and>
          ut_phase (udp_tasks s' ! k) = UdpEnded)"
      by blast
    from sent'(2) have "answered (evs @ [ev]) (udp_tasks s') (sent' @ ch_queue (response s'))"
    proof (elim disjE exE conjE)
      fix k m
      assume k: "answers (sent' @ ch_queue (response s')) = answers (sent @ ch_queue (response s)) @ [m]"
        "k < length (udp_tasks s)" "ut_phase (udp_tasks s ! k) = SendingReply m" "ut_phase (udp_tasks s' ! k) = UdpEnded"
      show ?thesis by (rule answered_new[OF sent(2) us k(1) pending[OF k(2,3)] _ k(4)]) (simp add: k(3))
    qed (rule answered_later[OF sent(2) us])
    with sent'(1) show ?thesis by blast
  qed
  ultimately show ?thesis by (simp add: answers_inv_def)
qed

section \<open>Every step keeps it\<close>

lemma answers_conn:
  assumes "task_effect k s s'" "answers_inv enc w msgs evs s" "main_phase s \<noteq> MainReturned"
  shows "answers_inv enc w msgs (evs @ [ev]) s'"
proof -
  obtain ms t' where e: "task_step (views s ! k) ms t'" "response s' = (response s)\<lparr>ch_queue := ch_queue (response s) @ ms\<rparr>"
    "inbox s' = inbox s" "rp_writer s' = rp_writer s" "udp_tasks s' = udp_tasks s"
    using assms(1) unfolding task_effect_def by blast
  have "answers ms = []"
    using task_step_id[OF e(1)] by (auto simp: answers_def filter_empty_conv)
  with e show ?thesis
    by (intro answers_inv_step[OF assms(2,3), of "[]"]) auto
qed

lemma host_message_request:
  "map request_of (udp_tasks (handle_host_message msg s)) =
     map request_of (udp_tasks s) @ requests [Inr (Some msg)]"
  "later (udp_tasks s) (udp_tasks (handle_host_message msg s))"
  "k < length (udp_tasks (handle_host_message msg s)) \<Longrightarrow>
     ut_phase (udp_tasks (handle_host_message msg s) ! k) = SendingReply m \<Longrightarrow>
     k < length (udp_tasks s) \<and> ut_phase (udp_tasks s ! k) = SendingReply m"
  "response (handle_host_message msg s) = response s" "rp_writer (handle_host_message msg s) = rp_writer s"
  "inbox (handle_host_message msg s) = inbox s"
  by (cases msg; auto simp: spawn_udp_def handle_tcp_data_def handle_tcp_connect_def handle_tcp_close_def
      request_of_def nth_append split: option.splits if_splits)+

lemma answers_main_recv:
  assumes "main_recv s = Some s'" "answers_inv enc w msgs evs s"
  shows "answers_inv enc w msgs (evs @ [ev]) s'"
proof -
  have run: "main_phase s \<noteq> MainReturned" using assms(1) by (auto simp: main_recv_def split: if_splits)
  from assms(1) show ?thesis
  proof (cases rule: main_recv_cases)
    case (1 msg rest)
    with host_message_request[where msg = msg and s = "s\<lparr>inbox := rest\<rparr>"] show ?thesis
      by (intro answers_inv_step[OF assms(2) run, of "[Inr (Some msg)]"]) auto
  next
    case (2 rest)
    then obtain r where "inbox s = r @ rest" "requests r = []"
    proof (elim disjE exE conjE)
      fix r assume r: "inbox s = r # rest" "\<forall>msg. r \<noteq> Inr (Some msg)"
      then have "requests [r] = []" by (auto simp: requests_def List.map_filter_def split: sum.split option.split)
      with r(1) that[of "[r]"] show thesis by simp
    qed (use that[of "[]"] in auto)
    with 2(2) show ?thesis
      by (intro answers_inv_step[OF assms(2) run, of r]) auto
  qed
qed

lemma answers_main_respond:
  assumes "main_respond enc s = Some s'" "answers_inv enc w msgs evs s"
  shows "answers_inv enc w msgs (evs @ [ev]) s'"
proof -
  obtain m rest where q: "main_phase s = MainSelect" "ch_queue (response s) = m # rest"
    using assms(1) by (auto simp: main_respond_def chan_recv_def split: if_splits list.splits)
  obtain r w' where wm: "write_message enc m (rp_writer s) = (r, w')"
    by (cases "write_message enc m (rp_writer s)")
  let ?s = "s\<lparr>response := (response s)\<lparr>ch_queue := rest\<rparr>, rp_writer := w'\<rparr>"
  have s': "s' = (case r of Inl e \<Rightarrow> break_loop ?s | Inr _ \<Rightarrow> iteration_end ?s)"
    using assms(1) q wm by (auto simp: main_respond_def chan_recv_def split: sum.splits)
  show ?thesis
  proof (rule answers_inv_step[OF assms(2), of "[]"])
    fix sent assume ret: "main_phase s' \<noteq> MainReturned" and sent: "wrote enc w sent (rp_writer s)"
    then have "r = Inr ()" using s' by (cases r) auto
    with wrote_snoc[OF sent] wm s' q show "\<exists>sent'. wrote enc w sent' (rp_writer s') \<and>
        (answers (sent' @ ch_queue (response s')) = answers (sent @ ch_queue (response s)) \<or>
         (\<exists>k m. answers (sent' @ ch_queue (response s')) = answers (sent @ ch_queue (response s)) @ [m] \<and>
            k < length (udp_tasks s) \<and> ut_phase (udp_tasks s ! k) = SendingReply m \<and>
            ut_phase (udp_tasks s' ! k) = UdpEnded))"
      by (intro exI[of _ "sent @ [m]"]) simp
  qed (use s' q in \<open>auto split: sum.splits\<close>)
qed

lemma answers_main_send:
  assumes "main_send s = Some s'" "answers_inv enc w msgs evs s"
  shows "answers_inv enc w msgs (evs @ [ev]) s'"
  using assms
  by (intro answers_inv_step[OF assms(2), of "[]"])
     (auto simp: main_send_def split: main_phase.splits if_splits)

lemma answers_datagram:
  assumes step: "udp_task_step k (ut_phase (udp_tasks s ! k)) ev s = Some s'" and k: "k < length (udp_tasks s)"
    and inv: "answers_inv enc w msgs evs s" "main_phase s \<noteq> MainReturned" "udp_ok s" "\<not> ch_closed (response s)"
  shows "answers_inv enc w msgs (evs @ [Datagram k ev]) s'"
proof -
  let ?u = "udp_tasks s ! k"
  have upd: "map request_of ((udp_tasks s)[k := ?u\<lparr>ut_phase := p\<rparr>]) = map request_of (udp_tasks s)" for p
    by (intro map_id_update) simp
  have quiet: "answers_inv enc w msgs (evs @ [Datagram k ev]) (update_udp k p s)"
    if "ut_phase ?u \<noteq> UdpEnded" "\<And>m. p = SendingReply m \<Longrightarrow> replied [Datagram k ev] (udp_tasks s) k m" for p
  proof (rule answers_inv_step[OF inv(1,2), of "[]"])
    show "j < length (udp_tasks s) \<and> ut_phase (udp_tasks s ! j) = SendingReply m \<or>
        replied (evs @ [Datagram k ev]) (udp_tasks (update_udp k p s)) j m"
      if "j < length (udp_tasks (update_udp k p s))" "ut_phase (udp_tasks (update_udp k p s) ! j) = SendingReply m" for j m
      using that \<open>\<And>m. p = SendingReply m \<Longrightarrow> _\<close>
      by (cases "j = k") (auto simp: update_udp_def replied_def)
  qed (use that(1) k upd in \<open>auto simp: update_udp_def later_def nth_list_update\<close>)
  show ?thesis
  proof (cases "(k, ut_phase ?u, ev, s)" rule: udp_task_step.cases)
    case (4 k' m s0)
    then have ph: "ut_phase ?u = SendingReply m" "ev = SendReply" by auto
    have id: "message_id m = None" using inv(3) k ph(1) by (auto simp: udp_ok_def)
    have s': "s' = update_udp k UdpEnded (s\<lparr>response := (response s)\<lparr>ch_queue := ch_queue (response s) @ [m]\<rparr>\<rparr>)"
      using step ph inv(4) by (auto simp: chan_send_def split: if_splits)
    show ?thesis
    proof (rule answers_inv_step[OF inv(1,2), of "[]"])
      fix sent assume "wrote enc w sent (rp_writer s)"
      with s' id k ph show "\<exists>sent'. wrote enc w sent' (rp_writer s') \<and>
          (answers (sent' @ ch_queue (response s')) = answers (sent @ ch_queue (response s)) \<or>
           (\<exists>k m. answers (sent' @ ch_queue (response s')) = answers (sent @ ch_queue (response s)) @ [m] \<and>
              k < length (udp_tasks s) \<and> ut_phase (udp_tasks s ! k) = SendingReply m \<and>
              ut_phase (udp_tasks s' ! k) = UdpEnded))"
        by (intro exI[of _ sent]) (auto simp: update_udp_def)
    next
      fix j m' assume "j < length (udp_tasks s')" "ut_phase (udp_tasks s' ! j) = SendingReply m'"
      then show "j < length (udp_tasks s) \<and> ut_phase (udp_tasks s ! j) = SendingReply m' \<or>
          replied (evs @ [Datagram k ev]) (udp_tasks s') j m'"
        by (cases "j = k") (auto simp: s' update_udp_def)
    qed (use k upd in \<open>auto simp: s' update_udp_def later_def nth_list_update\<close>)
  qed (use step quiet k in \<open>auto simp: replied_def\<close>)
qed

lemma answers_step:
  assumes step: "remote_step shard enc ev s = Some s'" and inv: "answers_inv enc w msgs evs s"
    and ok: "remote_ok enc w s" "udp_ok s"
  shows "answers_inv enc w msgs (evs @ [ev]) s'"
proof (cases ev)
  case (Conn k cev)
  then have "conn_step shard k cev s = Some s'" "k < length (conn_tasks s)" "main_phase s \<noteq> MainReturned"
    using step by (auto split: if_splits)
  with ok(1) show ?thesis
    by (intro answers_conn[OF conn_step_effect inv]) (simp_all add: remote_ok_def)
next
  case (Datagram k uev)
  with step inv ok show ?thesis
    by (auto simp: remote_ok_def intro: answers_datagram split: if_splits)
qed (use step inv answers_main_recv answers_main_respond answers_main_send in auto)

lemma answers_run:
  "remote_run shard enc evs s = Some s' \<Longrightarrow> answers_inv enc w msgs past s \<Longrightarrow> remote_ok enc w s \<and> udp_ok s \<Longrightarrow>
   answers_inv enc w msgs (past @ evs) s'"
proof (induction evs arbitrary: s past)
  case (Cons ev evs)
  then obtain s1 where s1: "remote_step shard enc ev s = Some s1" "remote_run shard enc evs s1 = Some s'"
    by (auto simp: bind_eq_Some_conv)
  from Cons.IH[OF s1(2) answers_step[OF s1(1) Cons.prems(2)]] remote_step_ok[OF s1(1) Cons.prems(3)] Cons.prems(3)
  show ?case by simp
qed simp

section \<open>Property: answers\<close>

lemma remote_answers_run:
  assumes "remote_start enc dec rd w = Inr s0" "distinct (List.map_filter connect_id (inbox s0))"
    and "remote_run shard enc evs s0 = Some s" "main_phase s \<noteq> MainReturned"
  shows "\<exists>got w1 sent ks. inbox s0 = got @ inbox s \<and> map request_of (udp_tasks s) = requests got \<and>
    wrote enc w [Ready] w1 \<and> wrote enc w1 sent (rp_writer s) \<and> distinct ks \<and>
    list_all2 (\<lambda>m k. replied evs (udp_tasks s) k m) (answers (sent @ ch_queue (response s))) ks"
proof -
  obtain w1 where w1: "write_message enc Ready w = (Inr (), w1)" "s0 = remote_new (read_loop dec rd) w1"
    using assms(1) by (auto simp: remote_start_def split: prod.splits sum.splits)
  have "answers_inv enc w1 (inbox s0) [] s0"
    by (auto simp: answers_inv_def answered_def w1(2) remote_new_def new_chan_def
        intro!: exI[of _ "[]"] wrote_Nil)
  moreover have "remote_ok enc w1 s0 \<and> udp_ok s0"
    using remote_new_ok assms(2) w1(2) by (simp add: remote_new_def)
  ultimately have "answers_inv enc w1 (inbox s0) evs s"
    using answers_run[OF assms(3), of w1 "inbox s0" "[]"] by simp
  then obtain got sent ks where "inbox s0 = got @ inbox s" "map request_of (udp_tasks s) = requests got"
    "wrote enc w1 sent (rp_writer s)" "distinct ks"
    "list_all2 (\<lambda>m k. replied evs (udp_tasks s) k m \<and> ut_phase (udp_tasks s ! k) = UdpEnded)
      (answers (sent @ ch_queue (response s))) ks"
    using assms(4) unfolding answers_inv_def answered_def by blast
  moreover from this(5) have "list_all2 (\<lambda>m k. replied evs (udp_tasks s) k m) (answers (sent @ ch_queue (response s))) ks"
    by (rule list_all2_mono) simp
  moreover have "wrote enc w [Ready] w1" using wrote_snoc[OF wrote_Nil w1(1)] by simp
  ultimately show ?thesis by blast
qed

text \<open>
  C18: Datagrams and DNS queries at the remote. Under any schedule the tasks are, in order, one per
  request that the main task has taken from its input; and every answer that has been sent or
  waits in the channel is what the network replied to the task of one request, under that
  request's port or number, cut to the buffer, with no two answers for one request.
\<close>

theorem remote_answers:
  assumes "remote_start enc dec rd w = Inr s0" "distinct (List.map_filter connect_id (inbox s0))"
    and "remote_run shard enc evs s0 = Some s" "main_phase s \<noteq> MainReturned"
  shows "\<exists>got sent ks. inbox s0 = got @ inbox s \<and> map request_of (udp_tasks s) = requests got \<and>
    wr_out (rp_writer s) = wr_out w @ stream enc (Ready # sent) \<and> distinct ks \<and>
    list_all2 (\<lambda>m k. k < length (udp_tasks s) \<and>
      (\<exists>ip port d. Datagram k (Reply ip port d) \<in> set evs \<and>
         m = udp_message (ut_purpose (udp_tasks s ! k)) ip port (take 65536 d)))
      (answers (sent @ ch_queue (response s))) ks"
proof -
  obtain got w1 sent ks where a: "inbox s0 = got @ inbox s" "map request_of (udp_tasks s) = requests got"
    "wrote enc w [Ready] w1" "wrote enc w1 sent (rp_writer s)" "distinct ks"
    "list_all2 (\<lambda>m k. replied evs (udp_tasks s) k m) (answers (sent @ ch_queue (response s))) ks"
    using remote_answers_run[OF assms] by blast
  have "wr_out (rp_writer s) = wr_out w @ stream enc (Ready # sent)"
    using wrote_stream[OF a(3)] wrote_stream[OF a(4)] by (simp add: stream_def)
  with a show ?thesis unfolding replied_def by blast
qed

text \<open>An example: two DNS queries, of which the second is answered, and a late reply to it.\<close>

definition example_queries :: "HostMessage list" where
  "example_queries = [DnsQuery 0 (V4 8) [1], DnsQuery 1 (V4 8) [2]]"

lemma example_queries_run:
  obtains s0 s where "remote_start remote_to_allocvec host_from_bytes
      \<lparr>rd_bytes = stream host_to_allocvec example_queries, rd_end = None\<rparr> example_writer = Inr s0"
    "inbox s0 = map (Inr \<circ> Some) example_queries @ [Inr None]"
    "remote_run unat remote_to_allocvec
      [MainRecv, MainRecv, Datagram 1 (Reply (V4 8) 53 [9]), Datagram 0 Timeout, Datagram 1 SendReply] s0 = Some s"
    "main_phase s = MainSelect" "ch_queue (response s) = [DnsResponse 1 [9]]" "rp_writer s = rp_writer s0"
proof -
  have "all_fit host_to_allocvec example_queries"
    by (simp add: example_queries_def all_fit_def host_to_allocvec_def e_uint_def e_bytes_def enc_varint.simps)
  from host_codec.read_loop_stream[OF this, of "\<lparr>rd_bytes = stream host_to_allocvec example_queries, rd_end = None\<rparr>"]
  have rl: "read_loop host_from_bytes \<lparr>rd_bytes = stream host_to_allocvec example_queries, rd_end = None\<rparr> =
      map (Inr \<circ> Some) example_queries @ [Inr None]" by simp
  let ?s0 = "remote_new (map (Inr \<circ> Some) example_queries @ [Inr None]) (example_writer\<lparr>wr_out := frame [6]\<rparr>)"
  have start: "remote_start remote_to_allocvec host_from_bytes
      \<lparr>rd_bytes = stream host_to_allocvec example_queries, rd_end = None\<rparr> example_writer = Inr ?s0"
    by (simp add: remote_start_def rl write_message_def remote_to_allocvec_def enc_varint.simps
        write_all_def flush_def example_writer_def frame_def Let_def)
  show thesis
    by (rule that[OF start], simp_all add: remote_eval example_queries_def spawn_udp_def update_udp_def)
       simp_all
qed

theorem remote_answers_witness:
  "\<exists>s0 s k. remote_start remote_to_allocvec host_from_bytes
      \<lparr>rd_bytes = stream host_to_allocvec example_queries, rd_end = None\<rparr> example_writer = Inr s0 \<and>
    remote_run unat remote_to_allocvec
      [MainRecv, MainRecv, Datagram 1 (Reply (V4 8) 53 [9]), Datagram 0 Timeout, Datagram 1 SendReply] s0 = Some s \<and>
    ch_queue (response s) = [DnsResponse 1 [9]] \<and> k < length (udp_tasks s) \<and>
    DnsResponse 1 [9] = udp_message (ut_purpose (udp_tasks s ! k)) (V4 8) 53 [9]"
proof -
  obtain s0 s where s: "remote_start remote_to_allocvec host_from_bytes
      \<lparr>rd_bytes = stream host_to_allocvec example_queries, rd_end = None\<rparr> example_writer = Inr s0"
    "inbox s0 = map (Inr \<circ> Some) example_queries @ [Inr None]"
    "remote_run unat remote_to_allocvec
      [MainRecv, MainRecv, Datagram 1 (Reply (V4 8) 53 [9]), Datagram 0 Timeout, Datagram 1 SendReply] s0 = Some s"
    "main_phase s = MainSelect" "ch_queue (response s) = [DnsResponse 1 [9]]" "rp_writer s = rp_writer s0"
    by (rule example_queries_run)
  have dist: "distinct (List.map_filter connect_id (inbox s0))"
    by (simp add: s(2) example_queries_def List.map_filter_def)
  obtain ks sent where ks: "list_all2 (\<lambda>m k. k < length (udp_tasks s) \<and>
      (\<exists>ip port d. Datagram k (Reply ip port d) \<in> set [MainRecv, MainRecv, Datagram 1 (Reply (V4 8) 53 [9]),
          Datagram 0 Timeout, Datagram 1 SendReply] \<and>
         m = udp_message (ut_purpose (udp_tasks s ! k)) ip port (take 65536 d)))
      (answers (sent @ ch_queue (response s))) ks"
    using remote_answers[OF s(1) dist s(3)] s(4) by auto
  have "DnsResponse 1 [9] \<in> set (answers (sent @ ch_queue (response s)))" by (simp add: s(5))
  then obtain j where "j < length (answers (sent @ ch_queue (response s)))"
    "answers (sent @ ch_queue (response s)) ! j = DnsResponse 1 [9]"
    by (meson in_set_conv_nth)
  with list_all2_nthD[OF ks, of j] obtain k where "k < length (udp_tasks s)"
    "DnsResponse 1 [9] = udp_message (ut_purpose (udp_tasks s ! k)) (V4 8) 53 [9]"
    by auto
  with s show ?thesis by blast
qed

end
