(* ===== verification/System_Answers.thy ===== *)
theory System_Answers
  imports System Host_Dns Host_Datagrams Remote_Answers
begin

text \<open>
  DNS queries and UDP datagrams from a local client through both programs and back: what a
  client receives is what the network answered to a task of the remote, and this task has sent
  what a client had asked for.
\<close>

lemma read_of_written:
  assumes "message_codec enc dec" "wrote enc w ms w'" "rd_bytes r = take n (drop (length (wr_out w)) (wr_out w'))"
    and "length (wr_out w') < 2 ^ 64" "Inr (Some m) \<in> set (read_loop dec r)"
  shows "m \<in> set ms"
proof -
  obtain k last where k: "read_loop dec r = map (Inr \<circ> Some) (take k ms) @ [last]" "\<forall>m. last \<noteq> Inr (Some m)"
    using wrote_beginning[OF assms(1-4)] by blast
  with assms(5) have "m \<in> set (take k ms)" by auto
  then show ?thesis by (rule in_set_takeD)
qed

lemma requests_member: "m \<in> set (requests rs) \<Longrightarrow> Inr (Some m) \<in> set rs \<and> is_request m"
  by (auto simp: requests_def List.map_filter_def split: sum.splits)

lemma list_all2_left: "list_all2 P xs ys \<Longrightarrow> x \<in> set xs \<Longrightarrow> \<exists>y. P x y"
  by (induction rule: list_all2_induct) auto

section \<open>Where an answer comes from\<close>

text \<open>
  Each program reads some part of what the other has written. A message for the host that is
  about no connection is the reply to a task of the remote, and the request of this task is a
  message that the host has written.
\<close>

lemma answer_traced:
  assumes "message_codec henc dec" "message_codec enc hdec"
    and "wrote henc hw hsent hw'" "length (wr_out hw') < 2 ^ 64"
    and "rd_bytes r = take n (drop (length (wr_out hw)) (wr_out hw'))"
    and "remote_start enc dec r w = Inr s0" "distinct (List.map_filter connect_id (inbox s0))"
    and "remote_run shard enc revs s0 = Some s" "main_phase s \<noteq> MainReturned"
    and "rd_bytes hr = take n' (drop (length (wr_out w)) (wr_out (rp_writer s)))" "length (wr_out (rp_writer s)) < 2 ^ 64"
    and "read_loop hdec hr = Inr (Some Ready) # incoming"
    and "Inr (Some m) \<in> set incoming" "message_id m = None" "m \<noteq> Ready"
  obtains k where "replied revs (udp_tasks s) k m" "request_of (udp_tasks s ! k) \<in> set hsent"
proof -
  obtain taken w1 sent ks where run: "inbox s0 = taken @ inbox s" "map request_of (udp_tasks s) = requests taken"
    "wrote enc w [Ready] w1" "wrote enc w1 sent (rp_writer s)"
    "list_all2 (\<lambda>m k. replied revs (udp_tasks s) k m) (answers (sent @ ch_queue (response s))) ks"
    using remote_answers_run[OF assms(6-9)] by blast
  have w: "wrote enc w (Ready # sent) (rp_writer s)" using wrote_append[OF run(4,3)] by simp
  have box: "inbox s0 = read_loop dec r"
    using assms(6) by (auto simp: remote_start_def remote_new_def split: prod.splits sum.splits)
  have "Inr (Some m) \<in> set (read_loop hdec hr)" using assms(12,13) by simp
  from read_of_written[OF assms(2) w assms(10,11) this] assms(14,15)
  have "m \<in> set (answers (sent @ ch_queue (response s)))" by (simp add: answers_def)
  then obtain k where k: "replied revs (udp_tasks s) k m" using list_all2_left[OF run(5)] by blast
  then have "request_of (udp_tasks s ! k) \<in> set (requests taken)"
    unfolding run(2)[symmetric] by (simp add: replied_def)
  then have "Inr (Some (request_of (udp_tasks s ! k))) \<in> set (read_loop dec r)"
    using requests_member[of _ taken] by (simp add: box[symmetric] run(1))
  then have "request_of (udp_tasks s ! k) \<in> set hsent"
    by (rule read_of_written[OF assms(1,3,5,4)])
  with k that show thesis by blast
qed

lemma replied_dns:
  assumes "replied revs us k (DnsResponse i data)"
  shows "k < length us \<and> request_of (us ! k) = DnsQuery i (ut_dst_ip (us ! k)) (ut_data (us ! k)) \<and>
    (\<exists>ip port reply. Datagram k (Reply ip port reply) \<in> set revs \<and> data = take 65536 reply)"
  using assms by (cases "ut_purpose (us ! k)") (auto simp: replied_def request_of_def)

lemma replied_udp:
  assumes "replied revs us k (UdpResponse p ip port data)"
  shows "k < length us \<and> request_of (us ! k) = UdpDatagram p (ut_dst_ip (us ! k)) (ut_dst_port (us ! k)) (ut_data (us ! k)) \<and>
    (\<exists>reply. Datagram k (Reply ip port reply) \<in> set revs \<and> data = take 65536 reply)"
  using assms by (cases "ut_purpose (us ! k)") (auto simp: replied_def request_of_def)

section \<open>DNS\<close>

text \<open>
  C4: DNS from end to end. Whatever
  the schedules, the clients and the network do, with at most \<open>2\<^sup>3\<^sup>2\<close> queries, every datagram that the
  host's forwarder sends to a client holds a reply that the network gave to a task of the
  remote, and this task has sent to the configured server the data of a query that the
  host received from this same client.
\<close>

theorem dns_end_to_end:
  assumes "message_codec henc dec" "message_codec enc hdec"
    and "loop_run ep henc evs \<lparr>lp_host = initial_host (Some (dns_new server)), lp_incoming = incoming,
      lp_writer = hw, lp_tun = []\<rparr> = (Continue, l)"
    and "length (filter is_dns_read evs) \<le> 2 ^ 32"
    and "remote_start enc dec r w = Inr s0" "distinct (List.map_filter connect_id (inbox s0))"
    and "remote_run shard enc revs s0 = Some s" "main_phase s \<noteq> MainReturned"
    and "rd_bytes r = take n (drop (length (wr_out hw)) (wr_out (lp_writer l)))" "length (wr_out (lp_writer l)) < 2 ^ 64"
    and "rd_bytes hr = take n' (drop (length (wr_out w)) (wr_out (rp_writer s)))" "length (wr_out (rp_writer s)) < 2 ^ 64"
    and "read_loop hdec hr = Inr (Some Ready) # incoming"
  shows "\<exists>d. dns_state (lp_host l) = Some d \<and> (\<forall>data a. (data, a) \<in> set (dns_sent d) \<longrightarrow>
    (\<exists>q k ip port reply. DnsRecv (Inr (q, a)) \<in> set evs \<and> k < length (udp_tasks s) \<and>
       ut_data (udp_tasks s ! k) = take 4096 q \<and> ut_dst_ip (udp_tasks s ! k) = server \<and>
       Datagram k (Reply ip port reply) \<in> set revs \<and> data = take 65536 reply))"
proof -
  obtain got log d hsent where h: "incoming = got @ lp_incoming l" "length log = length (filter is_dns_read evs)"
    "asked_of evs log" "dns_state (lp_host l) = Some d" "served got log d"
    "wrote henc hw hsent (lp_writer l)" "logged server log hsent"
    using dns_run[OF assms(3)] by blast
  note traced = answer_traced[OF assms(1,2) h(6) assms(10,9,5-8,11-13)]
  have "\<exists>q k ip port reply. DnsRecv (Inr (q, a)) \<in> set evs \<and> k < length (udp_tasks s) \<and>
       ut_data (udp_tasks s ! k) = take 4096 q \<and> ut_dst_ip (udp_tasks s ! k) = server \<and>
       Datagram k (Reply ip port reply) \<in> set revs \<and> data = take 65536 reply"
    if out: "(data, a) \<in> set (dns_sent d)" for data a
  proof -
    obtain i q where i: "query_entry log i q a" "Inr (Some (DnsResponse i data)) \<in> set got"
      using h(5) out unfolding served_def by blast
    obtain k where k: "replied revs (udp_tasks s) k (DnsResponse i data)" "request_of (udp_tasks s ! k) \<in> set hsent"
      using traced[of "DnsResponse i data"] i(2) h(1) by auto
    let ?u = "udp_tasks s ! k"
    have "\<exists>j q' a'. DnsQuery i (ut_dst_ip ?u) (ut_data ?u) = DnsQuery j server q' \<and> query_entry log j q' a'"
      using h(7) k(2) replied_dns[OF k(1)] unfolding logged_def by (metis is_query.simps(1))
    then obtain a' where logged: "ut_dst_ip ?u = server" "query_entry log i (ut_data ?u) a'" by auto
    have "length log \<le> 2 ^ 32" using h(2) assms(4) by simp
    with entry_unique[OF _ i(1) logged(2)] have "ut_data ?u = q" by blast
    moreover obtain q0 where "DnsRecv (Inr (q0, a)) \<in> set evs" "q = take 4096 q0"
      using entry_asked[OF h(3) i(1)] by blast
    ultimately show ?thesis using replied_dns[OF k(1)] logged(1) by blast
  qed
  with h(4) show ?thesis by blast
qed

text \<open>One query of the client 10 to the server 8, and its answer.\<close>

lemma example_dns_host:
  assumes "incoming = [Inr (Some (DnsResponse 0 [9])), Inr None]"
  obtains l d where "loop_run rfc_etherparse host_to_allocvec
      [DnsRecv (Inr ([1], (V4 10, 5000))), ToRemoteReady, RemoteRecv]
      \<lparr>lp_host = initial_host (Some (dns_new (V4 8))), lp_incoming = incoming, lp_writer = example_writer, lp_tun = []\<rparr>
      = (Continue, l)"
    "dns_state (lp_host l) = Some d" "dns_sent d = [([9], (V4 10, 5000))]"
    "wr_out (lp_writer l) = stream host_to_allocvec [DnsQuery 0 (V4 8) [1]]"
  by (simp add: assms loop_run_step initial_host_def dns_new_def new_chan_def handle_query_def register_query_def
      handle_response_def remote_dns_response_def run_handler_def chan_send_def chan_recv_def write_message_def
      host_to_allocvec_def write_all_def flush_def example_writer_def stream_def frame_of_def frame_def
      e_uint_def e_bytes_def enc_varint.simps Let_def)

lemma example_dns_remote:
  assumes "rd_bytes r = stream host_to_allocvec [DnsQuery 0 (V4 8) [1]]" "rd_end r = None"
  obtains s0 s where "remote_start remote_to_allocvec host_from_bytes r example_writer = Inr s0"
    "inbox s0 = [Inr (Some (DnsQuery 0 (V4 8) [1])), Inr None]"
    "remote_run unat remote_to_allocvec
      [MainRecv, Datagram 0 (Reply (V4 8) 53 [9]), Datagram 0 SendReply, MainRespond] s0 = Some s"
    "main_phase s = MainSelect"
    "wr_out (rp_writer s) = stream remote_to_allocvec [Ready, DnsResponse 0 [9]]"
proof -
  have "all_fit host_to_allocvec [DnsQuery 0 (V4 8) [1]]"
    by (simp add: all_fit_def host_to_allocvec_def e_uint_def e_bytes_def enc_varint.simps)
  from host_codec.read_loop_stream[OF this, of r] assms
  have rl: "read_loop host_from_bytes r = [Inr (Some (DnsQuery 0 (V4 8) [1])), Inr None]" by simp
  let ?s0 = "remote_new [Inr (Some (DnsQuery 0 (V4 8) [1])), Inr None] (example_writer\<lparr>wr_out := frame [6]\<rparr>)"
  have start: "remote_start remote_to_allocvec host_from_bytes r example_writer = Inr ?s0"
    by (simp add: remote_start_def rl write_message_def remote_to_allocvec_def enc_varint.simps
        write_all_def flush_def example_writer_def frame_def Let_def)
  show thesis
    by (rule that[OF start], simp_all add: remote_eval spawn_udp_def update_udp_def stream_def frame_of_def frame_def
        remote_to_allocvec_def e_uint_def e_bytes_def enc_varint.simps)
       simp_all
qed

theorem dns_end_to_end_witness:
  "\<exists>l d s0 s k. loop_run rfc_etherparse host_to_allocvec
      [DnsRecv (Inr ([1], (V4 10, 5000))), ToRemoteReady, RemoteRecv]
      \<lparr>lp_host = initial_host (Some (dns_new (V4 8))), lp_incoming = [Inr (Some (DnsResponse 0 [9])), Inr None],
        lp_writer = example_writer, lp_tun = []\<rparr> = (Continue, l) \<and>
    dns_state (lp_host l) = Some d \<and> dns_sent d = [([9], (V4 10, 5000))] \<and>
    remote_start remote_to_allocvec host_from_bytes \<lparr>rd_bytes = wr_out (lp_writer l), rd_end = None\<rparr> example_writer = Inr s0 \<and>
    remote_run unat remote_to_allocvec
      [MainRecv, Datagram 0 (Reply (V4 8) 53 [9]), Datagram 0 SendReply, MainRespond] s0 = Some s \<and>
    k < length (udp_tasks s) \<and> ut_data (udp_tasks s ! k) = [1] \<and> ut_dst_ip (udp_tasks s ! k) = V4 8"
proof -
  let ?in = "[Inr (Some (DnsResponse 0 [9])), Inr None] :: (protocol_error + RemoteMessage option) list"
  obtain l d where l: "loop_run rfc_etherparse host_to_allocvec
      [DnsRecv (Inr ([1], (V4 10, 5000))), ToRemoteReady, RemoteRecv]
      \<lparr>lp_host = initial_host (Some (dns_new (V4 8))), lp_incoming = ?in, lp_writer = example_writer, lp_tun = []\<rparr>
      = (Continue, l)"
    "dns_state (lp_host l) = Some d" "dns_sent d = [([9], (V4 10, 5000))]"
    "wr_out (lp_writer l) = stream host_to_allocvec [DnsQuery 0 (V4 8) [1]]"
    by (rule example_dns_host[OF refl])
  let ?r = "\<lparr>rd_bytes = wr_out (lp_writer l), rd_end = None\<rparr>"
  obtain s0 s where s: "remote_start remote_to_allocvec host_from_bytes ?r example_writer = Inr s0"
    "inbox s0 = [Inr (Some (DnsQuery 0 (V4 8) [1])), Inr None]"
    "remote_run unat remote_to_allocvec
      [MainRecv, Datagram 0 (Reply (V4 8) 53 [9]), Datagram 0 SendReply, MainRespond] s0 = Some s"
    "main_phase s = MainSelect"
    "wr_out (rp_writer s) = stream remote_to_allocvec [Ready, DnsResponse 0 [9]]"
    using example_dns_remote[of ?r] l(4) by auto
  let ?hr = "\<lparr>rd_bytes = wr_out (rp_writer s), rd_end = None\<rparr>"
  have fit: "all_fit remote_to_allocvec [Ready, DnsResponse 0 [9]]"
    by (simp add: all_fit_def remote_to_allocvec_def e_uint_def e_bytes_def enc_varint.simps)
  from remote_codec.read_loop_stream[OF fit, of ?hr]
  have rl: "read_loop remote_from_bytes ?hr = Inr (Some Ready) # ?in" using s(5) by simp
  have dist: "distinct (List.map_filter connect_id (inbox s0))" by (simp add: s(2) List.map_filter_def)
  have short: "length (wr_out (lp_writer l)) < 2 ^ 64" "length (wr_out (rp_writer s)) < 2 ^ 64"
    by (simp_all add: l(4) s(5) stream_def frame_of_def frame_def remote_to_allocvec_def host_to_allocvec_def
        e_uint_def e_bytes_def enc_varint.simps)
  have "\<exists>q k ip port reply. DnsRecv (Inr (q, (V4 10, 5000))) \<in> set [DnsRecv (Inr ([1], (V4 10, 5000))), ToRemoteReady, RemoteRecv] \<and>
      k < length (udp_tasks s) \<and> ut_data (udp_tasks s ! k) = take 4096 q \<and> ut_dst_ip (udp_tasks s ! k) = V4 8 \<and>
      Datagram k (Reply ip port reply) \<in> set [MainRecv, Datagram 0 (Reply (V4 8) 53 [9]), Datagram 0 SendReply, MainRespond] \<and>
      [9] = take 65536 reply"
    using dns_end_to_end[OF host_codec.message_codec_axioms remote_codec.message_codec_axioms l(1) _ s(1) dist s(3) _ _ short(1)
      _ short(2) rl, of "length (wr_out (lp_writer l))" "length (wr_out (rp_writer s))"] s(4) l(2,3)
    by (simp add: example_writer_def)
  with l s(1,3) show ?thesis by (intro exI[of _ l] exI[of _ d] exI[of _ s0] exI[of _ s]) auto
qed

section \<open>UDP\<close>

text \<open>
  C5: UDP from end to end. Whatever the schedules, the applications and the network do, a
  datagram that an application gets has as its source an address and port to which the same
  application address has sent from the same port, and it holds what the network really delivered
  from there to a task of the remote that has sent an application's datagram from this port. So
  nobody reaches an application who was not addressed first, and no reply is made up or mixed.
\<close>

theorem udp_end_to_end:
  assumes "message_codec henc dec" "message_codec enc hdec" "etherparse_laws ep"
    and "loop_run ep henc evs \<lparr>lp_host = initial_host dns, lp_incoming = incoming,
      lp_writer = hw, lp_tun = []\<rparr> = (Continue, l)"
    and "remote_start enc dec r w = Inr s0" "distinct (List.map_filter connect_id (inbox s0))"
    and "remote_run shard enc revs s0 = Some s" "main_phase s \<noteq> MainReturned"
    and "rd_bytes r = take n (drop (length (wr_out hw)) (wr_out (lp_writer l)))" "length (wr_out (lp_writer l)) < 2 ^ 64"
    and "rd_bytes hr = take n' (drop (length (wr_out w)) (wr_out (rp_writer s)))" "length (wr_out (rp_writer s)) < 2 ^ 64"
    and "read_loop hdec hr = Inr (Some Ready) # incoming"
  shows "\<forall>x\<in>set (datagrams ep (lp_tun l @ ch_queue (to_tun (lp_host l)))).
    addressed ep evs (udp_dst_ip x) (udp_dst_port x) (udp_src_ip x) (udp_src_port x) \<and>
    (\<exists>k reply u. k < length (udp_tasks s) \<and>
       Datagram k (Reply (udp_src_ip x) (udp_src_port x) reply) \<in> set revs \<and> udp_payload x = take 65536 reply \<and>
       app_sent ep evs u \<and> udp_src_port u = udp_dst_port x \<and> udp_payload u = ut_data (udp_tasks s ! k) \<and>
       udp_dst_ip u = ut_dst_ip (udp_tasks s ! k) \<and> udp_dst_port u = ut_dst_port (udp_tasks s ! k))"
proof
  obtain got hsent where h: "incoming = got @ lp_incoming l"
    "\<forall>x\<in>set (datagrams ep (lp_tun l @ ch_queue (to_tun (lp_host l)))). solicited ep evs got x"
    "wrote henc hw hsent (lp_writer l)" "passed_on ep evs hsent"
    using datagrams_run[OF assms(3,4)] by blast
  fix x
  assume "x \<in> set (datagrams ep (lp_tun l @ ch_queue (to_tun (lp_host l))))"
  then have x: "addressed ep evs (udp_dst_ip x) (udp_dst_port x) (udp_src_ip x) (udp_src_port x)"
    "Inr (Some (UdpResponse (udp_dst_port x) (udp_src_ip x) (udp_src_port x) (udp_payload x))) \<in> set got"
    using h(2) by (simp_all add: solicited_def)
  obtain k where k: "replied revs (udp_tasks s) k (UdpResponse (udp_dst_port x) (udp_src_ip x) (udp_src_port x) (udp_payload x))"
    "request_of (udp_tasks s ! k) \<in> set hsent"
    using answer_traced[OF assms(1,2) h(3) assms(10,9,5-8,11-13),
      of "UdpResponse (udp_dst_port x) (udp_src_ip x) (udp_src_port x) (udp_payload x)"] x(2) h(1) by auto
  have "\<exists>u. app_sent ep evs u \<and> udp_src_port u = udp_dst_port x \<and> udp_dst_ip u = ut_dst_ip (udp_tasks s ! k) \<and>
      udp_dst_port u = ut_dst_port (udp_tasks s ! k) \<and> udp_payload u = ut_data (udp_tasks s ! k)"
    using h(4) k(2) replied_udp[OF k(1)] by (simp add: passed_on_def)
  with x(1) replied_udp[OF k(1)] show "addressed ep evs (udp_dst_ip x) (udp_dst_port x) (udp_src_ip x) (udp_src_port x) \<and>
    (\<exists>k reply u. k < length (udp_tasks s) \<and>
       Datagram k (Reply (udp_src_ip x) (udp_src_port x) reply) \<in> set revs \<and> udp_payload x = take 65536 reply \<and>
       app_sent ep evs u \<and> udp_src_port u = udp_dst_port x \<and> udp_payload u = ut_data (udp_tasks s ! k) \<and>
       udp_dst_ip u = ut_dst_ip (udp_tasks s ! k) \<and> udp_dst_port u = ut_dst_port (udp_tasks s ! k))"
    by blast
qed

text \<open>An application asks 8.8.8.8 on port 53, and gets its answer.\<close>

definition example_udp :: bytes where
  "example_udp = [0x45, 0, 0, 30, 0, 0, 0x40, 0, 64, 17, 0, 0, 10, 0, 0, 1, 8, 8, 8, 8,
     0xD4, 0x31, 0, 53, 0, 10, 0, 0, 7, 8]"

definition example_udp_reply :: UdpPacketInfo where
  "example_udp_reply = \<lparr>udp_src_ip = V4 0x08080808, udp_dst_ip = V4 0x0A000001, udp_src_port = 53,
     udp_dst_port = 54321, udp_payload = [9]\<rparr>"

abbreviation "example_asked \<equiv> UdpDatagram 54321 (V4 0x08080808) 53 [7, 8]"

abbreviation "example_answered \<equiv> UdpResponse 54321 (V4 0x08080808) 53 [9]"

lemma example_udp_host:
  assumes "incoming = [Inr (Some example_answered), Inr None]"
  obtains l where "loop_run rfc_etherparse host_to_allocvec [TunRead (5, 6) (Inr example_udp), ToRemoteReady, RemoteRecv]
      \<lparr>lp_host = initial_host None, lp_incoming = incoming, lp_writer = example_writer, lp_tun = []\<rparr> = (Continue, l)"
    "datagrams rfc_etherparse (lp_tun l @ ch_queue (to_tun (lp_host l))) = [example_udp_reply]"
    "wr_out (lp_writer l) = stream host_to_allocvec [example_asked]"
proof -
  have parse: "parse_ip_packet rfc_etherparse (take 65536 example_udp) =
    Ok (Udp \<lparr>udp_src_ip = V4 0x0A000001, udp_dst_ip = V4 0x08080808, udp_src_port = 54321,
             udp_dst_port = 53, udp_payload = [7, 8]\<rparr>)"
    by (simp add: example_udp_def parse_ip_packet_def parse_ipv4_packet_def parse_transport_def byte_slice_def
        rfc_ipv4_from_slice_def rfc_udp_from_slice_def Let_def u16_at_def from_be_def be_nat_Cons)
  let ?p = "\<lparr>up_src_ip = V4 0x08080808, up_dst_ip = V4 0x0A000001, up_src_port = 53, up_dst_port = 54321, up_payload = [9]\<rparr>"
  obtain pkt where pkt: "udp_build rfc_etherparse ?p = Ok pkt" "parse_ip_packet rfc_etherparse pkt = Ok (Udp (udp_info_of ?p))"
    using etherparse_laws.udp_build_Ok[OF rfc.etherparse_laws_axioms, of ?p] by auto
  then have x: "datagram_in rfc_etherparse pkt = Some example_udp_reply"
    by (simp add: datagram_in_def udp_info_of_def example_udp_reply_def)
  show thesis
    by (rule that, simp_all add: assms loop_run_step initial_host_def nat_new_def new_chan_def run_handler_def handle_tun_packet_def parse
        handle_outbound_udp_def upd_nat_def exec.simps send_remote_def chan_send_def chan_recv_def write_message_def host_to_allocvec_def
        write_all_def flush_def example_writer_def stream_def frame_of_def frame_def e_uint_def e_bytes_def enc_varint.simps Let_def
        remote_udp_response_def with_state_def get_udp_src_ip_def track_udp_def cleanup_udp_mappings_def pkt(1) with_built_def
        send_tun_def)
       (simp_all add: x)
qed

lemma example_udp_remote:
  assumes "rd_bytes r = stream host_to_allocvec [example_asked]" "rd_end r = None"
  obtains s0 s where "remote_start remote_to_allocvec host_from_bytes r example_writer = Inr s0"
    "inbox s0 = [Inr (Some example_asked), Inr None]"
    "remote_run unat remote_to_allocvec
      [MainRecv, Datagram 0 (Reply (V4 0x08080808) 53 [9]), Datagram 0 SendReply, MainRespond] s0 = Some s"
    "main_phase s = MainSelect"
    "wr_out (rp_writer s) = stream remote_to_allocvec [Ready, example_answered]"
proof -
  have "all_fit host_to_allocvec [example_asked]"
    by (simp add: all_fit_def host_to_allocvec_def e_uint_def e_bytes_def enc_varint.simps)
  from host_codec.read_loop_stream[OF this, of r] assms
  have rl: "read_loop host_from_bytes r = [Inr (Some example_asked), Inr None]" by simp
  let ?s0 = "remote_new [Inr (Some example_asked), Inr None] (example_writer\<lparr>wr_out := frame [6]\<rparr>)"
  have start: "remote_start remote_to_allocvec host_from_bytes r example_writer = Inr ?s0"
    by (simp add: remote_start_def rl write_message_def remote_to_allocvec_def enc_varint.simps
        write_all_def flush_def example_writer_def frame_def Let_def)
  show thesis
    by (rule that[OF start], simp_all add: remote_eval spawn_udp_def update_udp_def stream_def frame_of_def frame_def
        remote_to_allocvec_def e_uint_def e_bytes_def enc_varint.simps)
       simp_all
qed

theorem udp_end_to_end_witness:
  "\<exists>l s0 s k u. loop_run rfc_etherparse host_to_allocvec [TunRead (5, 6) (Inr example_udp), ToRemoteReady, RemoteRecv]
      \<lparr>lp_host = initial_host None, lp_incoming = [Inr (Some example_answered), Inr None],
        lp_writer = example_writer, lp_tun = []\<rparr> = (Continue, l) \<and>
    datagrams rfc_etherparse (lp_tun l @ ch_queue (to_tun (lp_host l))) = [example_udp_reply] \<and>
    remote_start remote_to_allocvec host_from_bytes \<lparr>rd_bytes = wr_out (lp_writer l), rd_end = None\<rparr> example_writer = Inr s0 \<and>
    remote_run unat remote_to_allocvec
      [MainRecv, Datagram 0 (Reply (V4 0x08080808) 53 [9]), Datagram 0 SendReply, MainRespond] s0 = Some s \<and>
    app_sent rfc_etherparse [TunRead (5, 6) (Inr example_udp), ToRemoteReady, RemoteRecv] u \<and>
    udp_src_port u = 54321 \<and> k < length (udp_tasks s) \<and> udp_payload u = ut_data (udp_tasks s ! k)"
proof -
  let ?in = "[Inr (Some example_answered), Inr None] :: (protocol_error + RemoteMessage option) list"
  obtain l where l: "loop_run rfc_etherparse host_to_allocvec [TunRead (5, 6) (Inr example_udp), ToRemoteReady, RemoteRecv]
      \<lparr>lp_host = initial_host None, lp_incoming = ?in, lp_writer = example_writer, lp_tun = []\<rparr> = (Continue, l)"
    "datagrams rfc_etherparse (lp_tun l @ ch_queue (to_tun (lp_host l))) = [example_udp_reply]"
    "wr_out (lp_writer l) = stream host_to_allocvec [example_asked]"
    by (rule example_udp_host[OF refl])
  let ?r = "\<lparr>rd_bytes = wr_out (lp_writer l), rd_end = None\<rparr>"
  obtain s0 s where s: "remote_start remote_to_allocvec host_from_bytes ?r example_writer = Inr s0"
    "inbox s0 = [Inr (Some example_asked), Inr None]"
    "remote_run unat remote_to_allocvec
      [MainRecv, Datagram 0 (Reply (V4 0x08080808) 53 [9]), Datagram 0 SendReply, MainRespond] s0 = Some s"
    "main_phase s = MainSelect"
    "wr_out (rp_writer s) = stream remote_to_allocvec [Ready, example_answered]"
    using example_udp_remote[of ?r] l(3) by auto
  let ?hr = "\<lparr>rd_bytes = wr_out (rp_writer s), rd_end = None\<rparr>"
  have fit: "all_fit remote_to_allocvec [Ready, example_answered]"
    by (simp add: all_fit_def remote_to_allocvec_def e_uint_def e_bytes_def enc_varint.simps)
  from remote_codec.read_loop_stream[OF fit, of ?hr]
  have rl: "read_loop remote_from_bytes ?hr = Inr (Some Ready) # ?in" using s(5) by simp
  have dist: "distinct (List.map_filter connect_id (inbox s0))" by (simp add: s(2) List.map_filter_def)
  have short: "length (wr_out (lp_writer l)) < 2 ^ 64" "length (wr_out (rp_writer s)) < 2 ^ 64"
    by (simp_all add: l(3) s(5) stream_def frame_of_def frame_def remote_to_allocvec_def host_to_allocvec_def
        e_uint_def e_bytes_def enc_varint.simps)
  have alive: "main_phase s \<noteq> MainReturned" by (simp add: s(4))
  have bytes: "rd_bytes ?r = take (length (wr_out (lp_writer l))) (drop (length (wr_out example_writer)) (wr_out (lp_writer l)))"
    "rd_bytes ?hr = take (length (wr_out (rp_writer s))) (drop (length (wr_out example_writer)) (wr_out (rp_writer s)))"
    by (simp_all add: example_writer_def)
  have got: "example_udp_reply \<in> set (datagrams rfc_etherparse (lp_tun l @ ch_queue (to_tun (lp_host l))))"
    unfolding l(2) by simp
  have "\<exists>k u. k < length (udp_tasks s) \<and>
      app_sent rfc_etherparse [TunRead (5, 6) (Inr example_udp), ToRemoteReady, RemoteRecv] u \<and>
      udp_src_port u = udp_dst_port example_udp_reply \<and> udp_payload u = ut_data (udp_tasks s ! k)"
    using bspec[OF udp_end_to_end[OF host_codec.message_codec_axioms remote_codec.message_codec_axioms
      rfc.etherparse_laws_axioms l(1) s(1) dist s(3) alive bytes(1) short(1) bytes(2) short(2) rl] got] by blast
  then obtain k u where ku: "k < length (udp_tasks s)"
    "app_sent rfc_etherparse [TunRead (5, 6) (Inr example_udp), ToRemoteReady, RemoteRecv] u"
    "udp_src_port u = 54321" "udp_payload u = ut_data (udp_tasks s ! k)"
    by (auto simp: example_udp_reply_def)
  show ?thesis
    by (rule exI[of _ l], rule exI[of _ s0], rule exI[of _ s], rule exI[of _ k], rule exI[of _ u])
       (intro conjI l s ku)
qed

end
