(* ===== verification/Session_End.thy ===== *)
theory Session_End
  imports System
begin

text \<open>
  How a session ends: the host's loop says \<open>Shutdown\<close> once, as its last message, and the
  remote's main task returns when it has taken this message or the end of its input.
\<close>

section \<open>The host says it last\<close>

definition calm :: "Host \<Rightarrow> bool" where
  "calm s \<longleftrightarrow> Shutdown \<notin> set (ch_queue (to_remote s))"

interpretation calm: channel_invariant_all calm ep "\<lambda>_. True" for ep
proof unfold_locales
  fix m :: HostMessage
  assume "plain m"
  then show "keeps True calm (send_remote m)"
    by (cases m) (auto simp: keeps_def send_remote_def calm_def chan_send_def split: send_result.splits if_splits)
qed (auto simp: calm_def keeps_def send_tun_def send_remote_def chan_send_def split: send_result.splits if_splits)

definition intact :: "writer \<Rightarrow> bool" where
  "intact w \<longleftrightarrow> wr_accepts w = None \<and> \<not> wr_flush_fails w"

lemma intact_write:
  assumes "intact w" "write_message enc m w = (r, w')"
  shows "intact w'" "\<exists>sent. wrote enc w sent w' \<and> set sent \<subseteq> {m}"
proof -
  note ok = write_message_ok_writer[OF _ _ assms(2)]
  show "intact w'" using assms(1) ok by (simp add: intact_def)
  show "\<exists>sent. wrote enc w sent w' \<and> set sent \<subseteq> {m}"
  proof (cases r)
    case (Inl e)
    with assms(1) ok show ?thesis by (intro exI[of _ "[]"]) (auto simp: intact_def intro: wrote_Nil)
  next
    case (Inr u)
    with wrote_snoc[OF wrote_Nil, of enc m w w'] assms(2) show ?thesis by (intro exI[of _ "[m]"]) simp
  qed
qed

text \<open>Before its end the loop writes other messages only.\<close>

lemma loop_step_calm:
  assumes "calm (lp_host l)" "intact (lp_writer l)"
  shows "\<exists>sent. wrote enc (lp_writer l) sent (lp_writer (snd (loop_step ep enc ev l))) \<and> Shutdown \<notin> set sent \<and>
    calm (lp_host (snd (loop_step ep enc ev l))) \<and> intact (lp_writer (snd (loop_step ep enc ev l)))"
proof -
  have host: ?thesis
    if "lp_writer (snd (loop_step ep enc ev l)) = lp_writer l" "calm (lp_host (snd (loop_step ep enc ev l)))"
    using that assms(2) by (intro exI[of _ "[]"]) (auto intro: wrote_Nil)
  show ?thesis
  proof (cases "(ep, enc, ev, l)" rule: loop_step.cases)
    case (1 ep' enc' clock data l')
    with assms(1) show ?thesis by (intro host) (auto simp: run_handler_simps intro: calm.any_packet)
  next
    case (3 ep' enc' l')
    with assms(1) show ?thesis
      by (intro host)
         (auto simp: run_handler_simps intro: calm.any_message split: list.split sum.split option.split)
  next
    case (4 ep' enc' l')
    show ?thesis
    proof (cases "ch_queue (to_remote (lp_host l))")
      case Nil
      with 4 assms(1) show ?thesis by (intro host) (simp_all add: chan_recv_def)
    next
      case (Cons m ms)
      obtain r w' where w: "write_message enc m (lp_writer l) = (r, w')"
        by (cases "write_message enc m (lp_writer l)")
      obtain sent where "wrote enc (lp_writer l) sent w'" "set sent \<subseteq> {m}" "intact w'"
        using intact_write[OF assms(2) w] by blast
      moreover have "m \<noteq> Shutdown" "Shutdown \<notin> set ms" using assms(1) Cons by (auto simp: calm_def)
      ultimately show ?thesis using 4 w Cons by (auto simp: chan_recv_def calm_def)
    qed
  next
    case (5 ep' enc' failure l')
    with assms(1) show ?thesis
      by (intro host) (auto simp: calm_def Let_def split: option.split prod.split)
  next
    case (6 ep' enc' result l')
    with assms(1) show ?thesis
      by (intro host) (auto simp: handle_query_def register_query_def chan_send_def calm_def Let_def
          split: option.split sum.split prod.split send_result.splits)
  qed (use assms in \<open>auto intro: wrote_Nil intro!: exI[of _ "[]"]\<close>)
qed

lemma loop_run_calm:
  "calm (lp_host l) \<Longrightarrow> intact (lp_writer l) \<Longrightarrow>
   \<exists>sent. wrote enc (lp_writer l) sent (lp_writer (snd (loop_run ep enc evs l))) \<and> Shutdown \<notin> set sent \<and>
     intact (lp_writer (snd (loop_run ep enc evs l)))"
proof (induction evs arbitrary: l)
  case Nil
  then show ?case by (auto intro: wrote_Nil exI[of _ "[]"])
next
  case (Cons ev evs)
  obtain sent where "wrote enc (lp_writer l) sent (lp_writer (snd (loop_step ep enc ev l)))" "Shutdown \<notin> set sent"
    "calm (lp_host (snd (loop_step ep enc ev l)))" "intact (lp_writer (snd (loop_step ep enc ev l)))"
    using loop_step_calm[OF Cons.prems] by blast
  with Cons.IH[of "snd (loop_step ep enc ev l)"] show ?case
    by (fastforce simp: loop_run_step simp del: loop_step.simps dest: wrote_append)
qed

text \<open>The whole function.\<close>

lemma session_written:
  assumes run: "run_proxy_loop ep enc from_bytes rd w dns evs = (exit, w')"
    and w: "intact w" and d: "enc Shutdown = Inr d"
  shows "\<exists>sent. wrote enc w (sent @ (if exit = Returned then [Shutdown] else [])) w' \<and> Shutdown \<notin> set sent"
proof (cases "fst (read_message from_bytes rd) = Inr (Some Ready)")
  case False
  then have "w' = w \<and> exit \<noteq> Returned"
    using run by (auto simp: run_proxy_loop_def split: prod.splits sum.splits option.splits RemoteMessage.splits)
  then show ?thesis by (intro exI[of _ "[]"]) (simp add: wrote_Nil)
next
  case True
  then obtain rd' where rd: "read_message from_bytes rd = (Inr (Some Ready), rd')"
    by (cases "read_message from_bytes rd") auto
  let ?l = "\<lparr>lp_host = initial_host dns, lp_incoming = read_loop from_bytes rd', lp_writer = w, lp_tun = []\<rparr>"
  obtain r l where run': "loop_run ep enc evs ?l = (r, l)" by (cases "loop_run ep enc evs ?l")
  obtain sent where sent: "wrote enc w sent (lp_writer l)" "Shutdown \<notin> set sent" "intact (lp_writer l)"
    using loop_run_calm[of ?l enc ep evs] w run' by (auto simp: calm_def initial_host_def new_chan_def)
  obtain q w2 where w2: "write_message enc Shutdown (lp_writer l) = (q, w2)"
    by (cases "write_message enc Shutdown (lp_writer l)")
  have "q = Inr ()" using write_message_ok_writer[OF _ _ w2] sent(3) d w2
    by (auto simp: intact_def write_message_def write_all_def flush_def Let_def)
  with wrote_snoc[OF sent(1)] w2 have "wrote enc w (sent @ [Shutdown]) w2" by simp
  moreover have "w' = (if exit = Returned then w2 else lp_writer l)"
    using run rd run' w2 by (cases r) (auto simp: run_proxy_loop_def)
  ultimately show ?thesis using sent(1,2) by (intro exI[of _ sent]) auto
qed

section \<open>The remote takes it and returns\<close>

text \<open>The results of the reader task after which the main task goes on.\<close>

fun ordinary :: "protocol_error + HostMessage option \<Rightarrow> bool" where
  "ordinary (Inr (Some m)) \<longleftrightarrow> m \<noteq> Shutdown"
| "ordinary _ \<longleftrightarrow> False"

definition last_words :: "(protocol_error + HostMessage option) list \<Rightarrow> nat" where
  "last_words msgs = length (takeWhile ordinary msgs)"

text \<open>
  After \<open>n\<close> steps that take a result: the main task runs and has taken ordinary results only, or
  it has taken the first other one, or it could not write an answer (\<open>bad\<close>): the first one in the
  channel cannot be serialised, or the host does not take it any more.
\<close>

definition unwritable :: "(RemoteMessage \<Rightarrow> string + bytes) \<Rightarrow> RemoteProxy \<Rightarrow> bool" where
  "unwritable enc s \<longleftrightarrow> 
     (\<exists>m rest e w. ch_queue (response s) = m # rest \<and> write_message enc m (rp_writer s) = (Inl e, w))"

definition lifetime ::
  "(RemoteMessage \<Rightarrow> string + bytes) \<Rightarrow> (protocol_error + HostMessage option) list \<Rightarrow> nat \<Rightarrow> bool \<Rightarrow>
   RemoteProxy \<Rightarrow> bool"
where
  "lifetime enc msgs n bad s \<longleftrightarrow> n \<le> Suc (last_words msgs) \<and>
     (if main_phase s = MainReturned
      then n = Suc (last_words msgs) \<or> bad
      else running s \<and> n \<le> last_words msgs \<and> inbox s = drop n msgs)"

lemma ordinary_next:
  "n \<le> last_words msgs \<Longrightarrow> drop n msgs = x # rest \<Longrightarrow> ordinary x \<longleftrightarrow> n < last_words msgs"
proof (induction msgs arbitrary: n)
  case (Cons y msgs)
  then show ?case by (cases n) (auto simp: last_words_def split: if_splits)
qed simp

lemma lifetime_other:
  assumes "lifetime enc msgs n bad s" "running s' = running s" "inbox s' = inbox s"
    and "main_phase s' = MainReturned \<longleftrightarrow> main_phase s = MainReturned"
  shows "lifetime enc msgs n bad s'"
  using assms by (auto simp: lifetime_def)

lemma ordinary_message:
  assumes "m \<noteq> Shutdown" "running s"
  shows "running (handle_host_message m s)" "main_phase (handle_host_message m s) \<noteq> MainReturned"
    "inbox (handle_host_message m s) = inbox s"
  using assms
  by (cases m; auto simp: iteration_end_def handle_tcp_connect_def handle_tcp_data_def handle_tcp_close_def
      remove_connection_def update_task_def spawn_udp_def split: option.split)+

lemma lifetime_recv:
  assumes "lifetime enc msgs n bad s" "main_recv s = Some s'" "last_words msgs < length msgs"
  shows "lifetime enc msgs (Suc n) bad s'"
proof -
  have s: "running s" "n \<le> last_words msgs" "inbox s = drop n msgs"
    using assms(1,2) by (auto simp: lifetime_def main_recv_def split: if_splits)
  with assms(3) obtain x rest where x: "drop n msgs = x # rest"
    by (metis Cons_nth_drop_Suc le_less_trans)
  then have rest: "rest = drop (Suc n) msgs" by (metis drop_Suc list.sel(3) tl_drop)
  note kind = ordinary_next[OF s(2) x]
  show ?thesis
  proof (cases "ordinary x")
    case True
    then obtain m where m: "x = Inr (Some m)" "m \<noteq> Shutdown" by (cases x rule: ordinary.cases) auto
    have "s' = handle_host_message m (s\<lparr>inbox := rest\<rparr>)"
      using assms(2) s(3) x m by (auto simp: main_recv_def split: if_splits)
    with ordinary_message[OF m(2), of "s\<lparr>inbox := rest\<rparr>"] s True kind rest show ?thesis
      by (simp add: lifetime_def)
  next
    case False
    then have "main_phase s' = MainReturned"
      using assms(2) s(3) x by (cases x rule: ordinary.cases;
          auto simp: main_recv_def break_loop_def iteration_end_def split: if_splits)+
    with s False kind show ?thesis by (simp add: lifetime_def)
  qed
qed

lemma lifetime_respond:
  assumes "lifetime enc msgs n bad s" "main_respond enc s = Some s'"
  shows "lifetime enc msgs n (bad \<or> unwritable enc s) s'"
proof -
  have s: "main_phase s = MainSelect" "running s" "n \<le> last_words msgs" "inbox s = drop n msgs"
    using assms by (auto simp: lifetime_def main_respond_def split: if_splits)
  obtain m rest where q: "ch_queue (response s) = m # rest"
    using assms(2) s(1) by (auto simp: main_respond_def chan_recv_def split: if_splits list.splits)
  obtain r w' where w: "write_message enc m (rp_writer s) = (r, w')"
    by (cases "write_message enc m (rp_writer s)")
  have "r = Inr () \<or> unwritable enc s"
    using w q by (cases r) (auto simp: unwritable_def)
  with assms(2) s q w show ?thesis
    by (auto simp: main_respond_def chan_recv_def lifetime_def break_loop_def iteration_end_def split: sum.splits)
qed

lemma task_leaves_main:
  "conn_step shard k ev s = Some s' \<Longrightarrow> running s' = running s \<and> inbox s' = inbox s \<and>
     main_phase s' = main_phase s"
  by (auto simp: conn_step_def respond_def Let_def
      split: conn_phase.splits conn_event.splits if_splits sum.splits list.splits send_result.splits)

lemma datagram_leaves_main:
  "udp_task_step k p ev s = Some s' \<Longrightarrow> running s' = running s \<and> inbox s' = inbox s \<and>
     main_phase s' = main_phase s"
  by (cases "(k, p, ev, s)" rule: udp_task_step.cases) (auto simp: update_udp_def split: send_result.splits)

lemma lifetime_push:
  assumes "lifetime enc msgs n bad s" "main_send s = Some s'"
  shows "lifetime enc msgs n bad s'"
proof (rule lifetime_other[OF assms(1)])
  have "running s" using assms by (auto simp: lifetime_def main_send_def split: main_phase.splits if_splits)
  with assms(2) show "main_phase s' = MainReturned \<longleftrightarrow> main_phase s = MainReturned"
    by (auto simp: main_send_def iteration_end_def split: main_phase.splits if_splits)
qed (use assms(2) in \<open>auto simp: main_send_def iteration_end_def split: main_phase.splits if_splits\<close>)

lemma lifetime_step:
  assumes "lifetime enc msgs n bad s" "remote_step shard enc ev s = Some s'" "last_words msgs < length msgs"
  shows "lifetime enc msgs (n + count_list [ev] MainRecv) (bad \<or> ev = MainRespond \<and> unwritable enc s) s'"
proof (cases ev)
  case MainRecv
  with assms lifetime_recv[OF assms(1) _ assms(3)] show ?thesis by simp
next
  case (Conn k e)
  with assms(2) have "conn_step shard k e s = Some s'" by (simp split: if_splits)
  with Conn lifetime_other[OF assms(1)] task_leaves_main show ?thesis by auto
next
  case (Datagram k e)
  with assms(2) have "udp_task_step k (ut_phase (udp_tasks s ! k)) e s = Some s'" by (simp split: if_splits)
  with Datagram lifetime_other[OF assms(1)] datagram_leaves_main show ?thesis by auto
next
  case MainRespond
  with assms(2) lifetime_respond[OF assms(1)] show ?thesis by simp
next
  case MainPush
  with assms(2) lifetime_push[OF assms(1)] show ?thesis by simp
qed

text \<open>In a run some step has tried to write an answer and could not.\<close>

definition write_failed ::
  "(u32 \<Rightarrow> nat) \<Rightarrow> (RemoteMessage \<Rightarrow> string + bytes) \<Rightarrow> remote_event list \<Rightarrow> RemoteProxy \<Rightarrow> bool"
where
  "write_failed shard enc evs s \<longleftrightarrow>
     (\<exists>before after s1. evs = before @ MainRespond # after \<and> remote_run shard enc before s = Some s1 \<and> unwritable enc s1)"

lemma write_failed_Cons:
  assumes "remote_step shard enc ev s = Some s1"
  shows "write_failed shard enc (ev # evs) s \<longleftrightarrow>
    ev = MainRespond \<and> unwritable enc s \<or> write_failed shard enc evs s1"
proof
  assume "write_failed shard enc (ev # evs) s"
  then obtain before after s2 where b: "ev # evs = before @ MainRespond # after"
    "remote_run shard enc before s = Some s2" "unwritable enc s2"
    unfolding write_failed_def by blast
  with assms show "ev = MainRespond \<and> unwritable enc s \<or> write_failed shard enc evs s1"
    by (cases before) (auto simp: write_failed_def)
next
  assume "ev = MainRespond \<and> unwritable enc s \<or> write_failed shard enc evs s1"
  then show "write_failed shard enc (ev # evs) s"
  proof
    assume "ev = MainRespond \<and> unwritable enc s"
    then show ?thesis unfolding write_failed_def by (intro exI[of _ "[]"] exI[of _ evs] exI[of _ s]) simp
  next
    assume "write_failed shard enc evs s1"
    then obtain before after s2 where "evs = before @ MainRespond # after"
      "remote_run shard enc before s1 = Some s2" "unwritable enc s2"
      unfolding write_failed_def by blast
    with assms show ?thesis
      unfolding write_failed_def by (intro exI[of _ "ev # before"] exI[of _ after] exI[of _ s2]) simp
  qed
qed

lemma lifetime_run:
  "lifetime enc msgs n bad s \<Longrightarrow> last_words msgs < length msgs \<Longrightarrow> remote_run shard enc evs s = Some s' \<Longrightarrow>
   lifetime enc msgs (n + count_list evs MainRecv) (bad \<or> write_failed shard enc evs s) s'"
proof (induction evs arbitrary: n bad s)
  case Nil
  then show ?case by (simp add: write_failed_def)
next
  case (Cons ev evs)
  from Cons.prems(3) obtain s1 where s1: "remote_step shard enc ev s = Some s1" "remote_run shard enc evs s1 = Some s'"
    by (auto simp: Option.bind_eq_Some_conv)
  from Cons.IH[OF lifetime_step[OF Cons.prems(1) s1(1) Cons.prems(2)] Cons.prems(2) s1(2)]
  show ?case by (simp add: write_failed_Cons[OF s1(1)] add.assoc disj_assoc split: if_splits)
qed

section \<open>The end of a session\<close>

text \<open>What the remote reads of a session's stream, and where it stops reading.\<close>

lemma last_words_read:
  assumes "msgs = map (Inr \<circ> Some) (take k (sent @ final)) @ [e]" "\<forall>m. e \<noteq> Inr (Some m)"
    and "Shutdown \<notin> set sent" "final = [] \<or> final = [Shutdown]"
  shows "last_words msgs = min k (length sent)"
proof -
  have "\<not> ordinary e" using assms(2) by (cases e rule: ordinary.cases) auto
  moreover have ord: "takeWhile ordinary (map (Inr \<circ> Some) xs @ ys) = map (Inr \<circ> Some) xs @ takeWhile ordinary ys"
    if "Shutdown \<notin> set xs" for xs ys
    using that by (induction xs) auto
  moreover have "Shutdown \<notin> set (take k sent)" using assms(3) by (auto dest: in_set_takeD)
  ultimately show ?thesis
    using assms(1,4) by (cases "k - length sent") (auto simp: last_words_def)
qed

text \<open>
  C6: The end of a session. Over an SSH channel that takes what the host writes, the host's loop
  says \<open>Shutdown\<close> exactly once, as its last message, and only when it returns, whatever the events
  are. However much of this stream the remote gets, and whatever its tasks and destinations do,
  its main task takes the messages before \<open>Shutdown\<close> (or before the end of what has come) one by
  one and returns with the next step that takes a result; it returns earlier only when it has
  failed to write an answer. If all of the stream has come, what it takes last is \<open>Shutdown\<close>.
\<close>

theorem session_ends:
  assumes "run_proxy_loop ep henc fb hrd hw dns evs = (exit, hw')"
    and "wr_accepts hw = None" "\<not> wr_flush_fails hw" "henc Shutdown = Inr d"
    and "message_codec henc dec" "length (wr_out hw') < 2 ^ 64"
    and "rd_bytes r = take b (drop (length (wr_out hw)) (wr_out hw'))"
    and "remote_start enc dec r w = Inr s0"
    and "remote_run shard enc revs s0 = Some s"
  shows "\<exists>sent n. wr_out hw' = wr_out hw @ stream henc (sent @ (if exit = Returned then [Shutdown] else [])) \<and>
    Shutdown \<notin> set sent \<and> n \<le> length sent \<and> take n (inbox s0) = map (Inr \<circ> Some) (take n sent) \<and>
    count_list revs MainRecv \<le> Suc n \<and>
    (count_list revs MainRecv = Suc n \<longrightarrow> main_phase s = MainReturned) \<and>
    (main_phase s = MainReturned \<longrightarrow> count_list revs MainRecv = Suc n \<or> write_failed shard enc revs s0) \<and>
    (exit = Returned \<and> length (wr_out hw') \<le> length (wr_out hw) + b \<and> last (inbox s0) = Inr None \<longrightarrow>
       n = length sent \<and> inbox s0 ! n = Inr (Some Shutdown))"
proof -
  let ?final = "if exit = Returned then [Shutdown] else []"
  obtain sent where sent: "wrote henc hw (sent @ ?final) hw'" "Shutdown \<notin> set sent"
    using session_written[OF assms(1) _ assms(4)] assms(2,3) by (auto simp: intact_def)
  obtain k e where k: "read_loop dec r = map (Inr \<circ> Some) (take k (sent @ ?final)) @ [e]" "\<forall>m. e \<noteq> Inr (Some m)"
    "length (wr_out hw') \<le> length (wr_out hw) + b \<and> e = Inr None \<longrightarrow> length (sent @ ?final) \<le> k"
    using wrote_beginning[OF assms(5) sent(1) assms(7,6)] by blast
  obtain w1 where w1: "write_message enc Ready w = (Inr (), w1)" "s0 = remote_new (read_loop dec r) w1"
    using assms(8) by (auto simp: remote_start_def split: prod.splits sum.splits)
  let ?n = "min k (length sent)"
  have box: "inbox s0 = read_loop dec r" using w1(2) by (simp add: remote_new_def)
  have n: "last_words (inbox s0) = ?n"
    unfolding box by (rule last_words_read[OF k(1,2) sent(2)]) simp
  have life: "lifetime enc (inbox s0) (count_list revs MainRecv) (write_failed shard enc revs s0) s"
  proof -
    have "lifetime enc (inbox s0) 0 False s0" by (simp add: lifetime_def w1(2) remote_new_def)
    moreover have "last_words (inbox s0) < length (inbox s0)" unfolding n by (simp add: box k(1))
    ultimately show ?thesis using lifetime_run[OF _ _ assms(9)] by force
  qed
  have taken: "take ?n (inbox s0) = map (Inr \<circ> Some) (take ?n sent)"
    by (simp add: box k(1) take_map min_def)
  have all: "?n = length sent \<and> inbox s0 ! ?n = Inr (Some Shutdown)"
    if "exit = Returned \<and> length (wr_out hw') \<le> length (wr_out hw) + b \<and> last (inbox s0) = Inr None"
    using that k(1,3) by (auto simp: box nth_append)
  show ?thesis
    using wrote_stream[OF sent(1)] sent(2) taken life all
    unfolding lifetime_def n
    by (intro exI[of _ sent] exI[of _ ?n]) (auto split: if_splits)
qed

text \<open>An example: one SYN, then Ctrl-C; the remote takes the request, then \<open>Shutdown\<close>.\<close>

lemma example_ended_run:
  "\<exists>hw'. run_proxy_loop rfc_etherparse host_to_allocvec remote_from_bytes
      \<lparr>rd_bytes = frame [6], rd_end = None\<rparr> example_writer None [TunRead (0, 0) (Inr example_syn), ToRemoteReady, CtrlC]
      = (Returned, hw') \<and> wr_out hw' = stream host_to_allocvec [example_connect, Shutdown]"
proof -
  let ?rd = "\<lparr>rd_bytes = frame [6], rd_end = None\<rparr>"
  have "remote_from_bytes [6] = Inr Ready" by code_simp
  then have "fst (read_message remote_from_bytes ?rd) = Inr (Some Ready)"
    using read_message_frame[of ?rd "[6]" "[]" remote_from_bytes] by simp
  then show ?thesis
    by (cases "read_message remote_from_bytes ?rd")
       (simp add: run_proxy_loop_def loop_run_step run_handler_def handle_tun_packet_def example_syn_parses
         handle_outbound_tcp_def Let_def outbound_syn_def create_tcp_connection_def send_remote_def chan_send_def
         initial_host_def nat_new_def new_chan_def chan_recv_def write_message_def host_to_allocvec_def write_all_def
         flush_def example_writer_def example_connect_def stream_def frame_of_def frame_def no_flags_def)
qed

lemma example_ended_remote:
  assumes "rd_bytes r = stream host_to_allocvec [example_connect, Shutdown]" "rd_end r = None"
  obtains s0 s where "remote_start remote_to_allocvec host_from_bytes r example_writer = Inr s0"
    "inbox s0 = [Inr (Some example_connect), Inr (Some Shutdown), Inr None]"
    "remote_run unat remote_to_allocvec [MainRecv, Conn 0 ConnectOk, MainRecv] s0 = Some s"
proof -
  have "all_fit host_to_allocvec [example_connect, Shutdown]"
    by (simp add: all_fit_def example_connect_def host_to_allocvec_def e_uint_def enc_varint.simps)
  from host_codec.read_loop_stream[OF this, of r] assms
  have rl: "read_loop host_from_bytes r = [Inr (Some example_connect), Inr (Some Shutdown), Inr None]" by simp
  let ?s0 = "remote_new [Inr (Some example_connect), Inr (Some Shutdown), Inr None] (example_writer\<lparr>wr_out := frame [6]\<rparr>)"
  have start: "remote_start remote_to_allocvec host_from_bytes r example_writer = Inr ?s0"
    by (simp add: remote_start_def rl write_message_def remote_to_allocvec_def enc_varint.simps
        write_all_def flush_def example_writer_def frame_def Let_def)
  show thesis by (rule that[OF start]) (simp_all add: remote_eval example_connect_def)
qed

theorem session_ends_witness:
  "\<exists>hw' s0 s. run_proxy_loop rfc_etherparse host_to_allocvec remote_from_bytes
      \<lparr>rd_bytes = frame [6], rd_end = None\<rparr> example_writer None [TunRead (0, 0) (Inr example_syn), ToRemoteReady, CtrlC]
      = (Returned, hw') \<and>
    remote_start remote_to_allocvec host_from_bytes \<lparr>rd_bytes = wr_out hw', rd_end = None\<rparr> example_writer = Inr s0 \<and>
    remote_run unat remote_to_allocvec [MainRecv, Conn 0 ConnectOk, MainRecv] s0 = Some s \<and>
    main_phase s = MainReturned"
proof -
  obtain hw' where run: "run_proxy_loop rfc_etherparse host_to_allocvec remote_from_bytes
      \<lparr>rd_bytes = frame [6], rd_end = None\<rparr> example_writer None [TunRead (0, 0) (Inr example_syn), ToRemoteReady, CtrlC]
      = (Returned, hw')" "wr_out hw' = stream host_to_allocvec [example_connect, Shutdown]"
    using example_ended_run by blast
  let ?r = "\<lparr>rd_bytes = wr_out hw', rd_end = None\<rparr>"
  obtain s0 s where s: "remote_start remote_to_allocvec host_from_bytes ?r example_writer = Inr s0"
    "inbox s0 = [Inr (Some example_connect), Inr (Some Shutdown), Inr None]"
    "remote_run unat remote_to_allocvec [MainRecv, Conn 0 ConnectOk, MainRecv] s0 = Some s"
    using example_ended_remote[of ?r] run(2) by auto
  have shut: "host_to_allocvec Shutdown = Inr [5]" by (simp add: host_to_allocvec_def enc_varint.simps)
  have short: "length (wr_out hw') < 2 ^ 64"
    by (simp add: run(2) stream_def frame_of_def frame_def host_to_allocvec_def example_connect_def e_uint_def enc_varint.simps)
  have full: "length (wr_out hw') \<le> length (wr_out example_writer) + length (wr_out hw')" "last (inbox s0) = Inr None"
    by (simp_all add: s(2))
  obtain sent n where n: "wr_out hw' = wr_out example_writer @ stream host_to_allocvec (sent @ [Shutdown])"
    "take n (inbox s0) = map (Inr \<circ> Some) (take n sent)" "n = length sent" "inbox s0 ! n = Inr (Some Shutdown)"
    "count_list [MainRecv, Conn 0 ConnectOk, MainRecv] MainRecv = Suc n \<longrightarrow> main_phase s = MainReturned"
    using session_ends[OF run(1) _ _ shut host_codec.message_codec_axioms short _ s(1,3),
      of "length (wr_out hw')"] full
    by (auto simp: example_writer_def)
  have "length (take n (inbox s0)) = n" unfolding n(2) using n(3) by simp
  moreover have "Inr None \<notin> set (take n (inbox s0))" unfolding n(2) by auto
  ultimately have "n \<le> 2" by (cases "n = 3") (auto simp: s(2))
  then consider "n = 0" | "n = 1" | "n = 2" by linarith
  then have "n = 1" by cases (use n(4) s(2) in \<open>auto simp: example_connect_def numeral_eq_Suc\<close>)
  with n run s(1,3) show ?thesis by (intro exI[of _ hw'] exI[of _ s0] exI[of _ s]) auto
qed

end
