(* ===== verification/Remote_Progress.thy ===== *)
theory Remote_Progress
  imports Remote_Data
begin

text \<open>
  What the remote brings to an end, and where it stops for ever: closing a connection from the
  host flushes what was accepted; the main task has two states that it never leaves; and data
  that the host sends as soon as it is told of a connection can be dropped.
\<close>

section \<open>States that the main task never leaves\<close>

text \<open>
  The circular wait: the main task waits for a place on the channel of task \<open>k\<close>, and the task
  waits for a place on the response channel, which only the main task empties.
\<close>

definition circular_wait :: "nat \<Rightarrow> RemoteProxy \<Rightarrow> bool" where
  "circular_wait k s \<longleftrightarrow>
     (\<exists>i d. main_phase s = MainSend i k d) \<and> k < length (conn_tasks s) \<and>
     length (ct_rx (conn_tasks s ! k)) = 256 \<and> (\<exists>bs. ct_phase (conn_tasks s ! k) = SendingData bs) \<and>
     ch_cap (response s) \<le> length (ch_queue (response s)) \<and> \<not> ch_closed (response s)"

definition blocked :: "RemoteProxy \<Rightarrow> bool" where
  "blocked s \<longleftrightarrow> (\<exists>i. main_phase s = MainRemove i) \<or> (\<exists>k. circular_wait k s)"

lemma chan_send_full:
  "ch_cap c \<le> length (ch_queue c) \<Longrightarrow> \<not> ch_closed c \<Longrightarrow> chan_send m c = SendFull"
  by (simp add: chan_send_def)

lemma conn_step_frame:
  assumes "conn_step shard k ev s = Some s'" "k < length (conn_tasks s)"
  shows "main_phase s' = main_phase s \<and> inbox s' = inbox s \<and> rp_writer s' = rp_writer s"
  using assms
  by (cases "ct_phase (conn_tasks s ! k)")
     (auto simp: conn_step_def Let_def respond_def
       split: if_splits conn_event.splits sum.splits list.splits send_result.splits)

text \<open>Another task's step: the rest of the tasks keep what they hold, but for their sender.\<close>

lemma view_update_other:
  "j \<noteq> k \<Longrightarrow> view (conn_tasks (update_task j f s) ! k) = view (conn_tasks s ! k)"
  by (simp add: update_task_def)

lemma view_at_remove [simp]: "k < length (conn_tasks s) \<Longrightarrow>
    view (conn_tasks (remove_connection i s) ! k) = view (conn_tasks s ! k)"
  and view_at_insert [simp]: "k < length (conn_tasks s) \<Longrightarrow>
    view (conn_tasks (insert_connection i j s) ! k) = view (conn_tasks s ! k)"
  by (metis length_map nth_map views_remove, metis length_map nth_map views_insert)

lemma full_frame:
  assumes "ch_cap (response s) \<le> length (ch_queue (response s))" "\<not> ch_closed (response s)"
  shows "conn_step shard j ev s = Some s' \<Longrightarrow> response s' = response s"
    and "udp_task_step n ph uev s = Some s' \<Longrightarrow> response s' = response s"
proof -
  show "response s' = response s" if "conn_step shard j ev s = Some s'"
    using that
    by (cases "ct_phase (conn_tasks s ! j)")
       (auto simp: conn_step_def Let_def respond_def chan_send_full[OF assms]
         split: if_splits conn_event.splits sum.splits list.splits)
  show "response s' = response s" if "udp_task_step n ph uev s = Some s'"
    using that
    by (cases "(n, ph, uev, s)" rule: udp_task_step.cases)
       (auto simp: update_udp_def chan_send_full[OF assms])
qed

lemma circular_other:
  assumes "circular_wait k s" "conn_step shard j ev s = Some s'" "j < length (conn_tasks s)"
  shows "circular_wait k s'"
proof -
  have c: "k < length (conn_tasks s)" "\<not> ch_closed (response s)"
    "ch_cap (response s) \<le> length (ch_queue (response s))"
    using assms(1) by (auto simp: circular_wait_def)
  have "j \<noteq> k"
    using assms(1,2) by (auto simp: circular_wait_def conn_step_def Let_def respond_def chan_send_full split: if_splits)
  obtain msgs t' where e: "views s' = (views s)[j := t']"
    using conn_step_effect[OF assms(2,3) c(2)] unfolding task_effect_def by blast
  have v: "view (conn_tasks s' ! k) = view (conn_tasks s ! k)" "length (conn_tasks s') = length (conn_tasks s)"
    using view_list[OF e assms(3)] c(1) \<open>j \<noteq> k\<close> by auto
  have "ct_rx (conn_tasks s' ! k) = ct_rx (conn_tasks s ! k)"
    using arg_cong[OF v(1), of ct_rx] by simp
  with assms(1) view_eqD(2)[OF v(1)] v(2) conn_step_frame[OF assms(2,3)] full_frame(1)[OF c(3,2) assms(2)]
  show ?thesis by (simp add: circular_wait_def)
qed

lemma blocked_main:
  assumes "blocked s"
  shows "main_recv s = None" "main_respond enc s = None" "main_send s = None"
  using assms by (auto simp: blocked_def circular_wait_def main_recv_def main_respond_def main_send_def receiver_dropped_def)

lemma blocked_step:
  assumes "blocked s" "remote_step shard enc ev s = Some s'"
  shows "blocked s' \<and> main_phase s' = main_phase s \<and> inbox s' = inbox s \<and> rp_writer s' = rp_writer s"
proof (cases ev)
  case (Conn j cev)
  then have c: "conn_step shard j cev s = Some s'" "j < length (conn_tasks s)"
    using assms(2) by (auto split: if_splits)
  have "blocked s'" using assms(1) circular_other[OF _ c] conn_step_frame[OF c] unfolding blocked_def by metis
  with conn_step_frame[OF c] show ?thesis by simp
next
  case (Datagram j uev)
  then have u: "udp_task_step j (ut_phase (udp_tasks s ! j)) uev s = Some s'"
    using assms(2) by (auto split: if_splits)
  have w: "rp_writer s' = rp_writer s"
    using u by (cases "(j, ut_phase (udp_tasks s ! j), uev, s)" rule: udp_task_step.cases)
      (auto simp: update_udp_def split: send_result.splits)
  have "circular_wait k s'" if "circular_wait k s" for k
    using that udp_task_step_same[OF u] full_frame(2)[OF _ _ u] by (auto simp: circular_wait_def)
  with assms(1) udp_task_step_same[OF u] have "blocked s'" unfolding blocked_def by metis
  with udp_task_step_same[OF u] w show ?thesis by simp
qed (use assms(2) blocked_main[OF assms(1)] in auto)

text \<open>
  C20: The two states in which the main task waits for ever: \<open>handle_tcp_data\<close> waiting for a
  place on the full channel of a task that waits for a place on the full response channel; and
  \<open>remove\<close> called under the guard that \<open>get\<close> returned. Whatever the tasks and the network do, no
  message of the host is handled and nothing is written to the host any more. Both are reached.
\<close>

theorem blocked_forever:
  assumes "blocked s" "remote_run shard enc evs s = Some s'"
  shows "blocked s' \<and> main_phase s' = main_phase s \<and> inbox s' = inbox s \<and> rp_writer s' = rp_writer s"
  using assms
proof (induction evs arbitrary: s)
  case (Cons ev evs)
  then obtain s1 where "remote_step shard enc ev s = Some s1" "remote_run shard enc evs s1 = Some s'"
    by (auto simp: bind_eq_Some_conv)
  with Cons.IH[of s1] blocked_step[OF Cons.prems(1), of shard enc ev s1] show ?case by simp
qed simp

section \<open>Both states are reached\<close>

definition reaches :: "RemoteProxy \<Rightarrow> RemoteProxy \<Rightarrow> bool" where
  "reaches s s' \<longleftrightarrow> (\<exists>evs. remote_run unat remote_to_allocvec evs s = Some s')"

lemma remote_run_append:
  "remote_run shard enc (xs @ ys) s = Option.bind (remote_run shard enc xs s) (remote_run shard enc ys)"
  by (induction xs arbitrary: s) (auto simp: Option.bind_assoc intro!: Option.bind_cong)

lemma remote_run_then:
  "remote_run shard enc xs s = Some s1 \<Longrightarrow> remote_run shard enc ys s1 = Some s2 \<Longrightarrow>
   remote_run shard enc (xs @ ys) s = Some s2"
  by (simp add: remote_run_append)

lemma reaches_trans: "reaches s1 s2 \<Longrightarrow> reaches s2 s3 \<Longrightarrow> reaches s1 s3"
  unfolding reaches_def by (metis bind.bind_lunit remote_run_append)

lemma reachesI: "remote_run unat remote_to_allocvec evs s = Some s' \<Longrightarrow> reaches s s'"
  by (auto simp: reaches_def)

text \<open>The example's connection at the top of its loop: \<open>q\<close> responses wait, \<open>r\<close> blocks of data.\<close>

definition filling :: "nat \<Rightarrow> nat \<Rightarrow> nat \<Rightarrow> RemoteProxy \<Rightarrow> bool" where
  "filling q r m s \<longleftrightarrow>
     (\<exists>t. conn_tasks s = [t] \<and> ct_id t = 1 \<and> ct_phase t = LoopTop \<and> length (ct_rx t) = r) \<and>
     main_phase s = MainSelect \<and> running s \<and> length (ch_queue (response s)) = q \<and>
     ch_cap (response s) = 1024 \<and> \<not> ch_closed (response s) \<and> tcp_connections s 1 = Some 0 \<and>
     inbox s = replicate m (Inr (Some (HostMessage.TcpData 1 [0])))"

lemma fill_response:
  assumes "filling q r m s" "q < 1024"
  shows "\<exists>s'. reaches s s' \<and> filling (Suc q) r m s'"
proof -
  obtain s' where "remote_run unat remote_to_allocvec [Conn 0 Proceed, Conn 0 (DestRead (Inr [0])), Conn 0 Proceed] s = Some s'"
    "filling (Suc q) r m s'"
    using assms by (auto simp: filling_def conn_step_def respond_def chan_send_def update_task_def set_phase_def)
  then show ?thesis by (blast intro: reachesI)
qed

lemma fill_channel:
  assumes "filling q r (Suc m) s" "r < 256"
  shows "\<exists>s'. reaches s s' \<and> filling q (Suc r) m s'"
proof -
  obtain s' where "remote_run unat remote_to_allocvec [MainRecv, MainPush] s = Some s'" "filling q (Suc r) m s'"
    using assms
    by (auto simp: filling_def main_recv_def main_send_def handle_tcp_data_def receiver_dropped_def
        update_task_def iteration_end_def)
  then show ?thesis by (blast intro: reachesI)
qed

lemma fill_responses: "filling q r m s \<Longrightarrow> q + n \<le> 1024 \<Longrightarrow> \<exists>s'. reaches s s' \<and> filling (q + n) r m s'"
proof (induction n arbitrary: q s)
  case 0
  then show ?case using reachesI[of "[]" s s] by auto
next
  case (Suc n)
  then obtain s1 where s1: "reaches s s1" "filling (Suc q) r m s1" using fill_response[of q r m s] by auto
  with Suc.IH[of "Suc q" s1] Suc.prems(2) show ?case by (auto intro: reaches_trans)
qed

lemma fill_channels: "filling q r (m + n) s \<Longrightarrow> r + n \<le> 256 \<Longrightarrow> \<exists>s'. reaches s s' \<and> filling q (r + n) m s'"
proof (induction n arbitrary: r s)
  case 0
  then show ?case using reachesI[of "[]" s s] by auto
next
  case (Suc n)
  then obtain s1 where s1: "reaches s s1" "filling q (Suc r) (m + n) s1" using fill_channel[of q r "m + n" s] by auto
  with Suc.IH[of "Suc r" s1] Suc.prems(2) show ?case by (auto intro: reaches_trans)
qed

lemma reaches_circular_wait:
  "\<exists>s. reaches (remote_new (Inr (Some example_connect) # replicate 257 (Inr (Some (HostMessage.TcpData 1 [0]))))
      example_writer) s \<and> circular_wait 0 s"
proof -
  let ?s0 = "remote_new (Inr (Some example_connect) # replicate 257 (Inr (Some (HostMessage.TcpData 1 [0])))) example_writer"
  obtain s1 where s1: "remote_run unat remote_to_allocvec [MainRecv, Conn 0 ConnectOk, Conn 0 Proceed, Conn 0 Proceed] ?s0 = Some s1"
    "filling 1 0 (1 + 256) s1"
    by (simp add: remote_eval filling_def del: replicate.simps)
  obtain s2 where s2: "reaches s1 s2" "filling 1 256 1 s2" using fill_channels[OF s1(2)] by auto
  obtain s3 where s3: "reaches s2 s3" "filling 1024 256 1 s3" using fill_responses[OF s2(2), of 1023] by auto
  obtain s4 where s4: "remote_run unat remote_to_allocvec [Conn 0 Proceed, Conn 0 (DestRead (Inr [0])), MainRecv] s3 = Some s4"
    "circular_wait 0 s4"
    using s3(2) by (auto simp: filling_def circular_wait_def conn_step_def main_recv_def handle_tcp_data_def
        update_task_def set_phase_def)
  have "reaches ?s0 s4"
    using reachesI[OF s1(1)] s2(1) s3(1) reachesI[OF s4(1)] by (blast intro: reaches_trans)
  with s4(2) show ?thesis by blast
qed

text \<open>The destination closes and, before its task removes itself, data arrives for it.\<close>

lemma reaches_remove:
  "\<exists>s. reaches (remote_new example_inbox example_writer) s \<and> main_phase s = MainRemove 1"
proof -
  obtain s where "remote_run unat remote_to_allocvec
      [MainRecv, Conn 0 ConnectOk, Conn 0 Proceed, Conn 0 Proceed, Conn 0 Proceed, Conn 0 (DestRead (Inr [])),
       Conn 0 Proceed, MainRecv, MainPush] (remote_new example_inbox example_writer) = Some s"
    "main_phase s = MainRemove 1"
    by (simp add: example_inbox_def remote_eval)
  then show ?thesis by (blast intro: reachesI)
qed

theorem blocked_forever_witness:
  "(\<exists>s. reaches (remote_new (Inr (Some example_connect) # replicate 257 (Inr (Some (HostMessage.TcpData 1 [0]))))
      example_writer) s \<and> circular_wait 0 s \<and>
      (\<forall>s'. reaches s s' \<longrightarrow> main_phase s' = main_phase s \<and> rp_writer s' = rp_writer s)) \<and>
   (\<exists>s. reaches (remote_new example_inbox example_writer) s \<and> main_phase s = MainRemove 1 \<and>
      (\<forall>s'. reaches s s' \<longrightarrow> main_phase s' = main_phase s \<and> rp_writer s' = rp_writer s))"
proof -
  have never: "main_phase s' = main_phase s \<and> rp_writer s' = rp_writer s" if "blocked s" "reaches s s'" for s s'
    using blocked_forever[OF that(1)] that(2) unfolding reaches_def by blast
  show ?thesis
    using reaches_circular_wait reaches_remove never unfolding blocked_def by (intro conjI) (meson, meson)
qed

section \<open>Data that is dropped\<close>

lemma unknown_data:
  assumes "main_phase s = MainSelect" "running s" "tcp_connections s i = None"
    and "inbox s = map (\<lambda>d. Inr (Some (HostMessage.TcpData i d))) ds @ rest"
  shows "remote_run shard enc (replicate (length ds) MainRecv) s = Some (s\<lparr>inbox := rest\<rparr>)"
  using assms
proof (induction ds arbitrary: s)
  case Nil
  then show ?case by (cases s) simp
next
  case (Cons d ds)
  let ?s = "s\<lparr>inbox := map (\<lambda>d. Inr (Some (HostMessage.TcpData i d))) ds @ rest\<rparr>"
  have "main_recv s = Some ?s"
    using Cons.prems by (simp add: main_recv_def handle_tcp_data_def iteration_end_def)
  with Cons.IH[of ?s] Cons.prems show ?case by simp
qed

text \<open>
  C22: The remote reports a connection before its task inserts it into the map, and the host
  sends data as soon as it has the report: there is a schedule in which \<open>TcpConnected\<close> is
  written, all of the host's first data is then handled, found to be for an unknown
  connection and dropped, and only then the connection is inserted. The connection goes on
  without these bytes.
\<close>

theorem early_data_lost:
  assumes "inbox s = Inr (Some (TcpConnect i ip port)) #
      map (\<lambda>d. Inr (Some (HostMessage.TcpData i d))) ds @ rest"
    and "main_phase s = MainSelect" "running s" "tcp_connections s i = None" "k = length (conn_tasks s)"
    and "ch_queue (response s) = []" "0 < ch_cap (response s)" "\<not> ch_closed (response s)"
    and "write_message enc (TcpConnected i) (rp_writer s) = (Inr (), w')"
  shows "\<exists>s'. remote_run shard enc ([MainRecv, Conn k ConnectOk, Conn k Proceed, MainRespond] @
      replicate (length ds) MainRecv @ [Conn k Proceed]) s = Some s' \<and>
    rp_writer s' = w' \<and> inbox s' = rest \<and> tcp_connections s' i = Some k \<and>
    ct_phase (conn_tasks s' ! k) = LoopTop \<and> ct_rx (conn_tasks s' ! k) = [] \<and>
    ct_accepted (conn_tasks s' ! k) = []"
proof -
  obtain s1 where s1: "remote_run shard enc [MainRecv, Conn k ConnectOk, Conn k Proceed, MainRespond] s = Some s1"
    "main_phase s1 = MainSelect" "running s1" "tcp_connections s1 i = None" "rp_writer s1 = w'"
    "inbox s1 = map (\<lambda>d. Inr (Some (HostMessage.TcpData i d))) ds @ rest"
    "length (conn_tasks s1) = Suc k" "ct_id (conn_tasks s1 ! k) = i" "ct_phase (conn_tasks s1 ! k) = Inserting"
    "ct_rx (conn_tasks s1 ! k) = []" "ct_accepted (conn_tasks s1 ! k) = []"
    using assms by (simp add: main_recv_def handle_tcp_connect_def iteration_end_def conn_step_def
        update_task_def set_phase_def respond_def chan_send_def main_respond_def chan_recv_def nth_append)
  let ?s2 = "s1\<lparr>inbox := rest\<rparr>"
  obtain s3 where "remote_run shard enc [Conn k Proceed] ?s2 = Some s3" "rp_writer s3 = w'" "inbox s3 = rest"
    "tcp_connections s3 i = Some k" "ct_phase (conn_tasks s3 ! k) = LoopTop"
    "ct_rx (conn_tasks s3 ! k) = []" "ct_accepted (conn_tasks s3 ! k) = []"
    using s1 by (simp add: conn_step_def Let_def insert_connection_def remove_connection_def update_task_def set_phase_def)
  with remote_run_then[OF s1(1) remote_run_then[OF unknown_data[OF s1(2-4,6)]]] show ?thesis
    by blast
qed

theorem early_data_lost_witness:
  "\<exists>s. remote_run unat remote_to_allocvec [MainRecv, Conn 0 ConnectOk, Conn 0 Proceed, MainRespond, MainRecv, Conn 0 Proceed]
      (remote_new example_inbox example_writer) = Some s \<and>
    wr_out (rp_writer s) = stream remote_to_allocvec [TcpConnected 1] \<and> inbox s = [Inr None] \<and>
    tcp_connections s 1 = Some 0 \<and> ct_accepted (conn_tasks s ! 0) = []"
proof -
  let ?s = "remote_new example_inbox example_writer"
  obtain w' where w': "write_message remote_to_allocvec (TcpConnected 1) (rp_writer ?s) = (Inr (), w')"
    "wr_out w' = stream remote_to_allocvec [TcpConnected 1]"
    by (simp add: remote_eval stream_def frame_of_def frame_def)
  from early_data_lost[of ?s 1 "V4 0x0A000001" 80 "[[1, 2]]" "[Inr None]" 0, OF _ _ _ _ _ _ _ _ w'(1), of unat] w'(2)
  show ?thesis by (simp add: remote_new_def new_chan_def example_inbox_def example_connect_def del: remote_run.simps) metis
qed

section \<open>Closing flushes\<close>

text \<open>
  What keeps a task from writing all that it has accepted: the destination ends its stream, or a
  read from it or a write to it fails.
\<close>

fun cuts_off :: "nat \<Rightarrow> remote_event \<Rightarrow> bool" where
  "cuts_off k (Conn j (DestRead (Inr bs))) \<longleftrightarrow> j = k \<and> bs = []"
| "cuts_off k (Conn j (DestRead (Inl e))) \<longleftrightarrow> j = k"
| "cuts_off k (Conn j (DestWriteErr n e)) \<longleftrightarrow> j = k"
| "cuts_off k _ \<longleftrightarrow> False"

text \<open>
  The state after \<open>TcpClose\<close>: the task is not in the map any more and its channel is closed, so
  what it has accepted stays \<open>acc\<close>; it relays on, until all of this is written.
\<close>

definition flushing :: "u32 \<Rightarrow> nat \<Rightarrow> bytes list \<Rightarrow> RemoteProxy \<Rightarrow> bool" where
  "flushing i k acc s \<longleftrightarrow> k < length (conn_tasks s) \<and> tcp_connections s i = None \<and>
     (\<exists>t. conn_tasks s ! k = t \<and> ct_id t = i \<and> \<not> ct_open t \<and> ct_accepted t = acc \<and>
        (in_map (ct_phase t) \<or> ct_phase t = Ended) \<and>
        ct_out t @ in_hand (ct_phase t) @ concat (ct_rx t) = concat acc \<and>
        (relaying (ct_phase t) \<or> ct_phase t \<in> {Closing, Removing, Ended} \<and> ct_rx t = []))"

lemma flushing_same:
  "flushing i k acc s \<Longrightarrow> conn_tasks s' ! k = conn_tasks s ! k \<Longrightarrow> k < length (conn_tasks s') \<Longrightarrow>
   tcp_connections s' i = None \<Longrightarrow> flushing i k acc s'"
  by (simp add: flushing_def)

text \<open>Nothing but its own steps changes a task whose channel is closed.\<close>

lemma closed_remove:
  assumes "\<not> ct_open (conn_tasks s ! k)"
  shows "conn_tasks (remove_connection i s) ! k = conn_tasks s ! k"
proof (cases "tcp_connections s i = Some k \<and> k < length (conn_tasks s)")
  case True
  have "t\<lparr>ct_open := False\<rparr> = t" if "\<not> ct_open t" for t using that by (cases t) simp
  with True assms show ?thesis by (simp add: remove_connection_def update_task_def)
next
  case False
  then show ?thesis
    by (cases "tcp_connections s i = Some k")
       (auto simp: remove_connection_def update_task_def not_less list_update_beyond split: option.split)
qed

lemma remove_length [simp]: "length (conn_tasks (remove_connection i s)) = length (conn_tasks s)"
  by (simp add: remove_connection_def update_task_def split: option.split)

lemma closed_other:
  assumes "conn_step shard j ev s = Some s'" "j \<noteq> k" "\<not> ct_open (conn_tasks s ! k)"
  shows "conn_tasks s' ! k = conn_tasks s ! k" "length (conn_tasks s') = length (conn_tasks s)"
proof -
  have "conn_tasks s' ! k = conn_tasks s ! k \<and> length (conn_tasks s') = length (conn_tasks s)"
    using assms closed_remove[OF assms(3)]
    by (cases "ct_phase (conn_tasks s ! j)")
       (auto simp: conn_step_def Let_def respond_def update_task_def insert_connection_def
         split: if_splits conn_event.splits sum.splits list.splits send_result.splits)
  then show "conn_tasks s' ! k = conn_tasks s ! k" "length (conn_tasks s') = length (conn_tasks s)" by simp_all
qed

lemma conn_running: "conn_step shard j ev s = Some s' \<Longrightarrow> running s' = running s"
  by (cases "ct_phase (conn_tasks s ! j)")
     (auto simp: conn_step_def Let_def respond_def update_task_def insert_connection_def remove_connection_def
       split: if_splits conn_event.splits sum.splits list.splits send_result.splits option.splits)

lemma flushing_own:
  assumes step: "conn_step shard k ev s = Some s'" and f: "flushing i k acc s" and "running s"
    and open_ch: "\<not> ch_closed (response s)" and calm: "\<not> cuts_off k (Conn k ev)"
  shows "flushing i k acc s'"
proof -
  obtain t where t: "conn_tasks s ! k = t" "ct_id t = i" "\<not> ct_open t" "ct_accepted t = acc" "k < length (conn_tasks s)"
    "tcp_connections s i = None" "ct_out t @ in_hand (ct_phase t) @ concat (ct_rx t) = concat acc"
    "in_map (ct_phase t) \<or> ct_phase t = Ended"
    "relaying (ct_phase t) \<or> ct_phase t \<in> {Closing, Removing, Ended} \<and> ct_rx t = []"
    using f by (auto simp: flushing_def)
  have gone: "remove_connection i s = s" using t(6) by (simp add: remove_connection_def)
  show ?thesis
    using step t assms(3) open_ch calm gone
    by (cases "ct_phase t")
       (auto simp: conn_step_def Let_def respond_def flushing_def update_task_def set_phase_def
         split: if_splits conn_event.splits sum.splits list.splits send_result.splits)
qed

lemma main_running:
  "main_recv s = Some s' \<Longrightarrow> running s' \<Longrightarrow> running s" "main_respond enc s = Some s' \<Longrightarrow> running s' \<Longrightarrow> running s"
  "main_send s = Some s' \<Longrightarrow> running s' = running s"
proof -
  have "running (handle_host_message m s) \<Longrightarrow> running s" for m and s :: RemoteProxy
    by (cases m) (auto simp: iteration_end_def handle_tcp_connect_def handle_tcp_data_def handle_tcp_close_def
        remove_connection_def update_task_def spawn_udp_def split: option.splits)
  then show "main_recv s = Some s' \<Longrightarrow> running s' \<Longrightarrow> running s"
    by (force simp: main_recv_def break_loop_def split: if_splits list.splits sum.splits option.splits)
qed (auto simp: main_respond_def break_loop_def main_send_def iteration_end_def update_task_def
       split: if_splits option.splits prod.splits sum.splits main_phase.splits)

lemma flushing_recv:
  assumes "main_recv s = Some s'" "flushing i k acc s"
  shows "flushing i k acc s'"
proof -
  have "flushing i k acc (handle_host_message m s)" if f: "flushing i k acc s" for m s
  proof -
    have t: "k < length (conn_tasks s)" "\<not> ct_open (conn_tasks s ! k)" "tcp_connections s i = None"
      using f by (auto simp: flushing_def)
    show ?thesis
    proof (cases m)
      case (TcpClose j)
      show ?thesis
        by (rule flushing_same[OF f])
           (use t closed_remove[OF t(2), of j] in \<open>simp_all add: TcpClose handle_tcp_close_def iteration_end_def connections_update\<close>)
    qed (use f t in \<open>auto simp: flushing_def iteration_end_def handle_tcp_connect_def handle_tcp_data_def
        spawn_udp_def nth_append split: option.split\<close>)
  qed
  moreover have "flushing i k acc (s\<lparr>inbox := rest\<rparr>)" for rest using assms(2) by (simp add: flushing_def)
  moreover have "flushing i k acc (break_loop s)" if "flushing i k acc s" for s
    using that by (simp add: flushing_def break_loop_def)
  ultimately show ?thesis
    using assms by (auto simp: main_recv_def split: if_splits list.splits sum.splits option.splits)
qed

lemma flushing_step:
  assumes step: "remote_step shard enc ev s = Some s'" and f: "flushing i k acc s" and inv: "remote_inv enc w s"
    and "running s" "\<not> cuts_off k ev"
  shows "flushing i k acc s'"
proof -
  have ok: "remote_ok enc w s" "names_ok s" "\<not> ch_closed (response s)"
    using inv by (simp_all add: remote_inv_def remote_ok_def)
  have t: "k < length (conn_tasks s)" "\<not> ct_open (conn_tasks s ! k)" "tcp_connections s i = None"
    "ct_id (conn_tasks s ! k) = i"
    using f by (auto simp: flushing_def)
  show ?thesis
  proof (cases ev)
    case MainRecv
    with flushing_recv[OF _ f] step show ?thesis by simp
  next
    case MainRespond
    with step have "conn_tasks s' = conn_tasks s" "tcp_connections s' = tcp_connections s"
      by (auto simp: main_respond_def iteration_end_def break_loop_def split: if_splits option.splits prod.splits sum.splits)
    with t show ?thesis by (intro flushing_same[OF f]) simp_all
  next
    case MainPush
    then obtain j n d where p: "main_phase s = MainSend j n d" "main_send s = Some s'"
      using step by (auto simp: main_send_def split: main_phase.splits)
    then have j: "tcp_connections s j = Some n" using ok(2) by (simp add: names_ok_def)
    then have "n \<noteq> k" using names_okD(2)[OF ok(2) j] t(3,4) by auto
    with p have "conn_tasks s' ! k = conn_tasks s ! k" "length (conn_tasks s') = length (conn_tasks s)"
      "tcp_connections s' = tcp_connections s"
      by (auto simp: main_send_def iteration_end_def update_task_def split: if_splits)
    with t show ?thesis by (intro flushing_same[OF f]) simp_all
  next
    case (Datagram j uev)
    with step have "udp_task_step j (ut_phase (udp_tasks s ! j)) uev s = Some s'" by (simp split: if_splits)
    from udp_task_step_same[OF this] t show ?thesis by (intro flushing_same[OF f]) simp_all
  next
    case (Conn j cev)
    with step have c: "conn_step shard j cev s = Some s'" "j < length (conn_tasks s)" by (simp_all split: if_splits)
    show ?thesis
    proof (cases "j = k")
      case True
      with flushing_own[OF c(1)[unfolded True] f assms(4) ok(3)] assms(5) Conn show ?thesis by simp
    next
      case False
      then have "ct_id (conn_tasks s ! j) \<noteq> i"
        using task_unique[OF ok(1), of j k] c(2) t(1,4) by auto
      then have "tcp_connections s' i = None"
        using conn_step_map[OF c(1)] t(3) by (auto split: conn_phase.splits)
      with closed_other[OF c(1) False t(2)] t(1) show ?thesis by (intro flushing_same[OF f]) simp_all
    qed
  qed
qed

lemma step_running:
  assumes "remote_step shard enc ev s = Some s'" "running s'"
  shows "running s"
proof (cases ev)
  case (Datagram j uev)
  with assms show ?thesis
    by (cases "(j, ut_phase (udp_tasks s ! j), uev, s)" rule: udp_task_step.cases)
       (auto simp: update_udp_def split: if_splits send_result.splits)
qed (use assms main_running[where s = s and s' = s'] conn_running in \<open>auto split: if_splits\<close>)

lemma flushing_run:
  "remote_run shard enc evs s = Some s' \<Longrightarrow> flushing i k acc s \<Longrightarrow> remote_inv enc w s \<Longrightarrow> running s' \<Longrightarrow>
   \<forall>ev\<in>set evs. \<not> cuts_off k ev \<Longrightarrow> flushing i k acc s' \<and> running s"
proof (induction evs arbitrary: s)
  case (Cons ev evs)
  then obtain s1 where s1: "remote_step shard enc ev s = Some s1" "remote_run shard enc evs s1 = Some s'"
    by (auto simp: bind_eq_Some_conv)
  have inv: "remote_inv enc w s1"
    using remote_inv_step[OF s1(1) Cons.prems(3), where msgs = "[]" and i = 0 and k = 0 and acc = "[]"] by blast
  have "running s1 \<and> running s"
  proof -
    have "remote_run shard enc evs s = Some s' \<Longrightarrow> running s' \<Longrightarrow> running s" for evs s
    proof (induction evs arbitrary: s)
      case (Cons ev evs)
      then show ?case using step_running by (fastforce simp: bind_eq_Some_conv)
    qed simp
    from this[OF s1(2) Cons.prems(4)] step_running[OF s1(1)] show ?thesis by simp
  qed
  with flushing_step[OF s1(1) Cons.prems(2,3)] Cons.IH[OF s1(2) _ inv Cons.prems(4)] Cons.prems(5) show ?case by simp
qed simp

text \<open>The task's own steps bring it to its end, if the main task lets go of its shard of the map.\<close>

definition able :: "(u32 \<Rightarrow> nat) \<Rightarrow> u32 \<Rightarrow> nat \<Rightarrow> nat \<Rightarrow> RemoteProxy \<Rightarrow> bool" where
  "able shard i k n s \<longleftrightarrow> k < length (conn_tasks s) \<and> ct_id (conn_tasks s ! k) = i \<and> \<not> ct_open (conn_tasks s ! k) \<and>
     tcp_connections s i = None \<and> running s \<and> main_phase s \<noteq> MainReturned \<and> \<not> shard_held shard (main_phase s) i \<and>
     \<not> ch_closed (response s) \<and> length (ch_queue (response s)) + n \<le> ch_cap (response s)"

abbreviation due :: "conn_task \<Rightarrow> bytes" where
  "due t \<equiv> ct_out t @ in_hand (ct_phase t) @ concat (ct_rx t)"

definition finishes ::
  "(u32 \<Rightarrow> nat) \<Rightarrow> (RemoteMessage \<Rightarrow> string + bytes) \<Rightarrow> nat \<Rightarrow> RemoteProxy \<Rightarrow> RemoteMessage list \<Rightarrow> bool"
where
  "finishes shard enc k s ms \<longleftrightarrow> (\<exists>evs s'. set evs \<subseteq> {Conn k Proceed, Conn k RxRecv, Conn k DestWritten} \<and>
     remote_run shard enc evs s = Some s' \<and> ct_phase (conn_tasks s' ! k) = Ended \<and> ct_rx (conn_tasks s' ! k) = [] \<and>
     ct_out (conn_tasks s' ! k) = due (conn_tasks s ! k) \<and> ch_queue (response s') = ch_queue (response s) @ ms)"

lemma finishes_step:
  assumes "remote_step shard enc ev s = Some s1" "ev \<in> {Conn k Proceed, Conn k RxRecv, Conn k DestWritten}"
    and "finishes shard enc k s1 ms" "due (conn_tasks s1 ! k) = due (conn_tasks s ! k)"
    and "ch_queue (response s1) = ch_queue (response s) @ said"
  shows "finishes shard enc k s (said @ ms)"
proof -
  obtain evs s' where "set evs \<subseteq> {Conn k Proceed, Conn k RxRecv, Conn k DestWritten}"
    "remote_run shard enc evs s1 = Some s'" "ct_phase (conn_tasks s' ! k) = Ended" "ct_rx (conn_tasks s' ! k) = []"
    "ct_out (conn_tasks s' ! k) = due (conn_tasks s1 ! k)" "ch_queue (response s') = ch_queue (response s1) @ ms"
    using assms(3) unfolding finishes_def by blast
  with assms(1,2,4,5) show ?thesis
    unfolding finishes_def by (intro exI[of _ "ev # evs"] exI[of _ s']) simp
qed

lemmas own_step = conn_step_def Let_def able_def update_task_def set_phase_def respond_def chan_send_def

lemma finish_ended:
  "ct_phase (conn_tasks s ! k) = Ended \<Longrightarrow> ct_rx (conn_tasks s ! k) = [] \<Longrightarrow> finishes shard enc k s []"
  unfolding finishes_def by (intro exI[of _ "[]"] exI[of _ s]) simp

lemma finish_removing:
  assumes "able shard i k 0 s" "ct_phase (conn_tasks s ! k) = Removing" "ct_rx (conn_tasks s ! k) = []"
  shows "finishes shard enc k s []"
proof -
  have "remove_connection i s = s" using assms(1) by (simp add: remove_connection_def able_def)
  with assms have "remote_step shard enc (Conn k Proceed) s = Some (update_task k (set_phase Ended) s)"
    by (simp add: own_step)
  from finishes_step[OF this _ finish_ended, where said = "[]"] assms show ?thesis
    by (simp add: own_step)
qed

lemma finish_closing:
  assumes "able shard i k 1 s" "ct_phase (conn_tasks s ! k) = Closing" "ct_rx (conn_tasks s ! k) = []"
  shows "finishes shard enc k s [TcpClosed i]"
proof -
  obtain s1 where s1: "remote_step shard enc (Conn k Proceed) s = Some s1" "able shard i k 0 s1"
    "ct_phase (conn_tasks s1 ! k) = Removing" "ct_rx (conn_tasks s1 ! k) = []"
    "ct_out (conn_tasks s1 ! k) = ct_out (conn_tasks s ! k)"
    "ch_queue (response s1) = ch_queue (response s) @ [TcpClosed i]"
    using assms by (simp add: own_step)
  from finishes_step[OF s1(1) _ finish_removing[OF s1(2-4)], where said = "[TcpClosed i]"] s1 assms show ?thesis by simp
qed

lemma finish_selecting_empty:
  assumes "able shard i k 1 s" "ct_phase (conn_tasks s ! k) = Selecting" "ct_rx (conn_tasks s ! k) = []"
  shows "finishes shard enc k s [TcpClosed i]"
proof -
  obtain s1 where s1: "remote_step shard enc (Conn k RxRecv) s = Some s1" "able shard i k 1 s1"
    "ct_phase (conn_tasks s1 ! k) = Closing" "ct_rx (conn_tasks s1 ! k) = []"
    "ct_out (conn_tasks s1 ! k) = ct_out (conn_tasks s ! k)" "response s1 = response s"
    using assms by (simp add: own_step)
  from finishes_step[OF s1(1) _ finish_closing[OF s1(2-4)], where said = "[]"] s1 assms show ?thesis by simp
qed

text \<open>From the relay loop: block by block, then the end.\<close>

lemma finish_relaying:
  assumes "able shard i k 1 s" "ct_rx (conn_tasks s ! k) = ds"
    and "ct_phase (conn_tasks s ! k) = LoopTop \<or> ct_phase (conn_tasks s ! k) = Selecting"
  shows "finishes shard enc k s [TcpClosed i]"
  using assms
proof (induction ds arbitrary: s)
  case Nil
  show ?case
  proof (cases "ct_phase (conn_tasks s ! k) = Selecting")
    case True
    with Nil finish_selecting_empty show ?thesis by blast
  next
    case False
    then obtain s1 where s1: "remote_step shard enc (Conn k Proceed) s = Some s1" "able shard i k 1 s1"
      "ct_phase (conn_tasks s1 ! k) = Selecting" "ct_rx (conn_tasks s1 ! k) = []"
      "ct_out (conn_tasks s1 ! k) = ct_out (conn_tasks s ! k)" "response s1 = response s"
      using Nil by (simp add: own_step)
    from finishes_step[OF s1(1) _ finish_selecting_empty[OF s1(2-4)], where said = "[]"] s1 Nil False show ?thesis by simp
  qed
next
  case (Cons d ds)
  have sel: "finishes shard enc k s [TcpClosed i]"
    if here: "able shard i k 1 s" "ct_rx (conn_tasks s ! k) = d # ds" "ct_phase (conn_tasks s ! k) = Selecting" for s
  proof -
    obtain s1 where s1: "remote_step shard enc (Conn k RxRecv) s = Some s1" "able shard i k 1 s1"
      "ct_phase (conn_tasks s1 ! k) = Writing d" "ct_rx (conn_tasks s1 ! k) = ds"
      "ct_out (conn_tasks s1 ! k) = ct_out (conn_tasks s ! k)" "response s1 = response s"
      using here by (simp add: own_step)
    obtain s2 where s2: "remote_step shard enc (Conn k DestWritten) s1 = Some s2" "able shard i k 1 s2"
      "ct_phase (conn_tasks s2 ! k) = LoopTop" "ct_rx (conn_tasks s2 ! k) = ds"
      "ct_out (conn_tasks s2 ! k) = ct_out (conn_tasks s1 ! k) @ d" "response s2 = response s1"
      using s1(2-6) by (simp add: own_step)
    have "finishes shard enc k s2 [TcpClosed i]" using Cons.IH[OF s2(2,4)] s2(3) by blast
    from finishes_step[OF s2(1) _ this, where said = "[]"] s1 s2 have "finishes shard enc k s1 [TcpClosed i]" by simp
    from finishes_step[OF s1(1) _ this, where said = "[]"] s1 here show ?thesis by simp
  qed
  show ?case
  proof (cases "ct_phase (conn_tasks s ! k) = Selecting")
    case True
    with sel[OF Cons.prems(1,2)] show ?thesis by blast
  next
    case False
    then obtain s1 where s1: "remote_step shard enc (Conn k Proceed) s = Some s1" "able shard i k 1 s1"
      "ct_phase (conn_tasks s1 ! k) = Selecting" "ct_rx (conn_tasks s1 ! k) = d # ds"
      "ct_out (conn_tasks s1 ! k) = ct_out (conn_tasks s ! k)" "response s1 = response s"
      using Cons.prems by (simp add: own_step)
    from finishes_step[OF s1(1) _ sel[OF s1(2,4,3)], where said = "[]"] s1 Cons.prems False show ?thesis by simp
  qed
qed

lemma able_less: "able shard i k n s \<Longrightarrow> m \<le> n \<Longrightarrow> able shard i k m s"
  by (auto simp: able_def)

lemma flushing_finishes:
  assumes f: "flushing i k acc s" and a: "able shard i k 2 s"
  shows "\<exists>ms. finishes shard enc k s ms \<and>
    (ct_phase (conn_tasks s ! k) \<notin> {Removing, Ended} \<longrightarrow> ms \<noteq> [] \<and> last ms = TcpClosed i)"
proof -
  let ?t = "conn_tasks s ! k"
  have t: "in_map (ct_phase ?t) \<or> ct_phase ?t = Ended" "\<not> relaying (ct_phase ?t) \<longrightarrow> ct_rx ?t = []"
    "\<forall>e. ct_phase ?t \<noteq> SendingError e"
    using f by (auto simp: flushing_def)
  note a1 = able_less[OF a, of 1] and a0 = able_less[OF a, of 0]
  show ?thesis
  proof (cases "ct_phase ?t")
    case (Writing d)
    then obtain s1 where s1: "remote_step shard enc (Conn k DestWritten) s = Some s1" "able shard i k 1 s1"
      "ct_phase (conn_tasks s1 ! k) = LoopTop" "ct_rx (conn_tasks s1 ! k) = ct_rx ?t"
      "ct_out (conn_tasks s1 ! k) = ct_out ?t @ d" "response s1 = response s"
      using a1 by (simp add: own_step)
    have "finishes shard enc k s1 [TcpClosed i]" using finish_relaying[OF s1(2,4)] s1(3) by blast
    from finishes_step[OF s1(1) _ this, where said = "[]"] s1 Writing show ?thesis
      by (intro exI[of _ "[TcpClosed i]"]) simp
  next
    case (SendingData bs)
    then obtain s1 where s1: "remote_step shard enc (Conn k Proceed) s = Some s1" "able shard i k 1 s1"
      "ct_phase (conn_tasks s1 ! k) = LoopTop" "ct_rx (conn_tasks s1 ! k) = ct_rx ?t"
      "ct_out (conn_tasks s1 ! k) = ct_out ?t"
      "ch_queue (response s1) = ch_queue (response s) @ [RemoteMessage.TcpData i bs]"
      using a by (simp add: own_step)
    have "finishes shard enc k s1 [TcpClosed i]" using finish_relaying[OF s1(2,4)] s1(3) by blast
    from finishes_step[OF s1(1) _ this, where said = "[RemoteMessage.TcpData i bs]"] s1 SendingData show ?thesis
      by (intro exI[of _ "[RemoteMessage.TcpData i bs, TcpClosed i]"]) simp
  next
    case Closing
    with finish_closing[OF a1] t(2) show ?thesis by (intro exI[of _ "[TcpClosed i]"]) simp
  next
    case Removing
    with finish_removing[OF a0] t(2) show ?thesis by (intro exI[of _ "[]"]) simp
  next
    case Ended
    with finish_ended t(2) show ?thesis by (intro exI[of _ "[]"]) simp
  qed (use t finish_relaying[OF a1 refl, of enc] in \<open>auto intro!: exI[of _ "[TcpClosed i]"]\<close>)
qed

text \<open>
  C21: A host that closes gets everything delivered, if the destination takes it: from the moment
  when the main task takes \<open>TcpClose\<close> for a relaying connection of its map, and for every schedule
  after it in which the destination does not end its stream, no read or write of it fails and the
  session is not shut down, the task accepts nothing more and holds what it has accepted as
  written, in its hand or on its channel; it stops relaying only when all of it is written, in
  order. And at every such point the task can go on alone: as soon as the main task holds nothing
  in its shard of the map and the response channel has two places, its own steps lead it to its
  end, with all of it written, an empty channel and, if it has not been said yet, \<open>TcpClosed\<close> said.
\<close>

theorem close_flushes:
  assumes "remote_run shard enc evs1 (remote_new msgs w) = Some s1" "distinct (List.map_filter connect_id msgs)"
    and "main_phase s1 = MainSelect" "inbox s1 = Inr (Some (TcpClose i)) # rest"
    and "tcp_connections s1 i = Some k" "relaying (ct_phase (conn_tasks s1 ! k))"
    and "remote_run shard enc (MainRecv # evs2) s1 = Some s" "\<forall>ev\<in>set evs2. \<not> cuts_off k ev" "running s"
    and "conn_tasks s ! k = t"
  shows "ct_accepted t = ct_accepted (conn_tasks s1 ! k) \<and>
    ct_out t @ in_hand (ct_phase t) @ concat (ct_rx t) = concat (ct_accepted t) \<and>
    (\<not> relaying (ct_phase t) \<longrightarrow> ct_out t = concat (ct_accepted t)) \<and>
    (main_phase s \<noteq> MainReturned \<and> \<not> shard_held shard (main_phase s) i \<and>
     length (ch_queue (response s)) + 2 \<le> ch_cap (response s) \<longrightarrow>
       (\<exists>evs3 s3 ms. set evs3 \<subseteq> {Conn k Proceed, Conn k RxRecv, Conn k DestWritten} \<and>
          remote_run shard enc evs3 s = Some s3 \<and> ct_phase (conn_tasks s3 ! k) = Ended \<and>
          ct_out (conn_tasks s3 ! k) = concat (ct_accepted t) \<and> ct_rx (conn_tasks s3 ! k) = [] \<and>
          ch_queue (response s3) = ch_queue (response s) @ ms \<and>
          (ct_phase t \<notin> {Removing, Ended} \<longrightarrow> ms \<noteq> [] \<and> last ms = TcpClosed i)))"
proof -
  obtain s2 where s2: "main_recv s1 = Some s2" "remote_run shard enc evs2 s2 = Some s"
    using assms(7) by (auto simp: bind_eq_Some_conv)
  have inv1: "remote_inv enc w s1"
    using remote_inv_run[OF assms(1) remote_new_inv[OF assms(2)]] by blast
  have inv: "remote_inv enc w s2" "remote_inv enc w s"
    using remote_inv_run[of shard enc "[MainRecv]" s1 s2, OF _ inv1] remote_inv_run[OF assms(7) inv1] s2(1) by auto
  have named: "names_ok s1" "\<forall>t\<in>set (views s1). task_ok t" using inv1 by (simp_all add: remote_inv_def remote_ok_def)
  note k = names_okD[OF named(1) assms(5)]
  have "task_ok (view (conn_tasks s1 ! k))" using named(2) k(1) by simp
  then have "due (conn_tasks s1 ! k) = concat (ct_accepted (conn_tasks s1 ! k))"
    using assms(6) by (auto simp: task_ok_def)
  then have "flushing i k (ct_accepted (conn_tasks s1 ! k)) s2"
    using s2(1) assms(3-6) k
    by (auto simp: main_recv_def handle_tcp_close_def remove_connection_def iteration_end_def flushing_def update_task_def)
  from flushing_run[OF s2(2) this inv(1) assms(9,8)]
  have f: "flushing i k (ct_accepted (conn_tasks s1 ! k)) s" by blast
  then have t: "ct_accepted t = ct_accepted (conn_tasks s1 ! k)" "due t = concat (ct_accepted t)"
    "\<not> relaying (ct_phase t) \<longrightarrow> ct_phase t \<in> {Closing, Removing, Ended} \<and> ct_rx t = []"
    using assms(10) by (auto simp: flushing_def)
  have "\<exists>ms. finishes shard enc k s ms \<and> (ct_phase t \<notin> {Removing, Ended} \<longrightarrow> ms \<noteq> [] \<and> last ms = TcpClosed i)"
    if "main_phase s \<noteq> MainReturned \<and> \<not> shard_held shard (main_phase s) i \<and>
      length (ch_queue (response s)) + 2 \<le> ch_cap (response s)"
  proof -
    have "able shard i k 2 s"
      using that f assms(9) inv(2) by (auto simp: able_def flushing_def remote_inv_def remote_ok_def)
    from flushing_finishes[OF f this] assms(10) show ?thesis by simp
  qed
  moreover have "\<not> relaying (ct_phase t) \<longrightarrow> ct_out t = concat (ct_accepted t)" using t(2,3) by auto
  ultimately show ?thesis
    using t(1,2) assms(10) unfolding finishes_def by metis
qed

theorem close_flushes_witness:
  "\<exists>s evs s'. remote_run unat remote_to_allocvec
      [MainRecv, Conn 0 ConnectOk, Conn 0 Proceed, Conn 0 Proceed, MainRecv, MainPush, MainRecv]
      (remote_new [Inr (Some example_connect), Inr (Some (HostMessage.TcpData 1 [1, 2])), Inr (Some (TcpClose 1))]
        example_writer) = Some s \<and>
    set evs \<subseteq> {Conn 0 Proceed, Conn 0 RxRecv, Conn 0 DestWritten} \<and> remote_run unat remote_to_allocvec evs s = Some s' \<and>
    ct_out (conn_tasks s' ! 0) = [1, 2] \<and> ct_phase (conn_tasks s' ! 0) = Ended"
proof -
  let ?evs = "[MainRecv, Conn 0 ConnectOk, Conn 0 Proceed, Conn 0 Proceed, MainRecv, MainPush]"
  let ?msgs = "[Inr (Some example_connect), Inr (Some (HostMessage.TcpData 1 [1, 2])), Inr (Some (TcpClose 1))]
    :: (protocol_error + HostMessage option) list"
  obtain s1 where s1: "remote_run unat remote_to_allocvec ?evs (remote_new ?msgs example_writer) = Some s1"
    "main_phase s1 = MainSelect" "inbox s1 = Inr (Some (TcpClose 1)) # []" "tcp_connections s1 1 = Some 0"
    "relaying (ct_phase (conn_tasks s1 ! 0))" "ct_accepted (conn_tasks s1 ! 0) = [[1, 2]]"
    by (simp add: remote_eval)
  obtain s where s: "remote_run unat remote_to_allocvec [MainRecv] s1 = Some s" "running s" "main_phase s = MainSelect"
    "length (ch_queue (response s)) + 2 \<le> ch_cap (response s)"
    using s1(1) by (auto simp: remote_eval)
  have dist: "distinct (List.map_filter connect_id ?msgs)"
    by (simp add: example_connect_def List.map_filter_def)
  obtain evs3 s3 where "set evs3 \<subseteq> {Conn 0 Proceed, Conn 0 RxRecv, Conn 0 DestWritten}"
    "remote_run unat remote_to_allocvec evs3 s = Some s3" "ct_phase (conn_tasks s3 ! 0) = Ended"
    "ct_out (conn_tasks s3 ! 0) = [1, 2]"
    using close_flushes[OF s1(1) dist s1(2-5) s(1) _ s(2) refl] s(3,4) s1(6) by auto
  moreover have "remote_run unat remote_to_allocvec (?evs @ [MainRecv]) (remote_new ?msgs example_writer) = Some s"
    using remote_run_then[OF s1(1) s(1)] .
  ultimately show ?thesis by (intro exI[of _ s] exI[of _ evs3] exI[of _ s3]) (simp del: remote_run.simps)
qed

end
