(* ===== verification/Cli.thy ===== *)
theory Cli
  imports Prelude "HOL-Library.Char_ord"
begin

text \<open>
  \<open>src/src/cli.rs\<close>: the parsers of the remote destination and of the subnets, with what they
  use of Rust's standard library: \<open>str::split\<close>, \<open>str::splitn\<close>, the integer parsers and the
  parser of \<open>IpAddr\<close> (\<open>core::net\<close>). Strings are their bytes; every separator is ASCII. Also
  \<open>prefix_to_netmask\<close> of \<open>src/src/host/tun.rs\<close>.
\<close>

section \<open>Digits and numbers\<close>

text \<open>\<open>char::to_digit\<close>, for the radices 10 and 16.\<close>

definition to_digit :: "nat \<Rightarrow> char \<Rightarrow> nat option" where
  "to_digit radix c =
     (let n = of_char c;
          d = (if 48 \<le> n \<and> n \<le> 57 then Some (n - 48)
               else if 97 \<le> n \<and> n \<le> 122 then Some (n - 87)
               else if 65 \<le> n \<and> n \<le> 90 then Some (n - 55) else None)
      in case d of Some k \<Rightarrow> (if k < radix then Some k else None) | None \<Rightarrow> None)"

definition is_digit :: "nat \<Rightarrow> char \<Rightarrow> bool" where
  "is_digit radix c \<longleftrightarrow> to_digit radix c \<noteq> None"

definition number :: "nat \<Rightarrow> string \<Rightarrow> nat" where
  "number radix s = foldl (\<lambda>a c. a * radix + the (to_digit radix c)) 0 s"

datatype cli_error = ParseIntError | AddrParseError | InvalidFormat | InvalidPrefix

text \<open>\<open>str::parse\<close> for \<open>u8\<close> and \<open>u16\<close>: an optional plus sign and at least one digit.\<close>

definition parse_uint :: "string \<Rightarrow> cli_error + 'a::len word" where
  "parse_uint s =
     (let ds = (case s of c # r \<Rightarrow> (if c = CHR ''+'' then r else s) | [] \<Rightarrow> s)
      in if ds = [] \<or> \<not> list_all (is_digit 10) ds \<or> 2 ^ LENGTH('a) \<le> number 10 ds
         then Inl ParseIntError else Inr (word_of_nat (number 10 ds)))"

section \<open>The remote destination\<close>

text \<open>\<open>remote.splitn(2, ':')\<close>: what is before and after the first colon.\<close>

definition parse_remote :: "string \<Rightarrow> cli_error + string \<times> u16" where
  "parse_remote remote =
     (if CHR '':'' \<in> set remote
      then case parse_uint (tl (dropWhile (\<lambda>c. c \<noteq> CHR '':'') remote)) of
             Inl e \<Rightarrow> Inl e
           | Inr port \<Rightarrow> Inr (takeWhile (\<lambda>c. c \<noteq> CHR '':'') remote, port)
      else Inr (remote, 22))"

section \<open>Addresses\<close>

text \<open>
  The parser of \<open>IpAddr\<close>: its functions read a part of the text or fail without having read
  anything.
\<close>

definition read_number :: "nat \<Rightarrow> nat \<Rightarrow> bool \<Rightarrow> nat \<Rightarrow> string \<Rightarrow> (nat \<times> string) option" where
  "read_number radix max_digits allow_zero_prefix bound s =
     (let ds = takeWhile (is_digit radix) s
      in if ds = [] \<or> max_digits < length ds \<or>
            \<not> allow_zero_prefix \<and> hd ds = CHR ''0'' \<and> 1 < length ds \<or> bound \<le> number radix ds
         then None else Some (number radix ds, drop (length ds) s))"

definition read_separator :: "char \<Rightarrow> nat \<Rightarrow> (string \<Rightarrow> ('a \<times> string) option) \<Rightarrow> string \<Rightarrow> ('a \<times> string) option" where
  "read_separator sep index inner s =
     (if 0 < index
      then case s of c # r \<Rightarrow> (if c = sep then inner r else None) | [] \<Rightarrow> None
      else inner s)"

fun read_octets :: "nat \<Rightarrow> nat \<Rightarrow> string \<Rightarrow> (nat list \<times> string) option" where
  "read_octets 0 i s = Some ([], s)"
| "read_octets (Suc n) i s =
     (case read_separator CHR ''.'' i (read_number 10 3 False 256) s of
        None \<Rightarrow> None
      | Some (k, r) \<Rightarrow> map_option (\<lambda>(ks, r'). (k # ks, r')) (read_octets n (Suc i) r))"

text \<open>The big-endian value of groups of digits.\<close>

definition groups_value :: "nat \<Rightarrow> nat list \<Rightarrow> nat" where
  "groups_value base ks = foldl (\<lambda>a k. a * base + k) 0 ks"

definition read_ipv4_addr :: "string \<Rightarrow> (u32 \<times> string) option" where
  "read_ipv4_addr s = map_option (\<lambda>(ks, r). (word_of_nat (groups_value 256 ks), r)) (read_octets 4 0 s)"

text \<open>\<open>read_groups\<close>: at most \<open>n\<close> more groups, the last two possibly in IPv4 notation.\<close>

fun read_groups :: "nat \<Rightarrow> nat \<Rightarrow> string \<Rightarrow> nat list \<times> bool \<times> string" where
  "read_groups 0 i s = ([], False, s)"
| "read_groups (Suc n) i s =
     (case if 0 < n then read_separator CHR '':'' i read_ipv4_addr s else None of
        Some (a, r) \<Rightarrow> ([unat a div 65536, unat a mod 65536], True, r)
      | None \<Rightarrow>
          (case read_separator CHR '':'' i (read_number 16 4 True 65536) s of
             Some (g, r) \<Rightarrow> (case read_groups n (Suc i) r of (gs, v4, r') \<Rightarrow> (g # gs, v4, r'))
           | None \<Rightarrow> ([], False, s)))"

definition read_ipv6_addr :: "string \<Rightarrow> (128 word \<times> string) option" where
  "read_ipv6_addr s =
     (case read_groups 8 0 s of (head, v4, r) \<Rightarrow>
        if length head = 8 then Some (word_of_nat (groups_value 65536 head), r)
        else if v4 then None
        else case r of
          c1 # c2 # r2 \<Rightarrow>
            (if c1 = CHR '':'' \<and> c2 = CHR '':''
             then case read_groups (8 - (length head + 1)) 0 r2 of (tail, _, r3) \<Rightarrow>
               Some (word_of_nat (groups_value 65536
                 (head @ replicate (8 - length head - length tail) 0 @ tail)), r3)
             else None)
        | _ \<Rightarrow> None)"

definition read_ip_addr :: "string \<Rightarrow> (IpAddr \<times> string) option" where
  "read_ip_addr s =
     (case read_ipv4_addr s of
        Some (a, r) \<Rightarrow> Some (V4 a, r)
      | None \<Rightarrow> map_option (\<lambda>(a, r). (V6 a, r)) (read_ipv6_addr s))"

definition parse_ip :: "string \<Rightarrow> cli_error + IpAddr" where
  "parse_ip s = (case read_ip_addr s of Some (a, []) \<Rightarrow> Inr a | _ \<Rightarrow> Inl AddrParseError)"

section \<open>Subnets\<close>

text \<open>\<open>str::split\<close> on a character.\<close>

fun split_on :: "char \<Rightarrow> string \<Rightarrow> string list" where
  "split_on sep [] = [[]]"
| "split_on sep (c # s) =
     (if c = sep then [] # split_on sep s
      else case split_on sep s of p # ps \<Rightarrow> (c # p) # ps | [] \<Rightarrow> [[c]])"

fun max_prefix :: "IpAddr \<Rightarrow> u8" where
  "max_prefix (V4 a) = 32"
| "max_prefix (V6 a) = 128"

definition parse_cidr :: "string \<Rightarrow> cli_error + IpAddr \<times> u8" where
  "parse_cidr cidr =
     (case split_on CHR ''/'' cidr of
        [p0, p1] \<Rightarrow>
          (case parse_ip p0 of
             Inl e \<Rightarrow> Inl e
           | Inr ip \<Rightarrow>
               (case parse_uint p1 of
                  Inl e \<Rightarrow> Inl e
                | Inr prefix \<Rightarrow> if max_prefix ip < prefix then Inl InvalidPrefix else Inr (ip, prefix)))
      | _ \<Rightarrow> Inl InvalidFormat)"

section \<open>Netmasks\<close>

unbundle bit_operations_syntax

definition prefix_to_netmask :: "u8 \<Rightarrow> u32" where
  "prefix_to_netmask prefix =
     (if prefix = 0 then 0
      else if 32 \<le> prefix then 0xFFFFFFFF
      else NOT (push_bit (unat (32 - prefix)) 1 - 1))"

section \<open>Numbers as text\<close>

definition digit_char :: "nat \<Rightarrow> char" where
  "digit_char d = (if d < 10 then char_of (48 + d) else char_of (87 + d))"

fun digits :: "nat \<Rightarrow> nat \<Rightarrow> string" where
  "digits radix n =
     (if n < radix \<or> radix < 2 then [digit_char n]
      else digits radix (n div radix) @ [digit_char (n mod radix)])"

declare digits.simps [simp del]

definition radix_ok :: "nat \<Rightarrow> bool" where
  "radix_ok radix \<longleftrightarrow> 2 \<le> radix \<and> radix \<le> 16"

lemma digit_char_code: "d < 16 \<Longrightarrow> of_char (digit_char d) = (if d < 10 then 48 + d else 87 + d)"
  by (simp add: digit_char_def)

lemma to_digit_char: "radix_ok radix \<Longrightarrow> d < radix \<Longrightarrow> to_digit radix (digit_char d) = Some d"
  by (simp add: to_digit_def digit_char_code radix_ok_def Let_def)

text \<open>The separators are not digits.\<close>

lemma digit_code: "is_digit radix c \<Longrightarrow> 48 \<le> (of_char c :: nat) \<and> of_char c \<noteq> (58 :: nat)"
  by (auto simp: is_digit_def to_digit_def Let_def split: if_splits)

lemma separator_not_digit [simp]:
  "\<not> is_digit radix (CHR ''.'')" "\<not> is_digit radix (CHR '':'')" "\<not> is_digit radix (CHR ''/'')"
  "\<not> is_digit radix (CHR ''+'')"
  using digit_code[of radix "CHR ''.''"] digit_code[of radix "CHR '':''"] digit_code[of radix "CHR ''/''"]
    digit_code[of radix "CHR ''+''"]
  by auto

lemma digits_Nil [simp]: "digits radix n \<noteq> []"
  by (simp add: digits.simps)

lemma digits_all:
  "radix_ok radix \<Longrightarrow> list_all (is_digit radix) (digits radix n) \<and> number radix (digits radix n) = n"
proof (induction radix n rule: digits.induct)
  case (1 radix n)
  have r: "2 \<le> radix" using 1(2) by (simp add: radix_ok_def)
  show ?case
  proof (cases "n < radix")
    case True
    with to_digit_char[OF 1(2)] show ?thesis
      by (simp add: digits.simps[of radix n] is_digit_def number_def)
  next
    case False
    with r have "list_all (is_digit radix) (digits radix (n div radix)) \<and>
        number radix (digits radix (n div radix)) = n div radix"
      using 1 by simp
    moreover have "is_digit radix (digit_char (n mod radix))"
      "to_digit radix (digit_char (n mod radix)) = Some (n mod radix)"
      using r to_digit_char[OF 1(2), of "n mod radix"] by (simp_all add: is_digit_def)
    ultimately show ?thesis
      using False r by (simp add: digits.simps[of radix n] number_def)
  qed
qed

lemma length_digits: "radix_ok radix \<Longrightarrow> n < radix ^ Suc k \<Longrightarrow> length (digits radix n) \<le> Suc k"
proof (induction k arbitrary: n)
  case 0
  then show ?case by (simp add: digits.simps)
next
  case (Suc k)
  have "n div radix < radix ^ Suc k"
    using Suc.prems by (simp add: less_mult_imp_div_less mult.commute)
  with Suc show ?case by (subst digits.simps) simp
qed

text \<open>No leading zero, but for zero itself.\<close>

lemma hd_digits: "radix_ok radix \<Longrightarrow> hd (digits radix n) = CHR ''0'' \<Longrightarrow> length (digits radix n) = 1"
proof (induction radix n rule: digits.induct)
  case (1 radix n)
  have nz: "0 < d \<Longrightarrow> d < radix \<Longrightarrow> digit_char d \<noteq> CHR ''0''" for d
    using digit_char_code[of d] 1(2) by (auto simp: radix_ok_def split: if_splits)
  have pos: "0 < m \<Longrightarrow> hd (digits radix m) \<noteq> CHR ''0''" for m
  proof (induction m rule: less_induct)
    case (less m)
    have "m div radix < m" "m \<ge> radix \<Longrightarrow> 0 < m div radix"
      using less.prems 1(2) by (simp_all add: radix_ok_def div_greater_zero_iff)
    with less nz[of m] 1(2) show ?case by (cases "m < radix") (auto simp: digits.simps[of radix m] radix_ok_def)
  qed
  show ?case
  proof (cases "n = 0")
    case True
    with 1(2) show ?thesis by (simp add: digits.simps radix_ok_def)
  next
    case False
    with pos[of n] 1(3) show ?thesis by simp
  qed
qed

definition stops :: "nat \<Rightarrow> string \<Rightarrow> bool" where
  "stops radix s \<longleftrightarrow> (case s of [] \<Rightarrow> True | c # r \<Rightarrow> \<not> is_digit radix c)"

lemma takeWhile_digits:
  assumes "radix_ok radix" "stops radix r"
  shows "takeWhile (is_digit radix) (digits radix n @ r) = digits radix n"
proof -
  have "takeWhile (is_digit radix) (ds @ r) = ds" if "list_all (is_digit radix) ds" for ds
    using that assms(2) by (induction ds) (auto simp: stops_def split: list.splits)
  with digits_all[OF assms(1)] show ?thesis by blast
qed

lemma read_number_digits:
  assumes "radix_ok radix" "stops radix r" "n < bound" "n < radix ^ Suc k"
  shows "read_number radix (Suc k) z bound (digits radix n @ r) = Some (n, r)"
proof -
  note len = length_digits[OF assms(1,4)]
  note zero = hd_digits[OF assms(1), of n]
  show ?thesis
    using len zero assms(3) digits_all[OF assms(1), of n]
    by (auto simp: read_number_def takeWhile_digits[OF assms(1,2)] Let_def)
qed

lemma parse_uint_digits:
  assumes "n < 2 ^ LENGTH('a)"
  shows "parse_uint (digits 10 n) = Inr (word_of_nat n :: 'a::len word)"
proof -
  have d: "list_all (is_digit 10) (digits 10 n)" "number 10 (digits 10 n) = n"
    using digits_all[of 10 n] by (simp_all add: radix_ok_def)
  obtain c ds where c: "digits 10 n = c # ds" by (cases "digits 10 n") simp_all
  with d(1) have "c \<noteq> CHR ''+''" by auto
  with c d assms show ?thesis by (simp add: parse_uint_def)
qed

section \<open>Addresses as text\<close>

text \<open>The dotted-decimal form, and the eight hexadecimal groups in full.\<close>

fun groups_of :: "nat \<Rightarrow> nat \<Rightarrow> nat \<Rightarrow> nat list" where
  "groups_of base 0 x = []"
| "groups_of base (Suc n) x = groups_of base n (x div base) @ [x mod base]"

definition with_separator :: "char \<Rightarrow> nat \<Rightarrow> nat list \<Rightarrow> string" where
  "with_separator sep radix ks = concat (map (\<lambda>k. sep # digits radix k) ks)"

definition joined :: "char \<Rightarrow> nat \<Rightarrow> nat list \<Rightarrow> string" where
  "joined sep radix ks = tl (with_separator sep radix ks)"

fun show_ip :: "IpAddr \<Rightarrow> string" where
  "show_ip (V4 a) = joined CHR ''.'' 10 (groups_of 256 4 (unat a))"
| "show_ip (V6 a) = joined CHR '':'' 16 (groups_of 65536 8 (unat a))"

lemma groups_of_props: "0 < base \<Longrightarrow> length (groups_of base n x) = n \<and> (\<forall>k\<in>set (groups_of base n x). k < base)"
  by (induction n arbitrary: x) auto

lemma groups_value_of: "groups_value base (groups_of base n x) = x mod base ^ n"
proof (induction n arbitrary: x)
  case (Suc n)
  have "groups_value base (groups_of base (Suc n) x) = (x div base mod base ^ n) * base + x mod base"
    using Suc[of "x div base"] by (simp add: groups_value_def)
  then show ?case by (simp add: mod_mult2_eq)
qed (simp add: groups_value_def)

lemma with_separator_simps [simp]:
  "with_separator sep radix [] = []"
  "with_separator sep radix (k # ks) = sep # digits radix k @ with_separator sep radix ks"
  by (simp_all add: with_separator_def)

lemma stops_separator: "\<not> is_digit radix sep \<Longrightarrow> stops radix r \<Longrightarrow> stops radix (with_separator sep radix ks @ r)"
  by (cases ks) (simp_all add: stops_def)

lemma read_octets_start:
  "read_octets 4 0 s = (case read_number 10 3 False 256 s of
     None \<Rightarrow> None | Some (k, r) \<Rightarrow> map_option (\<lambda>(ks, r'). (k # ks, r')) (read_octets 3 (Suc 0) r))"
  "read_octets 3 i s = (case read_separator CHR ''.'' i (read_number 10 3 False 256) s of
     None \<Rightarrow> None | Some (k, r) \<Rightarrow> map_option (\<lambda>(ks, r'). (k # ks, r')) (read_octets 2 (Suc i) r))"
  using read_octets.simps(2)[of 3 0 s] read_octets.simps(2)[of 2 i s] by (simp_all add: read_separator_def)

lemma read_octets_text:
  "\<forall>k\<in>set ks. k < 256 \<Longrightarrow> stops 10 r \<Longrightarrow>
   read_octets (length ks) (Suc i) (with_separator CHR ''.'' 10 ks @ r) = Some (ks, r)"
proof (induction ks arbitrary: i)
  case (Cons k ks)
  have "read_number 10 3 False 256 (digits 10 k @ with_separator CHR ''.'' 10 ks @ r)
      = Some (k, with_separator CHR ''.'' 10 ks @ r)"
    using Cons.prems read_number_digits[of 10 _ k 256 2 False]
    by (simp add: radix_ok_def stops_separator numeral_3_eq_3)
  with Cons show ?case by (simp add: read_separator_def)
qed simp

lemma read_ipv4_text:
  assumes "stops 10 r"
  shows "read_ipv4_addr (show_ip (V4 a) @ r) = Some (a, r)"
proof -
  obtain k ks where ks: "groups_of 256 4 (unat a) = k # ks"
    using groups_of_props[of 256 4 "unat a"] by (cases "groups_of 256 4 (unat a)") auto
  then have len: "length ks = 3" "k < 256" "\<forall>k\<in>set ks. k < 256"
    using groups_of_props[of 256 4 "unat a"] by (simp_all del: groups_of.simps)
  have "read_number 10 3 False 256 (digits 10 k @ with_separator CHR ''.'' 10 ks @ r)
      = Some (k, with_separator CHR ''.'' 10 ks @ r)"
    using assms len(2) read_number_digits[of 10 _ k 256 2 False]
    by (simp add: radix_ok_def stops_separator numeral_3_eq_3)
  moreover have "read_octets (length ks) (Suc 0) (with_separator CHR ''.'' 10 ks @ r) = Some (ks, r)"
    by (rule read_octets_text[OF len(3) assms])
  moreover have "groups_value 256 (k # ks) = unat a"
    using groups_value_of[of 256 4 "unat a"] unsigned_less[of a, where ?'a = nat] by (simp add: ks del: groups_of.simps)
  ultimately show ?thesis
    using len(1) by (simp add: read_ipv4_addr_def joined_def ks read_octets_start(1))
qed

text \<open>Text without a dot is no IPv4 address.\<close>

lemma read_number_rest: "read_number radix m z b s = Some (k, r) \<Longrightarrow> set r \<subseteq> set s"
  by (auto simp: read_number_def Let_def split: if_splits dest: in_set_dropD)

lemma read_ipv4_no_dot:
  assumes "CHR ''.'' \<notin> set s"
  shows "read_ipv4_addr s = None"
proof (cases "read_number 10 3 False 256 s")
  case None
  then show ?thesis by (simp add: read_ipv4_addr_def read_octets_start(1))
next
  case (Some kr)
  then obtain k r where kr: "read_number 10 3 False 256 s = Some (k, r)" by (cases kr) simp
  with read_number_rest assms have "CHR ''.'' \<notin> set r" by blast
  then have "read_separator CHR ''.'' (Suc 0) (read_number 10 3 False 256) r = None"
    by (auto simp: read_separator_def split: list.split)
  with kr show ?thesis by (simp add: read_ipv4_addr_def read_octets_start)
qed

lemma not_in_digits:
  assumes "radix_ok radix" "\<not> is_digit radix c"
  shows "c \<notin> set (digits radix n)"
  using digits_all[OF assms(1), of n] assms(2) by (auto simp: list_all_iff)

lemma not_in_text:
  "radix_ok radix \<Longrightarrow> \<not> is_digit radix c \<Longrightarrow> c \<noteq> sep \<Longrightarrow> c \<notin> set (with_separator sep radix ks)"
  by (induction ks) (auto dest: not_in_digits)

lemma read_groups_text:
  "\<forall>g\<in>set gs. g < 65536 \<Longrightarrow> stops 16 r \<Longrightarrow> CHR ''.'' \<notin> set r \<Longrightarrow>
   read_groups (length gs) (Suc i) (with_separator CHR '':'' 16 gs @ r) = (gs, False, r)"
proof (induction gs arbitrary: i)
  case (Cons g gs)
  let ?rest = "with_separator CHR '':'' 16 gs @ r"
  have "CHR ''.'' \<notin> set (digits 16 g @ ?rest)"
    using Cons.prems(3) not_in_text[of 16 "CHR ''.''" "CHR '':''" gs] not_in_digits[of 16 "CHR ''.''" g]
    by (simp add: radix_ok_def)
  note no4 = read_ipv4_no_dot[OF this]
  have "read_number 16 4 True 65536 (digits 16 g @ ?rest) = Some (g, ?rest)"
    using Cons.prems read_number_digits[of 16 _ g 65536 3 True]
    by (simp add: radix_ok_def stops_separator)
  moreover have "read_groups (length gs) (Suc (Suc i)) ?rest = (gs, False, r)"
    using Cons.prems by (intro Cons.IH) auto
  ultimately show ?case using no4 by (cases "gs = []") (auto simp: read_separator_def)
qed simp

lemma read_groups_start:
  "read_groups 8 0 s = (case read_ipv4_addr s of
     Some (a, r) \<Rightarrow> ([unat a div 65536, unat a mod 65536], True, r)
   | None \<Rightarrow> (case read_number 16 4 True 65536 s of
       Some (g, r) \<Rightarrow> (case read_groups 7 (Suc 0) r of (gs, v4, r') \<Rightarrow> (g # gs, v4, r'))
     | None \<Rightarrow> ([], False, s)))"
  using read_groups.simps(2)[of 7 0 s] by (simp add: read_separator_def split: option.split)

lemma read_ipv6_text:
  assumes "stops 16 r" "CHR ''.'' \<notin> set r"
  shows "read_ipv6_addr (show_ip (V6 a) @ r) = Some (a, r)" "read_ipv4_addr (show_ip (V6 a) @ r) = None"
proof -
  obtain g gs where gs: "groups_of 65536 8 (unat a) = g # gs"
    using groups_of_props[of 65536 8 "unat a"] by (cases "groups_of 65536 8 (unat a)") auto
  then have len: "length gs = 7" "g < 65536" "\<forall>k\<in>set gs. k < 65536"
    using groups_of_props[of 65536 8 "unat a"] by simp_all
  let ?rest = "with_separator CHR '':'' 16 gs @ r"
  have shown: "show_ip (V6 a) @ r = digits 16 g @ ?rest" by (simp add: joined_def gs)
  have "CHR ''.'' \<notin> set (digits 16 g @ ?rest)"
    using assms(2) not_in_text[of 16 "CHR ''.''" "CHR '':''" gs] not_in_digits[of 16 "CHR ''.''" g]
    by (simp add: radix_ok_def)
  from read_ipv4_no_dot[OF this] show no4: "read_ipv4_addr (show_ip (V6 a) @ r) = None" by (simp only: shown)
  have "read_number 16 4 True 65536 (digits 16 g @ ?rest) = Some (g, ?rest)"
    using assms(1) len(2) read_number_digits[of 16 _ g 65536 3 True]
    by (simp add: radix_ok_def stops_separator)
  moreover have "read_groups (length gs) (Suc 0) ?rest = (gs, False, r)"
    by (rule read_groups_text[OF len(3) assms])
  moreover have "groups_value 65536 (g # gs) = unat a"
    using groups_value_of[of 65536 8 "unat a"] unsigned_less[of a, where ?'a = nat] by (simp add: gs)
  ultimately have "read_groups 8 0 (show_ip (V6 a) @ r) = (g # gs, False, r)" "groups_value 65536 (g # gs) = unat a"
    using len(1) no4 by (simp_all add: shown read_groups_start del: show_ip.simps)
  then show "read_ipv6_addr (show_ip (V6 a) @ r) = Some (a, r)"
    using len(1) by (simp add: read_ipv6_addr_def del: show_ip.simps)
qed

lemma parse_show_ip: "parse_ip (show_ip a) = Inr a"
proof (cases a)
  case (V4 x)
  with read_ipv4_text[of "[]" x] show ?thesis
    by (simp add: parse_ip_def read_ip_addr_def stops_def del: show_ip.simps)
next
  case (V6 x)
  with read_ipv6_text[of "[]" x] show ?thesis
    by (simp add: parse_ip_def read_ip_addr_def stops_def del: show_ip.simps)
qed

section \<open>What the parsers accept\<close>

lemma split_on_not_Nil [simp]: "split_on sep s \<noteq> []"
  by (cases s) (auto split: list.split)

lemma in_set_tl: "x \<in> set (tl xs) \<Longrightarrow> x \<in> set xs"
  by (cases xs) auto

lemma split_on_pair:
  "sep \<notin> set xs \<Longrightarrow> sep \<notin> set ys \<Longrightarrow> split_on sep (xs @ sep # ys) = [xs, ys]"
proof (induction xs)
  case Nil
  have "split_on sep ys = [ys]" if "sep \<notin> set ys" using that by (induction ys) auto
  with Nil show ?case by simp
qed auto

lemma split_on_join: "split_on sep s = [p0, p1] \<Longrightarrow> s = p0 @ sep # p1"
proof (induction s arbitrary: p0 p1)
  case (Cons c s)
  have one: "split_on sep s = [p] \<Longrightarrow> s = p" for p s
    by (induction s arbitrary: p) (auto split: if_splits list.splits)
  from Cons show ?case by (auto split: if_splits list.splits dest: one)
qed simp

definition bits_of_family :: "IpAddr \<Rightarrow> nat" where
  "bits_of_family a = (case a of V4 x \<Rightarrow> 32 | V6 x \<Rightarrow> 128)"

lemma max_prefix_less: "max_prefix a < p \<longleftrightarrow> bits_of_family a < unat p"
  by (cases a) (simp_all add: bits_of_family_def word_less_nat_alt)

lemma parse_cidr_shown:
  "parse_cidr (show_ip a @ CHR ''/'' # digits 10 (unat p)) =
     (if unat p \<le> bits_of_family a then Inr (a, p) else Inl InvalidPrefix)"
proof -
  have "CHR ''/'' \<notin> set (show_ip a)"
    using not_in_text[of 10 "CHR ''/''" "CHR ''.''"] not_in_text[of 16 "CHR ''/''" "CHR '':''"]
    by (cases a) (auto simp: joined_def radix_ok_def dest: in_set_tl)
  moreover have "CHR ''/'' \<notin> set (digits 10 (unat p))"
    by (rule not_in_digits) (simp_all add: radix_ok_def)
  ultimately have split: "split_on CHR ''/'' (show_ip a @ CHR ''/'' # digits 10 (unat p)) = [show_ip a, digits 10 (unat p)]"
    by (rule split_on_pair)
  have "parse_uint (digits 10 (unat p)) = Inr p"
    using parse_uint_digits[of "unat p", where ?'a = 8] unsigned_less[of p, where ?'a = nat] by simp
  with split show ?thesis
    by (simp add: parse_cidr_def parse_show_ip max_prefix_less not_less)
qed

text \<open>
  C35: Subnets: an address in dotted-decimal form or as eight hexadecimal groups, a slash and a
  decimal prefix length give back that address and that length, for every address of both
  families, exactly when the length is at most the family's number of bits; and whatever is
  accepted is such a pair, separated by the first slash.
\<close>

theorem parse_cidr_roundtrip:
  "parse_cidr (show_ip a @ CHR ''/'' # digits 10 (unat p)) =
     (if unat p \<le> bits_of_family a then Inr (a, p) else Inl InvalidPrefix) \<and>
   (parse_cidr s = Inr (b, q) \<longrightarrow> unat q \<le> bits_of_family b \<and>
      (\<exists>p0 p1. s = p0 @ CHR ''/'' # p1 \<and> parse_ip p0 = Inr b \<and> parse_uint p1 = Inr q))"
proof (intro conjI parse_cidr_shown)
  show "parse_cidr s = Inr (b, q) \<longrightarrow> unat q \<le> bits_of_family b \<and>
      (\<exists>p0 p1. s = p0 @ CHR ''/'' # p1 \<and> parse_ip p0 = Inr b \<and> parse_uint p1 = Inr q)"
    by (auto simp: parse_cidr_def max_prefix_less not_less dest!: split_on_join
        split: list.splits sum.splits if_splits)
qed

theorem parse_cidr_roundtrip_witness:
  "parse_cidr (show_ip (V4 0x0A000000) @ CHR ''/'' # digits 10 8) = Inr (V4 0x0A000000, 8) \<and>
   parse_cidr (show_ip (V4 0x0A000000) @ CHR ''/'' # digits 10 33) = Inl InvalidPrefix \<and>
   parse_cidr (show_ip (V6 1) @ CHR ''/'' # digits 10 128) = Inr (V6 1, 128) \<and>
   (\<exists>p0 p1. show_ip (V6 1) @ CHR ''/'' # digits 10 128 = p0 @ CHR ''/'' # p1 \<and> parse_ip p0 = Inr (V6 1))"
  using parse_cidr_roundtrip[of "V4 0x0A000000" 8] parse_cidr_roundtrip[of "V4 0x0A000000" 33]
    parse_cidr_roundtrip[of "V6 1" 128 "show_ip (V6 1) @ CHR ''/'' # digits 10 128" "V6 1" 128]
  by (simp add: bits_of_family_def del: show_ip.simps) blast

text \<open>
  The SSH destination: a name without a colon stands for port 22, a name, a colon and a
  decimal port for that port; and anything with two colons is refused, so an IPv6 address is
  never a destination.
\<close>

theorem parse_remote_forms:
  assumes "CHR '':'' \<notin> set host"
  shows "parse_remote host = Inr (host, 22) \<and>
    parse_remote (host @ CHR '':'' # digits 10 (unat port)) = Inr (host, port) \<and>
    parse_remote (host @ CHR '':'' # middle @ CHR '':'' # rest) = Inl ParseIntError"
proof (intro conjI)
  show "parse_remote host = Inr (host, 22)" using assms by (simp add: parse_remote_def)
  have first: "takeWhile (\<lambda>c. c \<noteq> CHR '':'') (host @ CHR '':'' # r) = host"
    "dropWhile (\<lambda>c. c \<noteq> CHR '':'') (host @ CHR '':'' # r) = CHR '':'' # r" for r
    using assms by (induction host) auto
  have "parse_uint (digits 10 (unat port)) = Inr port"
    using parse_uint_digits[of "unat port", where ?'a = 16] unsigned_less[of port, where ?'a = nat] by simp
  then show "parse_remote (host @ CHR '':'' # digits 10 (unat port)) = Inr (host, port)"
    by (simp add: parse_remote_def first)
  have "parse_uint (xs @ CHR '':'' # ys) = (Inl ParseIntError :: cli_error + u16)" for xs ys
    by (cases xs) (auto simp: parse_uint_def Let_def)
  then show "parse_remote (host @ CHR '':'' # middle @ CHR '':'' # rest) = Inl ParseIntError"
    by (simp add: parse_remote_def first)
qed

theorem parse_remote_forms_witness:
  "parse_remote ''h'' = Inr (''h'', 22) \<and> parse_remote (''h'' @ CHR '':'' # digits 10 2222) = Inr (''h'', 2222) \<and>
   parse_remote ''::1'' = Inl ParseIntError"
  using parse_remote_forms[of "''h''" 2222] parse_remote_forms[of "[]" 0 "[]" "''1''"] by simp

lemma same_leading_bits: "drop_bit m a = drop_bit m b \<longleftrightarrow> (\<forall>j\<ge>m. bit a j = bit b j)" for a b :: u32
proof
  assume eq: "drop_bit m a = drop_bit m b"
  have "bit x j = bit (drop_bit m x) (j - m)" if "m \<le> j" for x :: u32 and j
    using that by (simp add: bit_drop_bit_eq)
  with eq show "\<forall>j\<ge>m. bit a j = bit b j" by simp
qed (simp add: bit_eq_iff bit_drop_bit_eq)

text \<open>
  The netmask of a prefix length has exactly its leading bits set: as a bit pattern, and as a
  test, two addresses agree under the mask when they agree in their leading bits. The constant
  cases at both ends agree with the general formula and avoid its shift by 32.
\<close>

theorem netmask_equiv:
  "(bit (prefix_to_netmask p) i \<longleftrightarrow> i < 32 \<and> 32 \<le> i + unat p) \<and>
   (a AND prefix_to_netmask p = b AND prefix_to_netmask p \<longleftrightarrow>
    drop_bit (32 - unat p) a = (drop_bit (32 - unat p) b :: u32))"
proof -
  have bits: "bit (prefix_to_netmask p) i \<longleftrightarrow> i < 32 \<and> 32 \<le> i + unat p" for i
  proof -
    consider "p = 0" | "p \<noteq> 0" "32 \<le> p" | "p \<noteq> 0" "p < 32" by fastforce
    then show ?thesis
    proof cases
      case 1
      then show ?thesis by (auto simp: prefix_to_netmask_def)
    next
      case 2
      then have "prefix_to_netmask p = - 1" "32 \<le> unat p"
        by (simp_all add: prefix_to_netmask_def word_le_nat_alt)
      then show ?thesis by simp
    next
      case 3
      then have u: "unat p < 32" "0 < unat p" "unat (32 - p) = 32 - unat p"
        by (simp_all add: word_less_nat_alt unat_gt_0 unat_sub word_le_nat_alt)
      have "prefix_to_netmask p = NOT (mask (32 - unat p))"
        using 3 u(3) by (simp add: prefix_to_netmask_def mask_eq_decr_exp push_bit_eq_mult not_le)
      with u show ?thesis by (auto simp: bit_simps)
    qed
  qed
  have "a AND prefix_to_netmask p = b AND prefix_to_netmask p \<longleftrightarrow>
    (\<forall>j. 32 - unat p \<le> j \<longrightarrow> bit a j = bit b j)"
    using bit_imp_le_length[of a] bit_imp_le_length[of b]
    by (auto simp: bit_eq_iff bit_simps bits le_diff_conv)
  moreover note same_leading_bits[of "32 - unat p" a b]
  ultimately show ?thesis using bits by blast
qed

end
