(* ===== verification/Actions.thy ===== *)
theory Actions
  imports Cli "HOL-Library.Sublist"
begin

text \<open>
  Code that acts on the outside: the actions of the host's start-up, calls that return, fail or
  do not come back, their sequence with Rust's \<open>?\<close>, and plans that a run follows.
\<close>

section \<open>Actions and their results\<close>

datatype RouteAddress = Inet "32 word" | Inet6 "128 word" | OtherAddress

datatype RouteAttribute = Iif u32 | Oif u32 | Source RouteAddress | Destination RouteAddress | OtherAttribute

record RouteMessage =
  source_prefix_length :: u8
  destination_prefix_length :: u8
  attributes :: "RouteAttribute list"

datatype action =
    SshConnect string
  | SshExec string
  | CreateTun string nat
  | RouteAdd RouteMessage
  | RouteDel RouteMessage
  | Resolvectl "string list"
  | RunLoop

text \<open>
  A call returns, fails, or does not come back; \<open>and_then\<close> is the code's sequence with \<open>?\<close>.
\<close>

datatype 'a io = Returns 'a | Fails string | Waits

type_synonym 'a act = "'a io \<times> action list"

fun from_result :: "string + 'a \<Rightarrow> 'a io" where
  "from_result (Inl e) = Fails e"
| "from_result (Inr x) = Returns x"

definition pure_act :: "'a io \<Rightarrow> 'a act" where
  "pure_act r = (r, [])"

definition call :: "action \<Rightarrow> string + 'a \<Rightarrow> 'a act" where
  "call a r = (from_result r, [a])"

definition and_then :: "'a act \<Rightarrow> ('a \<Rightarrow> 'b act) \<Rightarrow> 'b act" where
  "and_then m k =
     (case m of
        (Returns x, as) \<Rightarrow> (case k x of (r, bs) \<Rightarrow> (r, as @ bs))
      | (Fails e, as) \<Rightarrow> (Fails e, as)
      | (Waits, as) \<Rightarrow> (Waits, as))"

text \<open>\<open>.context(msg)\<close> replaces the error that is shown.\<close>

definition context_msg :: "string \<Rightarrow> string + 'a \<Rightarrow> string + 'a" where
  "context_msg msg r = (case r of Inl e \<Rightarrow> Inl msg | Inr x \<Rightarrow> Inr x)"

section \<open>The order of the actions\<close>

text \<open>
  \<open>follows m plan\<close>: the actions of \<open>m\<close> are a beginning of \<open>plan\<close>, and all of it when \<open>m\<close>
  returns.
\<close>

definition follows :: "'a act \<Rightarrow> action list \<Rightarrow> bool" where
  "follows m plan \<longleftrightarrow> prefix (snd m) plan \<and> (\<forall>x. fst m = Returns x \<longrightarrow> snd m = plan)"

named_theorems follows_intros "plans of actions"

lemma follows_then [follows_intros]:
  assumes "follows m p" "\<And>x. fst m = Returns x \<Longrightarrow> follows (k x) q"
  shows "follows (and_then m k) (p @ q)"
proof (cases m)
  case (Pair r as)
  then show ?thesis
    using assms by (cases r) (auto simp: follows_def and_then_def prefix_append split: prod.splits)
qed

lemma follows_then_pure [follows_intros]:
  "(\<And>x. r = Returns x \<Longrightarrow> follows (k x) q) \<Longrightarrow> follows (and_then (pure_act r) k) q"
  by (cases r) (auto simp: follows_def and_then_def pure_act_def split: prod.splits)

lemma follows_call [follows_intros]: "follows (call a r) [a]" "follows (pure_act q) []"
  by (simp_all add: follows_def call_def pure_act_def)

lemma follows_unless [follows_intros]:
  "follows m p \<Longrightarrow> follows (if \<not> ok then pure_act (Fails e) else m) p"
  by (simp add: follows_def pure_act_def)

lemma and_then_Returns:
  "fst (and_then m k) = Returns y \<longleftrightarrow> (\<exists>x. fst m = Returns x \<and> fst (k x) = Returns y)"
  by (cases m; cases "fst m") (auto simp: and_then_def split: prod.splits)

lemma then_Returns [simp]: "and_then (pure_act (Returns x)) k = k x"
  by (simp add: and_then_def pure_act_def split: prod.split)

lemma from_result_Returns [simp]: "from_result r = Returns x \<longleftrightarrow> r = Inr x"
  by (cases r) auto

lemma context_Inr [simp]: "context_msg msg r = Inr x \<longleftrightarrow> r = Inr x"
  by (cases r) (auto simp: context_msg_def)

end
