(* ===== verification/Ssh.thy ===== *)
theory Ssh
  imports Actions Protocol
begin

text \<open>
  \<open>src/src/host/ssh.rs\<close>: the check of the host key, the ways to authenticate, and the start of
  the remote program. What russh, the SSH agent and the user answer is a record of results.
\<close>

section \<open>The SSH client\<close>

record SshConfig =
  cfg_user :: string
  cfg_host :: string
  cfg_port :: u16
  cfg_identity :: "string option"
  cfg_remote_binary :: string

record prompt =
  pr_text :: string
  pr_echo :: bool

datatype keyboard_response = KbSuccess | KbFailure | KbInfoRequest "prompt list"

datatype method_kind = KeyboardInteractive | OtherMethod

datatype auth_result = AuthSuccess | AuthFailure "method_kind list" bool

text \<open>
  What the server answers for one identity of the agent: to the key, to the start of keyboard
  interaction, and to each list of responses in turn.
\<close>

record identity =
  id_auth :: "string + auth_result"
  id_start :: "string + keyboard_response"
  id_rounds :: "(string list \<Rightarrow> string + keyboard_response) list"

record ssh_world =
  known_hosts :: "string + bool"
  confirm_key :: bool
  learn_host :: "string + unit"
  transport :: "string \<Rightarrow> string + bool \<Rightarrow> string + unit"
  secret_key :: "string \<Rightarrow> string + unit"
  publickey_auth :: "string + bool"
  agent :: "string + unit"
  agent_identities :: "string + identity list"
  ask_text :: "string \<Rightarrow> string + string"
  ask_password :: "string \<Rightarrow> string + string"
  password_auth :: "string \<Rightarrow> string + bool"
  open_channel :: "string + unit"
  exec_result :: "string \<Rightarrow> string + reader \<times> writer"

definition check_server_key :: "ssh_world \<Rightarrow> string + bool" where
  "check_server_key w =
     (case context_msg ''{self.host}:{self.port} known hosts error'' (known_hosts w) of
        Inr False \<Rightarrow>
          (if confirm_key w
           then (case context_msg ''cannot learn new host key'' (learn_host w) of
                   Inl e \<Rightarrow> Inl e | Inr _ \<Rightarrow> Inr True)
           else Inr False)
      | e \<Rightarrow> e)"

text \<open>\<open>keyboard_interactive_info_request\<close>: the responses to the prompts, in order.\<close>

definition answer :: "ssh_world \<Rightarrow> prompt \<Rightarrow> string + string" where
  "answer w p =
     (if pr_text p = [] then Inr []
      else if pr_echo p then context_msg ''Failed to read response to prompt'' (ask_text w (pr_text p))
      else context_msg ''Failed to read response to prompt'' (ask_password w (pr_text p)))"

fun collect :: "(string + 'a) list \<Rightarrow> string + 'a list" where
  "collect [] = Inr []"
| "collect (r # rs) =
     (case r of Inl e \<Rightarrow> Inl e
      | Inr x \<Rightarrow> (case collect rs of Inl e \<Rightarrow> Inl e | Inr xs \<Rightarrow> Inr (x # xs)))"

text \<open>
  The loop over the server's responses: \<open>Returns True\<close> for success, \<open>Returns False\<close> to go on
  with the next identity. It waits when the server does not answer.
\<close>

fun keyboard_rounds ::
  "ssh_world \<Rightarrow> keyboard_response \<Rightarrow> (string list \<Rightarrow> string + keyboard_response) list \<Rightarrow> bool io"
where
  "keyboard_rounds w KbSuccess rounds = Returns True"
| "keyboard_rounds w KbFailure rounds = Returns False"
| "keyboard_rounds w (KbInfoRequest prompts) [] =
     (case collect (map (answer w) prompts) of Inl e \<Rightarrow> Fails e | Inr responses \<Rightarrow> Waits)"
| "keyboard_rounds w (KbInfoRequest prompts) (respond # rounds) =
     (case collect (map (answer w) prompts) of
        Inl e \<Rightarrow> Fails e
      | Inr responses \<Rightarrow>
          (case context_msg ''cannot respond keyboard interactive'' (respond responses) of
             Inl e \<Rightarrow> Fails e
           | Inr response \<Rightarrow> keyboard_rounds w response rounds))"

definition try_identity :: "ssh_world \<Rightarrow> identity \<Rightarrow> bool io" where
  "try_identity w x =
     (case id_auth x of
        Inr AuthSuccess \<Rightarrow> Returns True
      | Inr (AuthFailure remaining partial_success) \<Rightarrow>
          (if partial_success \<and> KeyboardInteractive \<in> set remaining
           then (case context_msg ''Cannot start keyboard interactive'' (id_start x) of
                   Inl e \<Rightarrow> Fails e
                 | Inr response \<Rightarrow> keyboard_rounds w response (id_rounds x))
           else Returns False)
      | Inl e \<Rightarrow> Returns False)"

fun try_identities :: "ssh_world \<Rightarrow> identity list \<Rightarrow> bool io" where
  "try_identities w [] = Returns False"
| "try_identities w (x # xs) =
     (case try_identity w x of Returns False \<Rightarrow> try_identities w xs | r \<Rightarrow> r)"

definition try_agent_auth :: "ssh_world \<Rightarrow> bool io" where
  "try_agent_auth w =
     (case context_msg ''Failed to connect to SSH agent'' (agent w) of
        Inl e \<Rightarrow> Fails e
      | Inr _ \<Rightarrow>
          (case agent_identities w of Inl e \<Rightarrow> Fails e | Inr identities \<Rightarrow> try_identities w identities))"

definition authenticate :: "ssh_world \<Rightarrow> SshConfig \<Rightarrow> bool io" where
  "authenticate w cfg =
     (case cfg_identity cfg of
        Some identity_path \<Rightarrow>
          (case context_msg ''Failed to load private key'' (secret_key w identity_path) of
             Inl e \<Rightarrow> Fails e
           | Inr _ \<Rightarrow> from_result (context_msg ''Public key authentication failed'' (publickey_auth w)))
      | None \<Rightarrow>
          (case try_agent_auth w of
             Returns True \<Rightarrow> Returns True
           | Waits \<Rightarrow> Waits
           | _ \<Rightarrow>
               (case context_msg ''Failed to read password''
                       (ask_password w (''Password for '' @ cfg_user cfg @ ''@'' @ cfg_host cfg @ '': '')) of
                  Inl e \<Rightarrow> Fails e
                | Inr password \<Rightarrow>
                    from_result (context_msg ''Password authentication failed'' (password_auth w password)))))"

definition ssh_connect :: "ssh_world \<Rightarrow> SshConfig \<Rightarrow> (reader \<times> writer) act" where
  "ssh_connect w cfg =
     (let addr = cfg_host cfg @ '':'' @ digits 10 (unat (cfg_port cfg)) in
      and_then (call (SshConnect addr)
        (context_msg ''Failed to connect to SSH server'' (transport w addr (check_server_key w)))) (\<lambda>_.
      and_then (pure_act (authenticate w cfg)) (\<lambda>authenticated.
      if \<not> authenticated then pure_act (Fails ''Authentication failed'')
      else and_then (pure_act (from_result (context_msg ''Failed to open SSH channel'' (open_channel w)))) (\<lambda>_.
        let command = cfg_remote_binary cfg @ '' remote''
        in call (SshExec command) (context_msg ''Failed to execute remote command'' (exec_result w command))))))"

section \<open>Who is let in\<close>

text \<open>The identities are tried in order until one is accepted.\<close>

lemma try_identities_accepts:
  "try_identities w ids = Returns True \<longleftrightarrow>
     (\<exists>pre x post. ids = pre @ x # post \<and> try_identity w x = Returns True \<and>
        (\<forall>y\<in>set pre. try_identity w y = Returns False))"
proof (induction ids)
  case (Cons x xs)
  show ?case
  proof (cases "try_identity w x = Returns False")
    case True
    have "(\<exists>pre y post. x # xs = pre @ y # post \<and> try_identity w y = Returns True \<and>
        (\<forall>z\<in>set pre. try_identity w z = Returns False)) \<longleftrightarrow>
      (\<exists>pre y post. xs = pre @ y # post \<and> try_identity w y = Returns True \<and>
        (\<forall>z\<in>set pre. try_identity w z = Returns False))" (is "?l \<longleftrightarrow> ?r")
    proof
      assume ?l
      then obtain pre y post where p: "x # xs = pre @ y # post" "try_identity w y = Returns True"
        "\<forall>z\<in>set pre. try_identity w z = Returns False" by blast
      with True show ?r by (cases pre) auto
    next
      assume ?r
      then obtain pre y post where "xs = pre @ y # post" "try_identity w y = Returns True"
        "\<forall>z\<in>set pre. try_identity w z = Returns False" by blast
      with True show ?l by (intro exI[of _ "x # pre"]) auto
    qed
    with True Cons show ?thesis by simp
  next
    case False
    then have "try_identities w (x # xs) = try_identity w x"
      by (auto split: io.split bool.split)
    moreover have "x # xs = pre @ y # post \<Longrightarrow> \<forall>z\<in>set pre. try_identity w z = Returns False \<Longrightarrow> y = x" for pre y post
      using False by (cases pre) auto
    ultimately show ?thesis by (auto intro: exI[of _ "[]"])
  qed
qed simp

text \<open>The ways in: the given key; an identity of the agent, after refused ones; the password.\<close>

definition let_in :: "ssh_world \<Rightarrow> string option \<Rightarrow> bool" where
  "let_in w identity \<longleftrightarrow>
     (case identity of
        Some path \<Rightarrow> secret_key w path = Inr () \<and> publickey_auth w = Inr True
      | None \<Rightarrow>
          (\<exists>pre x post. agent w = Inr () \<and> agent_identities w = Inr (pre @ x # post) \<and>
             try_identity w x = Returns True \<and> (\<forall>y\<in>set pre. try_identity w y = Returns False)) \<or>
          (\<exists>prompt_text password. ask_password w prompt_text = Inr password \<and> password_auth w password = Inr True))"

lemma authenticate_let_in: "authenticate w cfg = Returns True \<Longrightarrow> let_in w (cfg_identity cfg)"
  by (auto simp: authenticate_def let_in_def try_agent_auth_def try_identities_accepts
      split: option.splits sum.splits io.splits bool.splits)

definition trusted_host :: "ssh_world \<Rightarrow> bool" where
  "trusted_host w \<longleftrightarrow> known_hosts w = Inr True \<or>
     known_hosts w = Inr False \<and> confirm_key w \<and> learn_host w = Inr ()"

lemma check_server_key_trusted: "check_server_key w = Inr True \<longleftrightarrow> trusted_host w"
  by (auto simp: check_server_key_def trusted_host_def context_msg_def split: sum.splits bool.splits)

text \<open>What russh documents: no connection to a host whose key the handler does not accept.\<close>

definition refuses_unknown :: "ssh_world \<Rightarrow> bool" where
  "refuses_unknown w \<longleftrightarrow> (\<forall>addr r. r \<noteq> Inr True \<longrightarrow> (\<exists>e. transport w addr r = Inl e))"

lemma ssh_connect_Returns:
  assumes "fst (ssh_connect w cfg) = Returns rw" "refuses_unknown w"
  shows "trusted_host w \<and> let_in w (cfg_identity cfg)"
proof -
  let ?addr = "cfg_host cfg @ '':'' @ digits 10 (unat (cfg_port cfg))"
  have "\<exists>u. transport w ?addr (check_server_key w) = Inr u" "authenticate w cfg = Returns True"
    using assms(1)
    by (auto simp: ssh_connect_def Let_def and_then_Returns call_def pure_act_def split: if_splits)
  moreover from this(1) have "check_server_key w = Inr True"
    using assms(2) unfolding refuses_unknown_def by (metis sum.distinct(1))
  ultimately show ?thesis using authenticate_let_in check_server_key_trusted by blast
qed

lemma follows_ssh_connect:
  "follows (ssh_connect w cfg)
     [SshConnect (cfg_host cfg @ '':'' @ digits 10 (unat (cfg_port cfg))), SshExec (cfg_remote_binary cfg @ '' remote'')]"
  unfolding ssh_connect_def Let_def
  by (rule follows_then[of "call _ _" "[_]", simplified]) (intro follows_intros)+

end
