(* ===== verification/Routing.thy ===== *)
theory Routing
  imports Actions
begin

text \<open>
  \<open>src/src/host/routing.rs\<close>: the routes through the interface. The netlink requests are
  recorded actions, their answers a record of results.
\<close>

section \<open>Routes\<close>

text \<open>
  The routing requests: a link by its name, the answer to a request, and the routes of the
  kernel in the order of their dump, which ends early with an error.
\<close>

record net_world =
  link_index :: "string \<Rightarrow> string + u32 option"
  route_add :: "RouteMessage \<Rightarrow> string + unit"
  route_dump :: "bool \<Rightarrow> (string + RouteMessage) list"
  route_del :: "RouteMessage \<Rightarrow> string + unit"

definition get_interface_index :: "net_world \<Rightarrow> string \<Rightarrow> string + u32" where
  "get_interface_index n name =
     (case link_index n name of
        Inl e \<Rightarrow> Inl e
      | Inr (Some i) \<Rightarrow> Inr i
      | Inr None \<Rightarrow> Inl (''Interface '' @ name @ '' not found''))"

fun route_address :: "IpAddr \<Rightarrow> RouteAddress" where
  "route_address (V4 a) = Inet a"
| "route_address (V6 a) = Inet6 a"

definition route_message :: "IpAddr \<Rightarrow> u8 \<Rightarrow> u32 \<Rightarrow> RouteMessage" where
  "route_message subnet prefix_len if_index =
     \<lparr>source_prefix_length = prefix_len, destination_prefix_length = prefix_len,
      attributes = [Source (route_address subnet), Destination (route_address subnet), Oif if_index]\<rparr>"

definition add_route :: "net_world \<Rightarrow> string \<Rightarrow> IpAddr \<Rightarrow> u8 \<Rightarrow> unit act" where
  "add_route n tun_name subnet prefix_len =
     and_then (pure_act (from_result (get_interface_index n tun_name))) (\<lambda>if_index.
     let msg = route_message subnet prefix_len if_index
     in call (RouteAdd msg) (route_add n msg))"

text \<open>The message of the last error leaves out the subnet. The last destination and the last incoming interface of the attributes.\<close>

definition get_destination_and_interface_attributes :: "RouteMessage \<Rightarrow> (RouteAddress \<times> u32) option" where
  "get_destination_and_interface_attributes msg =
     (case foldl (\<lambda>(r_addr, i_if) attr. case attr of
              Iif i \<Rightarrow> (r_addr, Some i)
            | Destination r \<Rightarrow> (Some r, i_if)
            | _ \<Rightarrow> (r_addr, i_if)) (None, None) (attributes msg) of
        (Some r, Some i) \<Rightarrow> Some (r, i)
      | _ \<Rightarrow> None)"

definition route_matches :: "IpAddr \<Rightarrow> u8 \<Rightarrow> u32 \<Rightarrow> RouteMessage \<Rightarrow> bool" where
  "route_matches subnet prefix_len if_index route =
     (case get_destination_and_interface_attributes route of
        Some (dest, test_if_index) \<Rightarrow>
          dest = route_address subnet \<and> destination_prefix_length route = prefix_len \<and> test_if_index = if_index
      | None \<Rightarrow> False)"

fun remove_first :: "net_world \<Rightarrow> (RouteMessage \<Rightarrow> bool) \<Rightarrow> string \<Rightarrow> (string + RouteMessage) list \<Rightarrow> unit act" where
  "remove_first n p not_found [] = pure_act (Fails not_found)"
| "remove_first n p not_found (Inl e # rs) = pure_act (Fails e)"
| "remove_first n p not_found (Inr route # rs) =
     (if p route then call (RouteDel route) (route_del n route) else remove_first n p not_found rs)"

definition remove_route :: "net_world \<Rightarrow> string \<Rightarrow> IpAddr \<Rightarrow> u8 \<Rightarrow> unit act" where
  "remove_route n tun_name subnet prefix_len =
     and_then (pure_act (from_result (get_interface_index n tun_name))) (\<lambda>if_index.
       remove_first n (route_matches subnet prefix_len if_index)
         (''Route via '' @ tun_name @ '' not found'')
         (route_dump n (case subnet of V4 a \<Rightarrow> False | V6 a \<Rightarrow> True)))"

text \<open>The loop of \<open>run\<close> over the subnets.\<close>

fun add_routes :: "net_world \<Rightarrow> string \<Rightarrow> (IpAddr \<times> u8) list \<Rightarrow> unit act" where
  "add_routes n tun_name [] = pure_act (Returns ())"
| "add_routes n tun_name ((subnet, prefix_len) # rest) =
     and_then (add_route n tun_name subnet prefix_len) (\<lambda>_. add_routes n tun_name rest)"

section \<open>What is added\<close>

definition route_plan :: "net_world \<Rightarrow> string \<Rightarrow> (IpAddr \<times> u8) list \<Rightarrow> action list" where
  "route_plan n tun_name subnets =
     map (\<lambda>(subnet, p). RouteAdd (route_message subnet p
       (case get_interface_index n tun_name of Inr i \<Rightarrow> i | Inl e \<Rightarrow> 0))) subnets"

lemma follows_add_route:
  "follows (add_route n tun_name subnet p) (route_plan n tun_name [(subnet, p)])"
  unfolding add_route_def by (rule follows_then_pure) (simp add: route_plan_def Let_def follows_call)

lemma follows_add_routes: "follows (add_routes n tun_name subnets) (route_plan n tun_name subnets)"
proof (induction n tun_name subnets rule: add_routes.induct)
  case (2 n tun_name subnet p rest)
  have "route_plan n tun_name ((subnet, p) # rest) = route_plan n tun_name [(subnet, p)] @ route_plan n tun_name rest"
    by (simp add: route_plan_def)
  with 2 follows_then[OF follows_add_route] show ?case by simp
qed (simp add: route_plan_def follows_intros)

section \<open>A route is never found again\<close>

text \<open>
  \<open>remove_route\<close> looks for the interface in the attribute of incoming interfaces, which the
  routes of \<open>add_route\<close> do not have: it never deletes one of them.
\<close>

lemma no_iif_no_match:
  assumes "\<And>i. Iif i \<notin> set (attributes msg)"
  shows "\<not> route_matches subnet p if_index msg"
proof -
  have "snd (foldl (\<lambda>(r_addr, i_if) attr. case attr of
            Iif i \<Rightarrow> (r_addr, Some i) | Destination r \<Rightarrow> (Some r, i_if) | _ \<Rightarrow> (r_addr, i_if)) (r0, None) as) = None"
    if "\<And>i. Iif i \<notin> set as" for as and r0 :: "RouteAddress option"
    using that by (induction as arbitrary: r0) (auto split: RouteAttribute.splits)
  from this[OF assms, of None] show ?thesis
    by (auto simp: route_matches_def get_destination_and_interface_attributes_def split: prod.splits option.splits)
qed

lemma added_route_not_removed:
  assumes "\<forall>r\<in>set (route_dump n (case subnet of V4 a \<Rightarrow> False | V6 a \<Rightarrow> True)).
    \<forall>m. r = Inr m \<longrightarrow> (\<exists>a q i. m = route_message a q i)"
  shows "(\<exists>e. fst (remove_route n tun_name subnet p) = Fails e) \<and> snd (remove_route n tun_name subnet p) = []"
proof -
  have "(\<exists>e. fst (remove_first n (route_matches subnet p i) msg rs) = Fails e) \<and>
      snd (remove_first n (route_matches subnet p i) msg rs) = []"
    if "\<forall>r\<in>set rs. \<forall>m. r = Inr m \<longrightarrow> (\<exists>a q i. m = route_message a q i)" for i msg rs
    using that
  proof (induction n "route_matches subnet p i" msg rs rule: remove_first.induct)
    case (3 n msg route rs)
    have "\<not> route_matches subnet p i route"
      using 3(2) by (intro no_iif_no_match) (auto simp: route_message_def)
    with 3 show ?case by simp
  qed (simp_all add: pure_act_def)
  with assms show ?thesis
    by (cases "get_interface_index n tun_name") (auto simp: remove_route_def and_then_def pure_act_def split: prod.split)
qed

end
