(* ===== verification/Host_Startup.thy ===== *)
theory Host_Startup
  imports Host_Loop Ssh Routing
begin

text \<open>
  The start of the host: \<open>run\<close> of \<open>src/src/host/mod.rs\<close>, with \<open>create_tun\<close> of
  \<open>src/src/host/tun.rs\<close> and the DNS registration of \<open>src/src/host/dns.rs\<close>, over the results
  of all calls. Its theorem says in which order the outside is acted upon, and what must have
  succeeded before the loop runs.
\<close>

section \<open>DNS registration\<close>

text \<open>\<open>resolvectl\<close>, with what its start and its exit status say.\<close>

definition resolvectl_ok :: "string \<Rightarrow> string + bool \<Rightarrow> string + unit" where
  "resolvectl_ok msg r = (case r of Inl e \<Rightarrow> Inl e | Inr success \<Rightarrow> if success then Inr () else Inl msg)"

definition register_dns :: "(string list \<Rightarrow> string + bool) \<Rightarrow> string \<Rightarrow> u16 \<Rightarrow> string option \<Rightarrow> unit act" where
  "register_dns resolvectl tun_name listen_port domains =
     (let args = [''dns'', tun_name, ''127.0.0.1:'' @ digits 10 (unat listen_port)] in
      and_then (call (Resolvectl args) (resolvectl_ok ''resolvectl dns failed'' (resolvectl args))) (\<lambda>_.
        case domains of
          None \<Rightarrow> pure_act (Returns ())
        | Some d \<Rightarrow>
            (let args = [''domain'', tun_name, d]
             in call (Resolvectl args) (resolvectl_ok ''resolvectl domain failed'' (resolvectl args)))))"

text \<open>A failure is only logged.\<close>

definition unregister_dns :: "string \<Rightarrow> unit act" where
  "unregister_dns tun_name = (Returns (), [Resolvectl [''revert'', tun_name]])"

section \<open>The run of the host\<close>

record HostArgs =
  arg_remote :: string
  arg_user :: string
  arg_subnets :: "string list"
  arg_tun_ip :: string
  arg_tun_name :: string
  arg_identity :: "string option"
  arg_remote_binary :: string
  arg_dns :: "IpAddr option"
  arg_dns_domains :: "string option"
  arg_verbose :: bool

record world =
  ssh :: ssh_world
  net :: net_world
  create_tun_result :: "string \<Rightarrow> string + unit"
  dns_bind :: "string + u16"
  resolvectl :: "string list \<Rightarrow> string + bool"

text \<open>\<open>create_tun\<close>: an interface with an MTU of 1500 bytes, which is brought up.\<close>

definition create_tun :: "world \<Rightarrow> string \<Rightarrow> unit act" where
  "create_tun w name = call (CreateTun name 1500) (create_tun_result w name)"

fun cli_message :: "cli_error \<Rightarrow> string" where
  "cli_message ParseIntError = ''invalid integer''"
| "cli_message AddrParseError = ''invalid IP address syntax''"
| "cli_message InvalidFormat = ''Invalid CIDR format. Expected address/prefix''"
| "cli_message InvalidPrefix = ''Invalid prefix length''"

definition cli_result :: "cli_error + 'a \<Rightarrow> string + 'a" where
  "cli_result r = (case r of Inl e \<Rightarrow> Inl (cli_message e) | Inr x \<Rightarrow> Inr x)"

definition set_up_dns :: "world \<Rightarrow> HostArgs \<Rightarrow> DnsState option act" where
  "set_up_dns w args =
     (case arg_dns args of
        None \<Rightarrow> pure_act (Returns None)
      | Some server \<Rightarrow>
          and_then (pure_act (from_result (dns_bind w))) (\<lambda>port.
          and_then (register_dns (resolvectl w) (arg_tun_name args) port (arg_dns_domains args)) (\<lambda>_.
          pure_act (Returns (Some (dns_new server))))))"

text \<open>The loop has come back when it returns, with an error before its first iteration or not.\<close>

fun came_back :: "loop_exit \<Rightarrow> bool" where
  "came_back StillRunning = False"
| "came_back Panics = False"
| "came_back Hangs = False"
| "came_back _ = True"

text \<open>
  \<open>loop\<close> is \<open>run_proxy_loop\<close> on what was set up. While it runs, \<open>run\<close> waits; when it has
  come back the DNS configuration is reverted, and its result is the result.
\<close>

definition run_and_revert ::
  "(reader \<Rightarrow> writer \<Rightarrow> DnsState option \<Rightarrow> loop_exit) \<Rightarrow> HostArgs \<Rightarrow> reader \<times> writer \<Rightarrow>
   DnsState option \<Rightarrow> loop_exit act"
where
  "run_and_revert loop args rw dns =
     and_then (Returns (loop (fst rw) (snd rw) dns), [RunLoop]) (\<lambda>result.
     if \<not> came_back result then pure_act Waits
     else if arg_dns args \<noteq> None
     then and_then (unregister_dns (arg_tun_name args)) (\<lambda>_. pure_act (Returns result))
     else pure_act (Returns result))"

definition set_up_and_run ::
  "(reader \<Rightarrow> writer \<Rightarrow> DnsState option \<Rightarrow> loop_exit) \<Rightarrow> world \<Rightarrow> HostArgs \<Rightarrow> (IpAddr \<times> u8) list \<Rightarrow>
   reader \<times> writer \<Rightarrow> loop_exit act"
where
  "set_up_and_run loop w args subnets rw =
     and_then (create_tun w (arg_tun_name args)) (\<lambda>_.
     and_then (add_routes (net w) (arg_tun_name args) subnets) (\<lambda>_.
     and_then (set_up_dns w args) (\<lambda>dns. run_and_revert loop args rw dns)))"

definition host_run ::
  "(reader \<Rightarrow> writer \<Rightarrow> DnsState option \<Rightarrow> loop_exit) \<Rightarrow> world \<Rightarrow> HostArgs \<Rightarrow> loop_exit act"
where
  "host_run loop w args =
     and_then (pure_act (from_result (cli_result (parse_remote (arg_remote args))))) (\<lambda>dest.
     and_then (pure_act (from_result (collect (map (cli_result \<circ> parse_cidr) (arg_subnets args))))) (\<lambda>subnets.
     and_then (ssh_connect (ssh w)
       \<lparr>cfg_user = arg_user args, cfg_host = fst dest, cfg_port = snd dest,
        cfg_identity = arg_identity args, cfg_remote_binary = arg_remote_binary args\<rparr>) (\<lambda>rw.
     set_up_and_run loop w args subnets rw)))"

section \<open>The order of the actions\<close>

definition dns_plan :: "world \<Rightarrow> HostArgs \<Rightarrow> action list" where
  "dns_plan w args =
     (case arg_dns args of
        None \<Rightarrow> []
      | Some _ \<Rightarrow>
          (case dns_bind w of
             Inl e \<Rightarrow> []
           | Inr port \<Rightarrow> Resolvectl [''dns'', arg_tun_name args, ''127.0.0.1:'' @ digits 10 (unat port)] #
               (case arg_dns_domains args of
                  None \<Rightarrow> [] | Some d \<Rightarrow> [Resolvectl [''domain'', arg_tun_name args, d]])))"

lemma follows_set_up_dns: "follows (set_up_dns w args) (dns_plan w args)"
proof (cases "arg_dns args")
  case None
  then show ?thesis by (simp add: set_up_dns_def dns_plan_def follows_intros)
next
  case (Some server)
  have reg: "follows (register_dns (resolvectl w) (arg_tun_name args) port (arg_dns_domains args)) (dns_plan w args)"
    if "dns_bind w = Inr port" for port
    using that Some
    by (auto simp: register_dns_def dns_plan_def Let_def intro!: follows_then[of "call _ _" "[_]", simplified]
        follows_intros split: option.split)
  have "follows (and_then (register_dns (resolvectl w) (arg_tun_name args) port (arg_dns_domains args))
      (\<lambda>_. pure_act (Returns (Some (dns_new server))))) (dns_plan w args @ [])"
    if "dns_bind w = Inr port" for port
    using reg[OF that] by (intro follows_intros)
  with Some show ?thesis by (auto simp: set_up_dns_def intro!: follows_then_pure)
qed

section \<open>Start-up\<close>

text \<open>The whole plan of a run, from the parsed arguments.\<close>

definition run_plan :: "world \<Rightarrow> HostArgs \<Rightarrow> string \<Rightarrow> u16 \<Rightarrow> (IpAddr \<times> u8) list \<Rightarrow> action list" where
  "run_plan w args host port subnets =
     [SshConnect (host @ '':'' @ digits 10 (unat port)), SshExec (arg_remote_binary args @ '' remote''),
      CreateTun (arg_tun_name args) 1500] @
     route_plan (net w) (arg_tun_name args) subnets @ dns_plan w args @ [RunLoop] @
     (if arg_dns args \<noteq> None then [Resolvectl [''revert'', arg_tun_name args]] else [])"

lemma follows_run_and_revert:
  "follows (run_and_revert loop args rw dns)
     ([RunLoop] @ (if arg_dns args \<noteq> None then [Resolvectl [''revert'', arg_tun_name args]] else []))"
  by (simp add: follows_def run_and_revert_def and_then_def unregister_dns_def pure_act_def)

lemma follows_set_up_and_run:
  "follows (set_up_and_run loop w args subnets rw)
     ([CreateTun (arg_tun_name args) 1500] @ route_plan (net w) (arg_tun_name args) subnets @ dns_plan w args @
      [RunLoop] @ (if arg_dns args \<noteq> None then [Resolvectl [''revert'', arg_tun_name args]] else []))"
  unfolding set_up_and_run_def create_tun_def
  by (intro follows_then follows_call follows_add_routes follows_set_up_dns follows_run_and_revert)

lemma cli_result_Inr [simp]: "cli_result r = Inr x \<longleftrightarrow> r = Inr x"
  by (cases r) (auto simp: cli_result_def)

lemma cli_result_of_Inr [simp]: "cli_result (Inr x) = Inr x"
  by (simp add: cli_result_def)

lemma host_run_parsed:
  assumes "parse_remote (arg_remote args) = Inr (host, port)"
    and "collect (map (cli_result \<circ> parse_cidr) (arg_subnets args)) = Inr subnets"
  shows "follows (host_run loop w args) (run_plan w args host port subnets)"
proof -
  let ?cfg = "\<lparr>cfg_user = arg_user args, cfg_host = host, cfg_port = port,
    cfg_identity = arg_identity args, cfg_remote_binary = arg_remote_binary args\<rparr>"
  have "follows (and_then (ssh_connect (ssh w) ?cfg) (set_up_and_run loop w args subnets))
      (run_plan w args host port subnets)"
    using follows_then[OF follows_ssh_connect[of "ssh w" ?cfg] follows_set_up_and_run[of loop w args subnets]]
    by (simp add: run_plan_def)
  moreover have "host_run loop w args = and_then (ssh_connect (ssh w) ?cfg) (set_up_and_run loop w args subnets)"
    by (simp add: host_run_def assms cli_result_def)
  ultimately show ?thesis by simp
qed

text \<open>The loop runs only after everything before it has succeeded.\<close>

lemma and_then_set:
  "a \<in> set (snd (and_then m k)) \<Longrightarrow> a \<notin> set (snd m) \<Longrightarrow> \<exists>x. fst m = Returns x \<and> a \<in> set (snd (k x))"
  by (cases m; cases "fst m") (auto simp: and_then_def split: prod.splits)

lemma follows_not_in: "follows m p \<Longrightarrow> a \<notin> set p \<Longrightarrow> a \<notin> set (snd m)"
  by (auto simp: follows_def prefix_def)

lemma add_routes_Returns:
  "fst (add_routes n tun_name subnets) = Returns () \<Longrightarrow>
   RouteAdd m \<in> set (route_plan n tun_name subnets) \<Longrightarrow> route_add n m = Inr ()"
proof (induction n tun_name subnets rule: add_routes.induct)
  case (2 n tun_name subnet p rest)
  from 2(2) have first: "fst (add_route n tun_name subnet p) = Returns ()"
    "fst (add_routes n tun_name rest) = Returns ()"
    by (simp_all add: and_then_Returns)
  from first(1) obtain i where i: "get_interface_index n tun_name = Inr i"
    "route_add n (route_message subnet p i) = Inr ()"
    by (auto simp: add_route_def and_then_Returns pure_act_def call_def Let_def)
  have "m = route_message subnet p i \<or> RouteAdd m \<in> set (route_plan n tun_name rest)"
    using 2(3) i(1) by (simp add: route_plan_def)
  with 2(1) first(2) i(2) show ?case by blast
qed (simp add: route_plan_def)

lemma run_loop_needs:
  assumes "parse_remote (arg_remote args) = Inr (host, port)"
    and "collect (map (cli_result \<circ> parse_cidr) (arg_subnets args)) = Inr subnets"
    and "RunLoop \<in> set (snd (host_run loop w args))" "refuses_unknown (ssh w)"
  shows "trusted_host (ssh w) \<and> let_in (ssh w) (arg_identity args) \<and>
    (\<forall>m. RouteAdd m \<in> set (route_plan (net w) (arg_tun_name args) subnets) \<longrightarrow> route_add (net w) m = Inr ())"
proof -
  let ?cfg = "\<lparr>cfg_user = arg_user args, cfg_host = host, cfg_port = port,
    cfg_identity = arg_identity args, cfg_remote_binary = arg_remote_binary args\<rparr>"
  have "host_run loop w args = and_then (ssh_connect (ssh w) ?cfg) (set_up_and_run loop w args subnets)"
    by (simp add: host_run_def assms(1,2) cli_result_def)
  then have loop: "RunLoop \<in> set (snd (and_then (ssh_connect (ssh w) ?cfg) (set_up_and_run loop w args subnets)))"
    using assms(3) by simp
  have "RunLoop \<notin> set (snd (ssh_connect (ssh w) ?cfg))"
    by (rule follows_not_in[OF follows_ssh_connect]) simp
  from and_then_set[OF loop this] obtain rw where rw: "fst (ssh_connect (ssh w) ?cfg) = Returns rw"
    "RunLoop \<in> set (snd (set_up_and_run loop w args subnets rw))" by blast
  obtain u where "RunLoop \<in> set (snd (and_then (add_routes (net w) (arg_tun_name args) subnets)
      (\<lambda>_. and_then (set_up_dns w args) (run_and_revert loop args rw))))"
    using and_then_set[OF rw(2)[unfolded set_up_and_run_def]] by (auto simp: create_tun_def call_def)
  moreover have "RunLoop \<notin> set (snd (add_routes (net w) (arg_tun_name args) subnets))"
    by (rule follows_not_in[OF follows_add_routes]) (auto simp: route_plan_def)
  ultimately have "fst (add_routes (net w) (arg_tun_name args) subnets) = Returns ()"
    using and_then_set[of RunLoop "add_routes (net w) (arg_tun_name args) subnets"] by auto
  with add_routes_Returns ssh_connect_Returns[OF rw(1) assms(4)] show ?thesis by auto
qed

text \<open>Before the arguments are parsed nothing is done.\<close>

lemma host_run_unparsed:
  assumes "snd (host_run loop w args) \<noteq> []"
  shows "\<exists>host port subnets. parse_remote (arg_remote args) = Inr (host, port) \<and>
    collect (map (cli_result \<circ> parse_cidr) (arg_subnets args)) = Inr subnets"
proof -
  have pure: "snd (and_then (pure_act (from_result r)) k) \<noteq> [] \<Longrightarrow> \<exists>x. r = Inr x" for r :: "string + 'x" and k :: "'x \<Rightarrow> 'y act"
    by (cases r) (simp_all add: and_then_def pure_act_def)
  obtain dest where dest: "parse_remote (arg_remote args) = Inr dest"
    using pure[OF assms[unfolded host_run_def]] by auto
  then have "cli_result (parse_remote (arg_remote args)) = Inr dest" by simp
  then have "snd (and_then (pure_act (from_result (collect (map (cli_result \<circ> parse_cidr) (arg_subnets args)))))
      (\<lambda>subnets. and_then (ssh_connect (ssh w)
        \<lparr>cfg_user = arg_user args, cfg_host = fst dest, cfg_port = snd dest,
         cfg_identity = arg_identity args, cfg_remote_binary = arg_remote_binary args\<rparr>)
        (set_up_and_run loop w args subnets))) \<noteq> []"
    using assms by (simp add: host_run_def)
  from pure[OF this] obtain subnets where "collect (map (cli_result \<circ> parse_cidr) (arg_subnets args)) = Inr subnets"
    by blast
  with dest show ?thesis by (cases dest) blast
qed

text \<open>
  C19: Start-up. What \<open>run\<close> does to the outside is a beginning of one plan: connect, start the
  remote program, create the interface, add the routes of the parsed subnets in order,
  register the DNS forwarder, run the loop and, once it has come back, revert the DNS
  configuration; nothing is done unless all arguments parse; the loop runs only when the
  host's key was known or confirmed and learned, one of the ways to authenticate succeeded,
  and every route was added; and whoever ends the loop, the configuration is reverted.
\<close>

theorem start_up_order:
  assumes "host_run loop w args = (r, acts)" "refuses_unknown (ssh w)" "acts \<noteq> []"
  shows "\<exists>host port subnets. parse_remote (arg_remote args) = Inr (host, port) \<and>
    collect (map (cli_result \<circ> parse_cidr) (arg_subnets args)) = Inr subnets \<and>
    prefix acts (run_plan w args host port subnets) \<and>
    (RunLoop \<in> set acts \<longrightarrow> trusted_host (ssh w) \<and> let_in (ssh w) (arg_identity args) \<and>
      (\<forall>m. RouteAdd m \<in> set (route_plan (net w) (arg_tun_name args) subnets) \<longrightarrow> route_add (net w) m = Inr ())) \<and>
    (\<forall>exit. r = Returns exit \<longrightarrow> acts = run_plan w args host port subnets)"
proof -
  obtain host port subnets where p: "parse_remote (arg_remote args) = Inr (host, port)"
    "collect (map (cli_result \<circ> parse_cidr) (arg_subnets args)) = Inr subnets"
    using host_run_unparsed[of loop w args] assms(1,3) by auto
  have f: "prefix acts (run_plan w args host port subnets)"
    "\<forall>exit. r = Returns exit \<longrightarrow> acts = run_plan w args host port subnets"
    using host_run_parsed[OF p, of loop w] assms(1) by (simp_all add: follows_def)
  have "trusted_host (ssh w) \<and> let_in (ssh w) (arg_identity args) \<and>
      (\<forall>m. RouteAdd m \<in> set (route_plan (net w) (arg_tun_name args) subnets) \<longrightarrow> route_add (net w) m = Inr ())"
    if "RunLoop \<in> set acts"
    using run_loop_needs[OF p, of loop w] that assms(1,2) by simp
  with p f show ?thesis by blast
qed

text \<open>An example: one subnet, an agent whose second identity is accepted, a DNS server.\<close>

definition example_world :: world where
  "example_world =
     \<lparr>ssh = \<lparr>known_hosts = Inr False, confirm_key = True, learn_host = Inr (),
        transport = (\<lambda>addr r. if r = Inr True then Inr () else Inl ''unknown key''),
        secret_key = (\<lambda>p. Inl ''no key''), publickey_auth = Inr False, agent = Inr (),
        agent_identities = Inr [\<lparr>id_auth = Inl ''refused'', id_start = Inl [], id_rounds = []\<rparr>,
          \<lparr>id_auth = Inr (AuthFailure [KeyboardInteractive] True),
           id_start = Inr (KbInfoRequest [\<lparr>pr_text = ''code'', pr_echo = True\<rparr>]),
           id_rounds = [\<lambda>rs. if rs = [''42''] then Inr KbSuccess else Inr KbFailure]\<rparr>],
        ask_text = (\<lambda>t. Inr ''42''), ask_password = (\<lambda>t. Inl ''no terminal''),
        password_auth = (\<lambda>p. Inr False), open_channel = Inr (),
        exec_result = (\<lambda>c. Inr (\<lparr>rd_bytes = [], rd_end = None\<rparr>, \<lparr>wr_out = [], wr_accepts = None,
          wr_error = UnexpectedEof, wr_flush_fails = False\<rparr>))\<rparr>,
      net = \<lparr>link_index = (\<lambda>n. Inr (Some 7)), route_add = (\<lambda>m. Inr ()), route_dump = (\<lambda>v6. []),
        route_del = (\<lambda>m. Inr ())\<rparr>,
      create_tun_result = (\<lambda>n. Inr ()), dns_bind = Inr 5353, resolvectl = (\<lambda>args. Inr True)\<rparr>"

definition example_args :: HostArgs where
  "example_args =
     \<lparr>arg_remote = ''h'', arg_user = ''u'', arg_subnets = [show_ip (V4 0x0A000000) @ CHR ''/'' # digits 10 8],
      arg_tun_ip = ''10.255.0.1/24'', arg_tun_name = ''tun0'', arg_identity = None, arg_remote_binary = ''ssh-proxy'',
      arg_dns = Some (V4 0x01010101), arg_dns_domains = None, arg_verbose = False\<rparr>"

theorem start_up_order_witness:
  "\<exists>acts. host_run (\<lambda>rd wr dns. Returned) example_world example_args = (Returns Returned, acts) \<and>
    RunLoop \<in> set acts \<and> trusted_host (ssh example_world) \<and> let_in (ssh example_world) None"
proof -
  have parsed: "parse_cidr (show_ip (V4 0x0A000000) @ CHR ''/'' # digits 10 8) = Inr (V4 0x0A000000, 8)"
    using parse_cidr_shown[of "V4 0x0A000000" 8] by (simp add: bits_of_family_def del: show_ip.simps)
  have args: "parse_remote (arg_remote example_args) = Inr (''h'', 22)"
    "collect (map (cli_result \<circ> parse_cidr) (arg_subnets example_args)) = Inr [(V4 0x0A000000, 8)]"
    by (simp_all add: example_args_def parse_remote_def parsed del: show_ip.simps)
  have auth: "authenticate (ssh example_world) cfg = Returns True" if "cfg_identity cfg = None" for cfg
    using that by (simp add: authenticate_def try_agent_auth_def try_identity_def example_world_def context_msg_def answer_def)
  have key: "check_server_key (ssh example_world) = Inr True"
    by (simp add: check_server_key_def example_world_def context_msg_def)
  have returned: "and_then (Returns x, as) k = (fst (k x), as @ snd (k x))" for x :: 'x and as and k :: "'x \<Rightarrow> 'y act"
    by (simp add: and_then_def split: prod.split)
  let ?loop = "\<lambda>rd wr dns. Returned"
  have connect: "\<exists>rw acts. ssh_connect (ssh example_world) cfg = (Returns rw, acts)" if "cfg_identity cfg = None" for cfg
  proof -
    have w: "transport (ssh example_world) addr (Inr True) = Inr ()" "open_channel (ssh example_world) = Inr ()" for addr
      by (simp_all add: example_world_def)
    obtain rw where "exec_result (ssh example_world) (cfg_remote_binary cfg @ '' remote'') = Inr rw"
      by (simp add: example_world_def)
    then show ?thesis
      by (simp add: ssh_connect_def auth[OF that] key call_def returned context_msg_def Let_def w)
  qed
  have set_up: "\<exists>acts. set_up_and_run ?loop example_world example_args [(V4 0x0A000000, 8)] rw = (Returns Returned, acts) \<and>
      RunLoop \<in> set acts" for rw
    by (simp add: example_world_def example_args_def set_up_and_run_def create_tun_def add_route_def
        get_interface_index_def set_up_dns_def register_dns_def resolvectl_ok_def run_and_revert_def
        unregister_dns_def call_def returned Let_def pure_act_def del: show_ip.simps)
  have "arg_identity example_args = None" by (simp add: example_args_def)
  then obtain rw a1 where c: "ssh_connect (ssh example_world)
      \<lparr>cfg_user = arg_user example_args, cfg_host = ''h'', cfg_port = 22, cfg_identity = arg_identity example_args,
       cfg_remote_binary = arg_remote_binary example_args\<rparr> = (Returns rw, a1)"
    using connect by fastforce
  obtain a2 where s: "set_up_and_run ?loop example_world example_args [(V4 0x0A000000, 8)] rw = (Returns Returned, a2)"
    "RunLoop \<in> set a2"
    using set_up by blast
  then obtain acts where run: "host_run ?loop example_world example_args = (Returns Returned, acts)" "RunLoop \<in> set acts"
    by (simp add: host_run_def args c returned)
  have "refuses_unknown (ssh example_world)" by (auto simp: refuses_unknown_def example_world_def)
  moreover have "acts \<noteq> []" using run(2) by auto
  ultimately show ?thesis using start_up_order[OF run(1)] run by (auto simp: example_args_def)
qed

end
