(* ===== verification/Main_Program.thy ===== *)
theory Main_Program
  imports Host_Startup Remote_Invariants
begin

text \<open>
  \<open>src/src/main.rs\<close>, the declarations of \<open>src/src/cli.rs\<close> and \<open>run\<close> of
  \<open>src/src/remote/mod.rs\<close>: the two commands of the program, their arguments and where their
  logs go. The remote's standard output carries the protocol, and whether its log
  can be opened decides whether the host ever hears from it.
\<close>

section \<open>The arguments\<close>

text \<open>
  The values given on the command line, before \<open>clap\<close> fills in the declared defaults.
  \<open>into_string\<close>: the name of the current user as a string, if it is valid UTF-8.
\<close>

definition default_user :: "('os \<Rightarrow> string option) \<Rightarrow> 'os option \<Rightarrow> string" where
  "default_user into_string current =
     (case current of
        None \<Rightarrow> ''root''
      | Some u \<Rightarrow> (case into_string u of Some name \<Rightarrow> name | None \<Rightarrow> ''root''))"

record given_args =
  given_remote :: string
  given_user :: "string option"
  given_subnets :: "string list"
  given_tun_ip :: "string option"
  given_tun_name :: "string option"
  given_identity :: "string option"
  given_remote_binary :: "string option"
  given_dns :: "IpAddr option"
  given_dns_domains :: "string option"
  given_verbose :: bool

definition host_args :: "string \<Rightarrow> given_args \<Rightarrow> HostArgs" where
  "host_args user g =
     (let or_default = (\<lambda>v d. case v of Some x \<Rightarrow> x | None \<Rightarrow> d) in
      \<lparr>arg_remote = given_remote g, arg_user = or_default (given_user g) user,
       arg_subnets = concat (map (split_on CHR '','') (given_subnets g)),
       arg_tun_ip = or_default (given_tun_ip g) ''10.255.0.1/24'',
       arg_tun_name = or_default (given_tun_name g) ''tun0'', arg_identity = given_identity g,
       arg_remote_binary = or_default (given_remote_binary g) ''ssh-proxy'', arg_dns = given_dns g,
       arg_dns_domains = given_dns_domains g, arg_verbose = given_verbose g\<rparr>)"

lemma given_subnets_cidrs:
  assumes "\<forall>s \<in> set (given_subnets g). CHR '','' \<notin> set s"
  shows "arg_subnets (host_args user g) = given_subnets g"
proof -
  have split: "CHR '','' \<notin> set s \<Longrightarrow> split_on CHR '','' s = [s]" for s
    by (induction s) auto
  have "concat (map (split_on CHR '','') ss) = ss" if "\<forall>s \<in> set ss. CHR '','' \<notin> set s" for ss
    using that by (induction ss) (simp_all add: split)
  with assms show ?thesis by (simp add: host_args_def Let_def)
qed

section \<open>The commands and their logs\<close>

datatype Command = HostCommand HostArgs | RemoteCommand

datatype log_filter = Debug | FromEnv

datatype log_target = LogStdout | LogStderr | LogFile string

text \<open>What the process finds: its platform, the cache directory, and what opening a file says.\<close>

record environment =
  on_linux :: bool
  cache_home :: "string option"
  open_append :: "string \<Rightarrow> string + unit"

definition command_filter :: "Command \<Rightarrow> log_filter" where
  "command_filter cmd =
     (case cmd of
        HostCommand args \<Rightarrow> if arg_verbose args then Debug else FromEnv
      | RemoteCommand \<Rightarrow> FromEnv)"

text \<open>\<open>PathBuf::push\<close> of a relative name.\<close>

definition path_push :: "string \<Rightarrow> string \<Rightarrow> string" where
  "path_push dir name = (if dir = [] \<or> last dir = CHR ''/'' then dir @ name else dir @ CHR ''/'' # name)"

definition remote_log :: "environment \<Rightarrow> string + log_target" where
  "remote_log env =
     (case cache_home env of
        Some dir \<Rightarrow>
          (let file = path_push dir ''ssh-proxy.log''
           in case open_append env file of Inl e \<Rightarrow> Inl e | Inr _ \<Rightarrow> Inr (LogFile file))
      | None \<Rightarrow> Inr LogStderr)"

text \<open>\<open>run\<close> of the remote: a new proxy on standard input and output.\<close>

definition remote_main ::
  "(RemoteMessage \<Rightarrow> string + bytes) \<Rightarrow> (bytes \<Rightarrow> string + HostMessage) \<Rightarrow> reader \<Rightarrow> writer \<Rightarrow>
   protocol_error + RemoteProxy"
where
  "remote_main to_allocvec from_bytes stdin stdout = remote_start to_allocvec from_bytes stdin stdout"

text \<open>What the process becomes; \<open>StartFails\<close>: \<open>main\<close> returns an error before either \<open>run\<close>.\<close>

datatype ('h, 'r) process = HostRuns log_filter log_target 'h | RemoteRuns log_filter log_target 'r | StartFails string

definition main_program ::
  "environment \<Rightarrow> (HostArgs \<Rightarrow> 'h) \<Rightarrow> 'r \<Rightarrow> Command \<Rightarrow> ('h, 'r) process"
where
  "main_program env host remote cmd =
     (let logged = command_filter cmd in
      case cmd of
        HostCommand args \<Rightarrow>
          (if on_linux env then HostRuns logged LogStdout (host args)
           else StartFails ''host mode is only supported on Linux (requires TUN device)'')
      | RemoteCommand \<Rightarrow>
          (case remote_log env of
             Inl e \<Rightarrow> StartFails e
           | Inr target \<Rightarrow> RemoteRuns logged target remote))"

section \<open>What the host hears of the start\<close>

text \<open>
  What comes out of the standard output of \<open>ssh-proxy remote\<close>: the log line \<open>Remote proxy
  starting\<close> that \<open>run\<close> writes first, if the log goes there, then what the proxy has written to its
  writer, then whatever follows. A process whose \<open>main\<close> returns an error writes nothing there.
\<close>

fun on_stdout :: "log_target \<Rightarrow> bytes \<Rightarrow> bytes" where
  "on_stdout LogStdout line = line"
| "on_stdout _ line = []"

definition remote_output :: "bytes \<Rightarrow> bytes \<Rightarrow> ('h, protocol_error + RemoteProxy) process \<Rightarrow> bytes" where
  "remote_output line later p =
     (case p of
        RemoteRuns logged target (Inr s) \<Rightarrow> on_stdout target line @ wr_out (rp_writer s) @ later
      | RemoteRuns logged target (Inl e) \<Rightarrow> on_stdout target line
      | _ \<Rightarrow> [])"

lemma remote_log_target: "remote_log env = Inr target \<Longrightarrow> on_stdout target line = []"
  by (auto simp: remote_log_def Let_def split: option.splits sum.splits)

lemma log_fails_iff:
  "(\<exists>e. remote_log env = Inl e) \<longleftrightarrow>
   (\<exists>dir e. cache_home env = Some dir \<and> open_append env (path_push dir ''ssh-proxy.log'') = Inl e)"
  by (auto simp: remote_log_def Let_def split: option.splits sum.splits)

text \<open>How the host's function is left, by the first message it reads.\<close>

lemma first_message_exit:
  assumes "run_proxy_loop ep henc rdec rd w dns evs = (exit, w')"
  shows "fst (read_message rdec rd) = Inr None \<Longrightarrow> exit = DisconnectedBeforeReady"
    and "fst (read_message rdec rd) = Inl e \<Longrightarrow> exit = ReadyError e"
    and "fst (read_message rdec rd) = Inr (Some Ready) \<Longrightarrow> exit \<in> {Returned, Panics, Hangs, StillRunning}"
  using assms
  by (cases "read_message rdec rd"; auto simp: run_proxy_loop_def split: prod.splits loop_result.splits)+

text \<open>
  C37: Between the two processes. Of the output of \<open>ssh-proxy remote\<close> the first \<open>n\<close> bytes come
  before the stream ends. The host reports that the remote disconnected before
  it was ready in two cases only: the remote's log file could not be opened, so that its \<open>main\<close>
  has returned without a word; or not even the length of the first message has come. A \<open>Ready\<close>
  cut after its length is a read error. In all other cases the host's loop starts: whatever the
  log lines are, they are never taken for a message, and the first message is never another one.
\<close>

theorem remote_ready_iff_log:
  assumes "message_codec renc rdec" "renc Ready = Inr d" "length d \<le> max_message"
    and "wr_out stdout = []" "wr_accepts stdout = None" "\<not> wr_flush_fails stdout"
    and "rd_bytes rd = take n (remote_output line later
      (main_program env host (remote_main renc hdec stdin stdout) RemoteCommand))"
    and "rd_end rd = None" "run_proxy_loop ep henc rdec rd w dns evs = (exit, w')"
    and "fails \<longleftrightarrow> (\<exists>dir e. cache_home env = Some dir \<and> open_append env (path_push dir ''ssh-proxy.log'') = Inl e)"
  shows "(exit = DisconnectedBeforeReady \<longleftrightarrow> fails \<or> n < 8) \<and>
    (exit = ReadyError (Io UnexpectedEof) \<longleftrightarrow> \<not> fails \<and> 8 \<le> n \<and> n < 8 + length d) \<and>
    (exit \<in> {Returned, Panics, Hangs, StillRunning} \<longleftrightarrow> \<not> fails \<and> 8 + length d \<le> n)"
proof -
  note exits = first_message_exit[OF assms(9)]
  have len: "length (frame d) = 8 + length d" by (simp add: frame_def)
  show ?thesis
  proof (cases "remote_log env")
    case (Inl e)
    then have fails using assms(10) log_fails_iff by blast
    moreover have "rd_bytes rd = []" using assms(7) Inl by (simp add: main_program_def remote_output_def)
    then have "exit = DisconnectedBeforeReady"
      using exits(1) read_message_cut_prefix[of rd rdec] assms(8) by simp
    ultimately show ?thesis by simp
  next
    case (Inr target)
    then have ok: "\<not> fails" using assms(10) log_fails_iff by (metis sum.distinct(1))
    have "write_message renc Ready stdout = (Inr (), stdout\<lparr>wr_out := frame d\<rparr>)"
      using assms(2-6) by (simp add: write_message_def write_all_def flush_def frame_def Let_def)
    then have out: "rd_bytes rd = take n (frame d @ later)"
      using assms(7) Inr remote_log_target[OF Inr, of line]
      by (simp add: main_program_def Let_def remote_output_def remote_main_def remote_start_def remote_new_def)
    consider "n < 8" | "8 \<le> n" "n < 8 + length d" | "8 + length d \<le> n" by linarith
    then show ?thesis
    proof cases
      case 1
      then have "length (rd_bytes rd) < 8" by (simp add: out)
      from exits(1)[OF read_message_cut_prefix[OF this assms(8)]] 1 ok show ?thesis by simp
    next
      case 2
      then have "rd_bytes rd = take n (frame d)" by (simp add: out len)
      from exits(2)[OF read_message_cut_body[OF this 2(1) _ assms(3,8)]] 2 ok len show ?thesis by simp
    next
      case 3
      then have "rd_bytes rd = frame d @ take (n - length (frame d)) later" by (simp add: out len)
      from read_message_frame[OF this assms(3), of rdec] message_codec.codec[OF assms(1,2)] exits(3) 3 ok
      show ?thesis by auto
    qed
  qed
qed

text \<open>An example: a home directory without \<open>.cache\<close>, where the log file cannot be created.\<close>

definition no_cache_dir :: environment where
  "no_cache_dir = \<lparr>on_linux = True, cache_home = Some ''/home/u/.cache'',
     open_append = (\<lambda>file. if file = ''/home/u/.cache/ssh-proxy.log'' then Inl ''not found'' else Inr ())\<rparr>"

theorem remote_ready_iff_log_witness:
  "rd_bytes \<lparr>rd_bytes = [], rd_end = None\<rparr> = take 100 (remote_output [73, 78, 70, 79] [] (main_program no_cache_dir (\<lambda>args. ())
      (remote_main remote_to_allocvec host_from_bytes example_reader example_writer) RemoteCommand)) \<and>
   fst (run_proxy_loop rfc_etherparse host_to_allocvec remote_from_bytes \<lparr>rd_bytes = [], rd_end = None\<rparr>
      example_writer None []) = DisconnectedBeforeReady"
proof -
  have ready: "remote_to_allocvec Ready = Inr [6]" by (simp add: remote_to_allocvec_def enc_varint.simps)
  let ?rd = "\<lparr>rd_bytes = [], rd_end = None\<rparr>"
  have out: "rd_bytes ?rd = take 100 (remote_output [73, 78, 70, 79] [] (main_program no_cache_dir (\<lambda>args. ())
      (remote_main remote_to_allocvec host_from_bytes example_reader example_writer) RemoteCommand))"
    by (simp add: main_program_def remote_log_def no_cache_dir_def path_push_def remote_output_def)
  obtain exit w' where run: "run_proxy_loop rfc_etherparse host_to_allocvec remote_from_bytes
      ?rd example_writer None [] = (exit, w')"
    by (cases "run_proxy_loop rfc_etherparse host_to_allocvec remote_from_bytes ?rd example_writer None []")
  have "exit = DisconnectedBeforeReady"
    using remote_ready_iff_log[OF remote_codec.message_codec_axioms ready _ _ _ _ out _ run refl]
    by (simp add: example_writer_def) (simp add: no_cache_dir_def path_push_def)
  with run out show ?thesis by simp
qed

end
