(* ===== verification/Spec2Isabelle.thy ===== *)
theory Spec2Isabelle
  imports Wire Postcard Host_Sessions Host_Loop Host_Progress Host_Upload Host_Download Host_Dns
    Host_Datagrams System System_Answers Session_End Remote_Answers Remote_Progress Cli Host_Startup Main_Program
begin

text \<open>
  A verification development about \<open>ssh-proxy\<close>: two instances of one program that carry the
  traffic of a machine through an SSH connection. The host (\<open>src/src/host/\<close>) captures IP
  packets from a TUN device, ends the TCP connections of the local applications itself, and
  sends their data as messages over the standard input of a remote program; the remote
  (\<open>src/src/remote/\<close>) opens real connections and sends back what arrives. Both sides share the
  message protocol (\<open>src/src/protocol.rs\<close>); the host alone parses and builds packets
  (\<open>src/src/packet.rs\<close>).

  \<^bold>\<open>How the parts interact.\<close> A packet from the TUN device goes to \<open>parse_ip_packet\<close>; the
  handler of the segment or datagram changes the connection table (\<open>NatTable\<close>) and puts messages
  for the remote on one bounded channel and packets for the application on another; the event
  loop \<open>run_proxy_loop\<close> writes both out, and passes the remote's messages to their handler. The
  remote's main task reads the host's messages, starts a task per connection, datagram and DNS
  query, passes data to the tasks over bounded channels that are found in a map, and writes the
  tasks' answers, which come over one bounded channel. A run of the host parses its
  arguments, connects over SSH, creates the interface, adds the routes, registers the DNS
  forwarder and then runs its loop.

  \<^bold>\<open>The theories and the code.\<close>
  \<open>Prelude\<close>: machine words, big-endian bytes, addresses, the outcomes of Rust code, bounded
  channels (\<open>tokio::sync::mpsc\<close>), and handler statements with their invariants (\<open>keeps\<close>).
  \<open>Packet\<close>: \<open>packet.rs\<close>, parsing and building over the etherparse crate, which is a parameter
  with its documented laws (\<open>etherparse_laws\<close>); \<open>Wire\<close> interprets them on the RFC formats.
  \<open>Protocol\<close>: \<open>protocol.rs\<close> and the reader task, over readers and writers that end or fail
  anywhere, and the postcard serialiser as a parameter with a round-trip law
  (\<open>message_codec\<close>); \<open>Postcard\<close> interprets it on the format's specification.
  \<open>Nat_Table\<close>: \<open>host/nat.rs\<close>, every operation, on maps and a wrapping counter.
  \<open>Dns\<close>: the query forwarder of \<open>host/dns.rs\<close>.
  \<open>Host_Handlers\<close>: the handlers of \<open>host/mod.rs\<close>, one definition per state and message, with
  every table operation and send in the code's order.
  \<open>Host_Loop\<close>: \<open>run_proxy_loop\<close>, the six arms of its \<open>select!\<close> as events in any order, over
  \<open>AsyncTunDevice\<close> of \<open>host/tun.rs\<close>; a seventh event, \<open>WriteStalls\<close>, is back-pressure: a write
  to SSH or to the device that the loop has begun and that never completes.
  \<open>Cli\<close>: the parsers of \<open>cli.rs\<close> with the integer and address parsers of the standard library,
  and \<open>prefix_to_netmask\<close> of \<open>host/tun.rs\<close>.
  \<open>Actions\<close>, \<open>Ssh\<close>, \<open>Routing\<close>, \<open>Host_Startup\<close>: \<open>host/ssh.rs\<close>, \<open>host/routing.rs\<close>, the DNS
  registration and \<open>run\<close>, over a record of everything the outside answers, with the actions
  recorded in order.
  \<open>Remote\<close>: \<open>remote/mod.rs\<close> and \<open>remote/proxy.rs\<close> as a step relation: a step is what one task
  does between two points where it can wait; the shard locks of the map are part of the state
  of the main task. A run is any sequence of steps, each with what the network answers; a task
  that waits, for a message, an answer or a write, is one that the schedule does not pick. The
  inbox holds what the reader task will deliver in the course of the run.
  \<open>Main_Program\<close>: \<open>main.rs\<close>, the declared arguments of \<open>cli.rs\<close> and \<open>run\<close> of the remote: what
  the process becomes, over a record of what it finds (platform, cache directory, files).
  \<open>System\<close>, \<open>System_Answers\<close>, \<open>Session_End\<close>: the two programs connected, each reading what the
  other has written.

  \<^bold>\<open>What the lemmas show.\<close>
  \<open>Host_Invariants\<close>: handlers keep the table well formed, do not panic on it, and do not touch
  other connections. \<open>Host_Streams\<close>, \<open>Host_Sessions\<close>, \<open>Host_Lifecycle\<close>: the two data streams, the
  opening and closing exchanges, and the refinement of an automaton per connection.
  \<open>Host_Progress\<close>: when an iteration of the loop ends, and how it can wait for itself.
  \<open>Host_Frame\<close>: what the next two share, the frame of a session, and what a reader makes of a
  stream that has arrived in part.
  \<open>Host_Upload\<close>: the upload of one connection through the loop up to the bytes on SSH.
  \<open>Host_Download\<close>: the download from the messages of the remote to the segments on the device.
  \<open>Host_Dns\<close>, \<open>Host_Datagrams\<close>: queries, datagrams and their answers through the loop.
  \<open>Host_Channels\<close>: what is shared by these, the laws under which all handlers keep an invariant
  of the two channels.
  \<open>Remote_Invariants\<close>: the remote refines a step relation on single tasks; what the host is told
  about a connection is one conversation. \<open>Remote_Data\<close>: which tasks the map can name, and that
  the host's data is accepted and written in order. \<open>Remote_Answers\<close>: one task per datagram or
  query, at most one answer per task. \<open>Remote_Progress\<close>: closing flushes, in every
  schedule in which the destination takes the data; the
  states the main task never leaves; data that comes too early is dropped.
  \<open>System\<close>: the host never asks for an identifier twice, so each session has these
  conversations; an upload reaches its destination, and a download its application, while the
  connection is established on both sides and neither end closes or resets it.
  \<open>System_Answers\<close>: a client gets only replies to its own queries, an application only datagrams
  from where it has itself sent to. \<open>Session_End\<close>: the host says \<open>Shutdown\<close> last, and the remote
  returns when it has read it or the end of its input. \<open>Main_Program\<close>: the host's loop
  starts when the remote could open its log and its first message has come whole.

  \<^bold>\<open>Interfaces.\<close> \<open>etherparse_laws\<close>, \<open>message_codec\<close>, \<open>id_allocator\<close> (the counters of the table and
  of the DNS forwarder), \<open>table_invariant\<close> (what the handlers of one connection may do to
  the table) and \<open>tcp_channels\<close>, extended by \<open>channel_invariant\<close> and their extensions for
  connection requests and queries (what they may put on the channels) are locales; each is
  interpreted on the definitions that provide it.

  \<^bold>\<open>Bounds.\<close> Identifiers are 32-bit words: the theorems about whole runs ask for fewer than
  \<open>2\<^sup>3\<^sup>2\<close> connection requests, and \<open>tcp_ids_distinct_iff\<close> shows that the bound is sharp; so are the
  numbers of DNS queries, of which \<open>dns_end_to_end\<close> allows \<open>2\<^sup>3\<^sup>2\<close>.
  Streams are shorter than \<open>2\<^sup>3\<^sup>2\<close> bytes where sequence numbers stand for offsets, and the
  bytes of a session shorter than \<open>2\<^sup>6\<^sup>4\<close> where a frame's length must not wrap. There is no
  fuel: every recursion is structural or has a measure; what may not end (the keyboard
  interaction of SSH, the loops, the tasks) runs on a finite list of events or answers, and a
  theorem that something ends says so of a given list.

  \<^bold>\<open>Not modelled.\<close> The crates (etherparse, postcard, russh, rtnetlink, tun, tokio, DashMap) beyond
  the behaviour the code relies on; the parsing of the command line by clap (its declared
  defaults are modelled); log messages, and the texts of errors where they quote values; the UTF-8
  check of strings. Reading the clock, the device and the network are arguments of the steps. A
  write of the remote's main task that stalls is a schedule without further steps of that task,
  and what it has written of the message by then is not counted. The remote's tasks interleave at their waiting points, so data races below
  that (there are none on the shared map and flag) are outside the model.
\<close>

end
